(* ===== verification/Prelude.thy ===== *)
theory Prelude
  imports Main "HOL-Library.Word"
begin

text \<open>
  Shared ground of the development: the Go values every component uses (int32 as
  \<open>32 word\<close> read with \<open>sint\<close>, errors as values) and the loop Go programs use to filter a
  slice in place.
\<close>

named_theorems int32_simps \<open>signed reading of the int32 arithmetic of the ledgers\<close>

section \<open>Go values\<close>

type_synonym int32 = "32 word"

text \<open>An instant and a duration, in nanoseconds (\<open>time.Time\<close>, \<open>time.Duration\<close>).\<close>

type_synonym go_time = int
type_synonym go_duration = int

abbreviation second :: go_duration where
  "second \<equiv> 1000000000"

abbreviation millisecond :: go_duration where
  "millisecond \<equiv> 1000000"

text \<open>
  The errors an API server answers with, as far as the sources tell them apart
  (\<open>apierrors.IsNotFound\<close>, \<open>IsAlreadyExists\<close>, \<open>IsConflict\<close>), and Go error values:
  an API error, the two ways a bounded retry gives up, a message, and \<open>fmt.Errorf\<close>
  with \<open>%w\<close> around another error.
\<close>

datatype api_error = NotFound | AlreadyExists | Conflict | OtherAPI string

datatype go_error =
    ErrAPI api_error
  | ErrTimeout
  | ErrContext
  | ErrMsg string
  | ErrWrap string go_error

lemma sint_int32_bounds: "- (2 ^ 31) \<le> sint (w :: int32) \<and> sint w < 2 ^ 31"
  using sint_ge [of w] sint_lt [of w] by simp

lemma sint_add_int32:
  assumes "- (2 ^ 31) \<le> sint (a :: int32) + sint b" and "sint a + sint b < 2 ^ 31"
  shows "sint (a + b) = sint a + sint b"
proof -
  have "sint (a + b) = signed_take_bit 31 (sint a + sint b)"
    by (simp add: sint_word_ariths)
  also have "\<dots> = sint a + sint b"
    using assms by (intro signed_take_bit_int_eq_self) simp_all
  finally show ?thesis .
qed

text \<open>\<open>int32(n)\<close> of a Go \<open>int\<close> keeps the low 32 bits.\<close>

definition int32_of_int :: "int \<Rightarrow> int32" where
  "int32_of_int n = word_of_int n"

lemma sint_int32_of_int [int32_simps]:
  "0 \<le> n \<Longrightarrow> n < 2 ^ 31 \<Longrightarrow> sint (int32_of_int n) = n"
  unfolding int32_of_int_def
  by (simp add: sint_word_ariths signed_take_bit_int_eq_self sint_uint word_of_int_inverse
      take_bit_int_eq_self uint_word_of_int)

section \<open>Filtering a slice in place\<close>

text \<open>
  Go's idiom \<open>kept := xs[:0]; for _, r := range xs { if keep(r) { kept = append(kept, r) } }\<close>
  shares one backing array between \<open>xs\<close> and \<open>kept\<close>: \<open>arr\<close> is that array, \<open>n\<close> the length
  the \<open>range\<close> fixed on entry, \<open>i\<close> the read index and \<open>k\<close> the length of \<open>kept\<close>. Each
  \<open>append\<close> overwrites position \<open>k\<close> of the array that is still being read.
\<close>

function compact_loop :: "('a \<Rightarrow> bool) \<Rightarrow> 'a list \<Rightarrow> nat \<Rightarrow> nat \<Rightarrow> nat \<Rightarrow> 'a list" where
  "compact_loop keep arr n i k =
     (if i < n then
        (let r = arr ! i in
         if keep r then compact_loop keep (arr[k := r]) n (Suc i) (Suc k)
         else compact_loop keep arr n (Suc i) k)
      else take k arr)"
  by pat_completeness auto
termination
  by (relation "measure (\<lambda>(keep, arr, n, i, k). n - i)") auto

declare compact_loop.simps [simp del]

definition compact_inplace :: "('a \<Rightarrow> bool) \<Rightarrow> 'a list \<Rightarrow> 'a list" where
  "compact_inplace keep xs = compact_loop keep xs (length xs) 0 0"

lemma compact_loop_eq:
  "k \<le> i \<Longrightarrow> i \<le> n \<Longrightarrow> n = length arr \<Longrightarrow>
     compact_loop keep arr n i k = take k arr @ filter keep (drop i arr)"
proof (induction keep arr n i k rule: compact_loop.induct)
  case (1 keep arr n i k)
  show ?case
  proof (cases "i < n")
    case False
    with "1.prems" show ?thesis by (subst compact_loop.simps) simp
  next
    case True
    with "1.prems" have split: "drop i arr = arr ! i # drop (Suc i) arr"
      by (simp add: Cons_nth_drop_Suc)
    show ?thesis
    proof (cases "keep (arr ! i)")
      case keep: True
      have "compact_loop keep arr n i k = compact_loop keep (arr[k := arr ! i]) n (Suc i) (Suc k)"
        using True keep by (subst compact_loop.simps) (simp add: Let_def)
      also have "\<dots> = take (Suc k) (arr[k := arr ! i]) @ filter keep (drop (Suc i) (arr[k := arr ! i]))"
        using "1.IH"(1) [OF True refl keep] "1.prems" True by simp
      also have "\<dots> = take k arr @ filter keep (drop i arr)"
        using "1.prems" True keep
        by (simp add: take_Suc_conv_app_nth drop_update_cancel split)
      finally show ?thesis .
    next
      case drop: False
      with "1.IH"(2) [OF True refl drop] "1.prems" True show ?thesis
        by (subst compact_loop.simps) (simp add: Let_def split)
    qed
  qed
qed

text \<open>Sharing the array is harmless: the write index never passes the read index.\<close>

lemma compact_inplace_filter [simp]: "compact_inplace keep xs = filter keep xs"
  by (simp add: compact_inplace_def compact_loop_eq)

end
