(* ===== verification/Api.thy ===== *)
theory Api
  imports Prelude
begin

text \<open>
  The custom resources of \<open>api/v1alpha1\<close>: \<open>ConsumptionQuota\<close> (the provider's policy) and
  \<open>QuotaUsage\<close> (the ledger of one consumer workspace and one governed identity), field by
  field, with the constraints their kubebuilder markers put on stored objects and the value
  semantics of the generated \<open>DeepCopy\<close>. A resource version is the number the API server
  stamps on each write.
\<close>

section \<open>QuotaUsage\<close>

record Reservation =
  Key :: string
  ExpiresAt :: go_time

record QuotaUsageStatus =
  Confirmed :: int32
  Reservations :: "Reservation list"

record QuotaUsageSpec =
  us_Consumer :: string
  us_Group :: string
  us_Resource :: string
  us_IdentityHash :: string

record QuotaUsage =
  qu_Name :: string
  qu_ResourceVersion :: nat
  qu_Spec :: QuotaUsageSpec
  qu_Status :: QuotaUsageStatus

text \<open>The zero value of the status, as in an object that was just created.\<close>

definition empty_status :: QuotaUsageStatus where
  "empty_status = \<lparr>Confirmed = 0, Reservations = []\<rparr>"

text \<open>\<open>+kubebuilder:validation:Minimum=0\<close> on \<open>confirmed\<close>; the spec is immutable.\<close>

definition valid_QuotaUsage :: "QuotaUsage \<Rightarrow> bool" where
  "valid_QuotaUsage u \<longleftrightarrow> 0 \<le> sint (Confirmed (qu_Status u))"

definition valid_QuotaUsage_update :: "QuotaUsage \<Rightarrow> QuotaUsage \<Rightarrow> bool" where
  "valid_QuotaUsage_update old new \<longleftrightarrow> valid_QuotaUsage new \<and> qu_Spec new = qu_Spec old"

section \<open>DeepCopy\<close>

text \<open>
  \<open>DeepCopyInto\<close> of a status: the struct is copied, then the slice is copied element by
  element into a fresh array. A nil and an empty slice are both the empty list here: no code
  below distinguishes them, and the equality the store tests is blind to the difference.
\<close>

definition Reservation_DeepCopyInto :: "Reservation \<Rightarrow> Reservation" where
  "Reservation_DeepCopyInto inp = \<lparr>Key = Key inp, ExpiresAt = ExpiresAt inp\<rparr>"

fun copy_loop :: "Reservation list \<Rightarrow> nat \<Rightarrow> Reservation list \<Rightarrow> Reservation list" where
  "copy_loop [] i out = out"
| "copy_loop (r # rs) i out = copy_loop rs (Suc i) (out[i := Reservation_DeepCopyInto r])"

definition zero_Reservation :: Reservation where
  "zero_Reservation = \<lparr>Key = [], ExpiresAt = 0\<rparr>"

definition QuotaUsageStatus_DeepCopy :: "QuotaUsageStatus \<Rightarrow> QuotaUsageStatus" where
  "QuotaUsageStatus_DeepCopy inp =
     inp\<lparr>Reservations :=
       copy_loop (Reservations inp) 0 (replicate (length (Reservations inp)) zero_Reservation)\<rparr>"

lemma copy_loop_eq:
  "i + length rs = length out \<Longrightarrow> copy_loop rs i out = take i out @ rs"
proof (induction rs i out rule: copy_loop.induct)
  case (1 i out)
  then show ?case by simp
next
  case (2 r rs i out)
  have "copy_loop (r # rs) i out = take (Suc i) (out[i := Reservation_DeepCopyInto r]) @ rs"
    using 2 by simp
  also have "\<dots> = take i out @ Reservation_DeepCopyInto r # rs"
    using "2.prems" by (simp add: take_Suc_conv_app_nth)
  finally show ?case by (simp add: Reservation_DeepCopyInto_def)
qed

lemma QuotaUsageStatus_DeepCopy_id [simp]: "QuotaUsageStatus_DeepCopy st = st"
  by (simp add: QuotaUsageStatus_DeepCopy_def copy_loop_eq)

section \<open>ConsumptionQuota\<close>

record GovernedResource =
  gr_APIExportName :: string
  gr_Group :: string
  gr_Version :: string
  gr_Resource :: string

record ConsumptionQuotaSpec =
  cs_Governed :: GovernedResource
  cs_By :: string
  cs_DefaultLimit :: int32
  cs_AutoApproveCeiling :: "int32 option"

text \<open>Conditions are declared in the status and written by no code of this repository.\<close>

record ConsumptionQuotaStatus =
  ct_IdentityHash :: string

text \<open>
  Of the object metadata: the name, the logical cluster (kcp's annotation), the deletion
  timestamp, the finalizers and the resource version.
\<close>

record ConsumptionQuota =
  cq_Name :: string
  cq_Cluster :: string
  cq_DeletionTimestamp :: "go_time option"
  cq_Finalizers :: "string list"
  cq_ResourceVersion :: nat
  cq_Spec :: ConsumptionQuotaSpec
  cq_Status :: ConsumptionQuotaStatus

definition valid_GovernedResource :: "GovernedResource \<Rightarrow> bool" where
  "valid_GovernedResource g \<longleftrightarrow>
     gr_APIExportName g \<noteq> [] \<and> gr_Group g \<noteq> [] \<and> gr_Version g \<noteq> [] \<and> gr_Resource g \<noteq> []"

definition valid_ConsumptionQuotaSpec :: "ConsumptionQuotaSpec \<Rightarrow> bool" where
  "valid_ConsumptionQuotaSpec s \<longleftrightarrow>
     valid_GovernedResource (cs_Governed s) \<and> cs_By s = ''Count'' \<and> 0 \<le> sint (cs_DefaultLimit s)"

end
