(* ===== verification/Accounting.thy ===== *)
theory Accounting
  imports Api
begin

text \<open>
  The reservation arithmetic of \<open>internal/accounting/accounting.go\<close>. The ledger holds a
  confirmed count and a list of reservations with expiry times; \<open>Used\<close> is their sum as an
  int32. The lemmas give \<open>Used\<close> its meaning (no wrap-around while the ledger is small),
  what each operation does to the live slots, and the refinement to the abstract ledger of
  distinct slots at the end.
\<close>

section \<open>Operations\<close>

text \<open>\<open>r.ExpiresAt.Time.After(now)\<close>\<close>

definition live_at :: "go_time \<Rightarrow> Reservation \<Rightarrow> bool" where
  "live_at now r \<longleftrightarrow> now < ExpiresAt r"

fun count_live :: "go_time \<Rightarrow> Reservation list \<Rightarrow> int32 \<Rightarrow> int32" where
  "count_live now [] live = live"
| "count_live now (r # rs) live = count_live now rs (if live_at now r then live + 1 else live)"

definition Used :: "QuotaUsageStatus \<Rightarrow> go_time \<Rightarrow> int32" where
  "Used st now = Confirmed st + count_live now (Reservations st) 0"

definition Reserve ::
  "QuotaUsageStatus \<Rightarrow> string \<Rightarrow> int32 \<Rightarrow> go_time \<Rightarrow> go_duration \<Rightarrow> QuotaUsageStatus \<times> bool" where
  "Reserve st objKey limit now ttl =
     (if list_ex (\<lambda>r. Key r = objKey \<and> live_at now r) (Reservations st) then (st, True)
      else if sint limit \<le> sint (Used st now) then (st, False)
      else
        let out = QuotaUsageStatus_DeepCopy st in
        (out\<lparr>Reservations := Reservations out @ [\<lparr>Key = objKey, ExpiresAt = now + ttl\<rparr>]\<rparr>, True))"

definition Sweep :: "QuotaUsageStatus \<Rightarrow> go_time \<Rightarrow> QuotaUsageStatus" where
  "Sweep st now =
     (let out = QuotaUsageStatus_DeepCopy st in
      out\<lparr>Reservations := compact_inplace (live_at now) (Reservations out)\<rparr>)"

definition FoldConfirmed :: "QuotaUsageStatus \<Rightarrow> int32 \<Rightarrow> string set \<Rightarrow> QuotaUsageStatus" where
  "FoldConfirmed st trueCount liveKeys =
     (let out = (QuotaUsageStatus_DeepCopy st)\<lparr>Confirmed := trueCount\<rparr> in
      out\<lparr>Reservations := compact_inplace (\<lambda>r. Key r \<notin> liveKeys) (Reservations out)\<rparr>)"

section \<open>The live slots of a ledger\<close>

definition live_rs :: "QuotaUsageStatus \<Rightarrow> go_time \<Rightarrow> Reservation list" where
  "live_rs st now = filter (live_at now) (Reservations st)"

definition live_keys :: "QuotaUsageStatus \<Rightarrow> go_time \<Rightarrow> string set" where
  "live_keys st now = Key ` set (live_rs st now)"

text \<open>
  The exact count the code means: confirmed objects plus live reservations, with no width.
  \<open>fits\<close> says that the int32 arithmetic of \<open>Used\<close> stays below the wrap-around.
\<close>

definition exact_used :: "QuotaUsageStatus \<Rightarrow> go_time \<Rightarrow> int" where
  "exact_used st now = sint (Confirmed st) + int (length (live_rs st now))"

definition fits :: "QuotaUsageStatus \<Rightarrow> go_time \<Rightarrow> bool" where
  "fits st now \<longleftrightarrow> 0 \<le> sint (Confirmed st) \<and> exact_used st now < 2 ^ 31"

lemma count_live_eq: "count_live now rs acc = acc + of_nat (length (filter (live_at now) rs))"
  by (induction rs arbitrary: acc) auto

lemma Used_eq: "Used st now = Confirmed st + of_nat (length (live_rs st now))"
  by (simp add: Used_def count_live_eq live_rs_def)

lemma sint_of_nat_int32: "n < 2 ^ 31 \<Longrightarrow> sint (of_nat n :: int32) = int n"
proof -
  assume "n < 2 ^ 31"
  then have "sint (int32_of_int (int n)) = int n"
    by (intro sint_int32_of_int) simp_all
  then show ?thesis by (simp add: int32_of_int_def)
qed

lemma sint_Used [int32_simps]: "fits st now \<Longrightarrow> sint (Used st now) = exact_used st now"
proof -
  assume fits: "fits st now"
  then have "length (live_rs st now) < 2 ^ 31"
    by (simp add: fits_def exact_used_def)
  then have "sint (of_nat (length (live_rs st now)) :: int32) = int (length (live_rs st now))"
    by (rule sint_of_nat_int32)
  with fits show ?thesis
    by (simp add: Used_eq fits_def exact_used_def sint_add_int32)
qed

lemma exact_used_nonneg: "fits st now \<Longrightarrow> 0 \<le> exact_used st now"
  by (simp add: fits_def exact_used_def)

lemma live_keys_iff: "k \<in> live_keys st now \<longleftrightarrow> (\<exists>r \<in> set (Reservations st). Key r = k \<and> live_at now r)"
  by (auto simp: live_keys_def live_rs_def)

lemma finite_live_keys [simp]: "finite (live_keys st now)"
  by (simp add: live_keys_def)

lemma card_live_keys: "card (live_keys st now) \<le> length (live_rs st now)"
  by (simp add: live_keys_def) (metis card_image_le card_length finite_set le_trans)

text \<open>Time only ends reservations.\<close>

lemma live_at_mono: "now \<le> now' \<Longrightarrow> live_at now' r \<Longrightarrow> live_at now r"
  by (simp add: live_at_def)

lemma live_rs_later: "now \<le> now' \<Longrightarrow> live_rs st now' = filter (live_at now') (live_rs st now)"
  by (auto simp: live_rs_def live_at_def intro!: filter_cong)

lemma live_keys_later: "now \<le> now' \<Longrightarrow> live_keys st now' \<subseteq> live_keys st now"
  unfolding live_keys_iff subset_iff by (blast intro: live_at_mono)

lemma exact_used_later: "now \<le> now' \<Longrightarrow> exact_used st now' \<le> exact_used st now"
  by (simp add: exact_used_def live_rs_later)

section \<open>What each operation does\<close>

lemma Reserve_eq:
  "Reserve st k limit now ttl =
     (if k \<in> live_keys st now then (st, True)
      else if sint limit \<le> sint (Used st now) then (st, False)
      else (st\<lparr>Reservations := Reservations st @ [\<lparr>Key = k, ExpiresAt = now + ttl\<rparr>]\<rparr>, True))"
  by (auto simp: Reserve_def Let_def live_keys_iff list_ex_iff)

lemma Sweep_eq: "Sweep st now = st\<lparr>Reservations := live_rs st now\<rparr>"
  by (simp add: Sweep_def Let_def live_rs_def)

lemma FoldConfirmed_eq:
  "FoldConfirmed st n ks =
     st\<lparr>Confirmed := n, Reservations := filter (\<lambda>r. Key r \<notin> ks) (Reservations st)\<rparr>"
  by (simp add: FoldConfirmed_def Let_def)

lemma live_rs_append:
  "live_rs (st\<lparr>Reservations := Reservations st @ rs\<rparr>) now = live_rs st now @ filter (live_at now) rs"
  by (simp add: live_rs_def)

lemma live_rs_Sweep: "live_rs (Sweep st now) now' = filter (live_at now') (live_rs st now)"
  by (simp add: Sweep_eq live_rs_def)

lemma live_rs_Fold: "live_rs (FoldConfirmed st n ks) now = filter (\<lambda>r. Key r \<notin> ks) (live_rs st now)"
  by (simp add: FoldConfirmed_eq live_rs_def conj_commute)

lemma live_keys_Fold [simp]: "live_keys (FoldConfirmed st n ks) now = live_keys st now - ks"
  by (auto simp: live_keys_def live_rs_Fold)

lemma live_keys_Sweep: "now \<le> now' \<Longrightarrow> live_keys (Sweep st now) now' = live_keys st now'"
  by (simp add: live_keys_def live_rs_Sweep live_rs_later)

lemma Confirmed_Sweep [simp]: "Confirmed (Sweep st now) = Confirmed st"
  by (simp add: Sweep_eq)

lemma Confirmed_Fold [simp]: "Confirmed (FoldConfirmed st n ks) = n"
  by (simp add: FoldConfirmed_eq)

lemma Confirmed_Reserve: "Confirmed (fst (Reserve st k limit now ttl)) = Confirmed st"
  by (simp add: Reserve_eq)

lemma live_keys_append:
  "live_keys (st\<lparr>Reservations := Reservations st @ [\<lparr>Key = k, ExpiresAt = e\<rparr>]\<rparr>) now =
     (if now < e then insert k (live_keys st now) else live_keys st now)"
  by (simp add: live_keys_def live_rs_append live_at_def)

text \<open>
  The ledgers the code keeps: the int32 sum is exact and no two live reservations share a
  key (expired leftovers may).
\<close>

definition wf_ledger :: "QuotaUsageStatus \<Rightarrow> go_time \<Rightarrow> bool" where
  "wf_ledger st now \<longleftrightarrow> fits st now \<and> distinct (map Key (live_rs st now))"

lemma wf_ledger_fits: "wf_ledger st now \<Longrightarrow> fits st now"
  by (simp add: wf_ledger_def)

lemma wf_ledger_card: "wf_ledger st now \<Longrightarrow> card (live_keys st now) = length (live_rs st now)"
  by (metis live_keys_def wf_ledger_def distinct_card length_map set_map)

lemma wf_ledger_used: "wf_ledger st now \<Longrightarrow>
    sint (Used st now) = sint (Confirmed st) + int (card (live_keys st now))"
  by (simp add: sint_Used wf_ledger_fits exact_used_def wf_ledger_card)

lemma wf_empty [simp]: "wf_ledger empty_status now"
  by (simp add: wf_ledger_def fits_def exact_used_def empty_status_def live_rs_def)

lemma live_keys_empty [simp]: "live_keys empty_status now = {}"
  by (simp add: live_keys_def live_rs_def empty_status_def)

lemma wf_later: "wf_ledger st now \<Longrightarrow> now \<le> now' \<Longrightarrow> wf_ledger st now'"
  unfolding wf_ledger_def fits_def
  by (auto simp: live_rs_later intro!: distinct_map_filter
      intro: order.strict_trans1 [OF exact_used_later])

lemma wf_Reserve:
  assumes "wf_ledger st now"
  shows "wf_ledger (fst (Reserve st k limit now ttl)) now"
proof (cases "k \<in> live_keys st now \<or> sint limit \<le> sint (Used st now)")
  case True
  with assms show ?thesis by (auto simp: Reserve_eq)
next
  case False
  then have "exact_used st now + 1 < 2 ^ 31"
    using assms sint_int32_bounds [of limit] by (simp add: sint_Used wf_ledger_fits)
  with False assms show ?thesis
    by (auto simp: Reserve_eq wf_ledger_def fits_def exact_used_def live_rs_append live_keys_def)
qed

text \<open>Dropping live reservations keeps a ledger well formed.\<close>

lemma wf_shrink:
  assumes "wf_ledger st now" and "live_rs st' now = filter P (live_rs st now)"
    and "0 \<le> sint (Confirmed st')" and "sint (Confirmed st') + int (length (live_rs st now)) < 2 ^ 31"
  shows "wf_ledger st' now"
proof -
  have "length (live_rs st' now) \<le> length (live_rs st now)"
    by (simp add: assms(2))
  with assms(4) have "exact_used st' now < 2 ^ 31"
    unfolding exact_used_def by linarith
  with assms(1-3) show ?thesis
    by (simp add: wf_ledger_def fits_def distinct_map_filter)
qed

lemma wf_Sweep: "wf_ledger st now \<Longrightarrow> wf_ledger (Sweep st t) now"
  by (rule wf_shrink [where P = "live_at t"])
    (auto simp: live_rs_def Sweep_eq wf_ledger_def fits_def exact_used_def intro: filter_cong)

lemma wf_Fold:
  "wf_ledger st now \<Longrightarrow> 0 \<le> sint n \<Longrightarrow> sint n + int (length (live_rs st now)) < 2 ^ 31 \<Longrightarrow>
     wf_ledger (FoldConfirmed st n ks) now"
  by (rule wf_shrink [where P = "\<lambda>r. Key r \<notin> ks"]) (simp_all add: live_rs_Fold)


section \<open>The abstract slot ledger\<close>

text \<open>
  What the rest of the program needs from the ledger: a confirmed count, a set of held slots
  and a reserve operation that grants a slot exactly while their sum is below the limit.
  \<open>reserve_all\<close> is a run of admissions against one ledger.
\<close>

fun reserve_all :: "(string \<Rightarrow> 's \<Rightarrow> 's \<times> bool) \<Rightarrow> string list \<Rightarrow> 's \<Rightarrow> 's \<times> bool list" where
  "reserve_all res [] s = (s, [])"
| "reserve_all res (k # ks) s =
     (case res k s of (s', ok) \<Rightarrow>
      case reserve_all res ks s' of (s'', oks) \<Rightarrow> (s'', ok # oks))"

locale slot_ledger =
  fixes inv :: "'s \<Rightarrow> bool"
    and confirmed :: "'s \<Rightarrow> int"
    and slots :: "'s \<Rightarrow> string set"
    and limit :: int
    and reserve :: "string \<Rightarrow> 's \<Rightarrow> 's \<times> bool"
  assumes slots_finite: "finite (slots s)"
    and reserve_inv: "inv s \<Longrightarrow> inv (fst (reserve k s))"
    and reserve_confirmed: "inv s \<Longrightarrow> confirmed (fst (reserve k s)) = confirmed s"
    and reserve_granted:
      "inv s \<Longrightarrow> snd (reserve k s) \<longleftrightarrow> k \<in> slots s \<or> confirmed s + int (card (slots s)) < limit"
    and reserve_slots:
      "inv s \<Longrightarrow> slots (fst (reserve k s)) = (if snd (reserve k s) then insert k (slots s) else slots s)"
begin

abbreviation used :: "'s \<Rightarrow> int" where
  "used s \<equiv> confirmed s + int (card (slots s))"

text \<open>A grant never takes the ledger past the limit it was below.\<close>

lemma reserve_bounded: "inv s \<Longrightarrow> used s \<le> limit \<Longrightarrow> used (fst (reserve k s)) \<le> limit"
  by (auto simp: reserve_confirmed reserve_slots reserve_granted card_insert_if slots_finite)

lemma reserve_fresh:
  assumes "inv s" and "k \<notin> slots s"
  shows "snd (reserve k s) \<longleftrightarrow> used s < limit"
    and "used (fst (reserve k s)) = used s + (if used s < limit then 1 else 0)"
  using assms by (simp_all add: reserve_granted reserve_confirmed reserve_slots slots_finite)

lemma reserve_again: "inv s \<Longrightarrow> snd (reserve k s) \<Longrightarrow> snd (reserve k (fst (reserve k s)))"
  using reserve_inv [of s k] by (subst reserve_granted) (simp_all add: reserve_slots)

lemma reserve_all_inv: "inv s \<Longrightarrow> inv (fst (reserve_all reserve ks s))"
proof (induction ks arbitrary: s)
  case (Cons k ks)
  then show ?case using reserve_inv [of s k] by (auto simp: split_beta)
qed simp

lemma reserve_all_slots: "inv s \<Longrightarrow> slots (fst (reserve_all reserve ks s)) \<subseteq> slots s \<union> set ks"
proof (induction ks arbitrary: s)
  case (Cons k ks)
  have "slots (fst (reserve_all reserve ks (fst (reserve k s)))) \<subseteq> slots (fst (reserve k s)) \<union> set ks"
    using Cons reserve_inv by blast
  with Cons.prems show ?case by (auto simp: split_beta reserve_slots split: if_splits)
qed simp

lemma reserve_all_bounded:
  "inv s \<Longrightarrow> used s \<le> limit \<Longrightarrow> used (fst (reserve_all reserve ks s)) \<le> limit"
proof (induction ks arbitrary: s)
  case (Cons k ks)
  then show ?case using reserve_inv [of s k] reserve_bounded [of s k] by (simp add: split_beta)
qed simp

text \<open>Distinct new requests: the first ones are granted, until the ledger is full.\<close>

lemma reserve_all_granted:
  assumes "inv s" and "distinct ks" and "set ks \<inter> slots s = {}"
  shows "snd (reserve_all reserve ks s) = map (\<lambda>i. used s + int i < limit) [0..<length ks]"
  using assms
proof (induction ks arbitrary: s)
  case (Cons k ks)
  let ?s = "fst (reserve k s)"
  have fresh: "k \<notin> slots s" using Cons.prems by simp
  note here = reserve_fresh [OF Cons.prems(1) fresh]
  have "slots ?s \<subseteq> insert k (slots s)"
    using Cons.prems(1) by (auto simp: reserve_slots)
  then have "snd (reserve_all reserve ks ?s) = map (\<lambda>i. used ?s + int i < limit) [0..<length ks]"
    using Cons.prems by (intro Cons.IH) (auto intro: reserve_inv)
  also have "\<dots> = map (\<lambda>i. used s + int (Suc i) < limit) [0..<length ks]"
    unfolding here(2) by auto
  finally show ?case
    using here(1) by (simp add: split_beta upt_conv_Cons map_Suc_upt [symmetric] del: upt_Suc)
qed simp

end

text \<open>\<open>Reserve\<close> on well-formed ledgers, with a positive TTL, is such a ledger.\<close>

interpretation accounting: slot_ledger
  "\<lambda>st. wf_ledger st now \<and> 0 < ttl" "\<lambda>st. sint (Confirmed st)" "\<lambda>st. live_keys st now"
  "sint limit" "\<lambda>k st. Reserve st k limit now ttl"
  for now ttl limit
proof unfold_locales
  fix s k
  assume "wf_ledger s now \<and> 0 < ttl"
  then have wf: "wf_ledger s now" and ttl: "0 < ttl" by simp_all
  show "wf_ledger (fst (Reserve s k limit now ttl)) now \<and> 0 < ttl"
    using wf ttl by (simp add: wf_Reserve)
  show "sint (Confirmed (fst (Reserve s k limit now ttl))) = sint (Confirmed s)"
    by (simp add: Confirmed_Reserve)
  show "snd (Reserve s k limit now ttl) \<longleftrightarrow>
      k \<in> live_keys s now \<or> sint (Confirmed s) + int (card (live_keys s now)) < sint limit"
    using wf by (auto simp: Reserve_eq wf_ledger_used)
  show "live_keys (fst (Reserve s k limit now ttl)) now =
      (if snd (Reserve s k limit now ttl) then insert k (live_keys s now) else live_keys s now)"
    using ttl by (auto simp: Reserve_eq live_keys_append)
qed simp

end
