(* ===== verification/Accounting_Properties.thy ===== *)
theory Accounting_Properties
  imports Accounting
begin

text \<open>The properties of the reservation arithmetic, with their witnesses.\<close>

section \<open>Reserving\<close>

text \<open>
  Distinct new requests against one ledger are granted exactly up to the limit: the
  \<open>i\<close>-th is granted iff usage plus \<open>i\<close> is below the limit.
\<close>

theorem reserve_run_grants_exactly:
  assumes "wf_ledger st now" and "0 < ttl" and "distinct ks" and "set ks \<inter> live_keys st now = {}"
  shows "snd (reserve_all (\<lambda>k st. Reserve st k limit now ttl) ks st) =
    map (\<lambda>i. sint (Used st now) + int i < sint limit) [0..<length ks]"
proof -
  have inv: "wf_ledger st now \<and> 0 < ttl" using assms by simp
  show ?thesis
    using accounting.reserve_all_granted [OF inv assms(3,4)] assms(1) by (simp add: wf_ledger_used)
qed

theorem reserve_run_grants_exactly_witness:
  "snd (reserve_all (\<lambda>k st. Reserve st k 2 0 60) [''a'', ''b'', ''c''] empty_status) = [True, True, False]"
proof -
  have h: "wf_ledger empty_status 0" "(0 :: int) < 60" "distinct [''a'', ''b'', ''c'']"
      "set [''a'', ''b'', ''c''] \<inter> live_keys empty_status 0 = {}"
    by simp_all
  have u: "sint (Used empty_status 0) = 0" by code_simp
  show ?thesis using reserve_run_grants_exactly [OF h, of 2] u by (simp add: upt_rec)
qed

section \<open>Refinement\<close>

text \<open>
  The ledger as the design document states it: a confirmed count and a set of held slots.
\<close>

definition slot_view :: "QuotaUsageStatus \<Rightarrow> go_time \<Rightarrow> int \<times> string set" where
  "slot_view st now = (sint (Confirmed st), live_keys st now)"

fun slot_reserve :: "string \<Rightarrow> int \<Rightarrow> int \<times> string set \<Rightarrow> (int \<times> string set) \<times> bool" where
  "slot_reserve k limit (c, S) =
     (if k \<in> S then ((c, S), True)
      else if limit \<le> c + int (card S) then ((c, S), False)
      else ((c, insert k S), True))"

fun slot_fold :: "int \<Rightarrow> string set \<Rightarrow> int \<times> string set \<Rightarrow> int \<times> string set" where
  "slot_fold n ks (c, S) = (n, S - ks)"

text \<open>
  C25. The detailed ledger operations refine the slot ledger of the design: on a well-formed
  ledger \<open>Reserve\<close> acts as grant-a-slot, \<open>Sweep\<close> changes nothing that counts, and
  \<open>FoldConfirmed\<close> replaces the count and releases the observed slots.
\<close>

theorem accounting_refines_slots:
  assumes "wf_ledger st now" and "0 < ttl"
  shows "apfst (\<lambda>s. slot_view s now) (Reserve st k limit now ttl) = slot_reserve k (sint limit) (slot_view st now) \<and>
    slot_view (Sweep st now) now = slot_view st now \<and>
    slot_view (FoldConfirmed st n ks) now = slot_fold (sint n) ks (slot_view st now)"
  using assms
  by (simp_all add: slot_view_def Reserve_eq wf_ledger_used live_keys_append live_keys_Sweep)

theorem accounting_refines_slots_witness:
  "apfst (\<lambda>s. slot_view s 5) (Reserve \<lparr>Confirmed = 1, Reservations = [\<lparr>Key = ''old'', ExpiresAt = 5\<rparr>]\<rparr> ''a'' 2 5 60)
     = ((1, {''a''}), True)"
proof -
  let ?st = "\<lparr>Confirmed = 1, Reservations = [\<lparr>Key = ''old'', ExpiresAt = 5\<rparr>]\<rparr>"
  have wf: "wf_ledger ?st 5"
    by (simp add: wf_ledger_def fits_def exact_used_def live_rs_def live_at_def)
  have v: "slot_view ?st 5 = (1, {})"
    by (simp add: slot_view_def live_keys_def live_rs_def live_at_def)
  show ?thesis
    using accounting_refines_slots [OF wf, of 60 "''a''" 2] v by simp
qed

section \<open>Sweeping and retries\<close>

text \<open>
  An admission retry is idempotent but not renewing: while the first reservation is live, a
  second \<open>Reserve\<close> of the same key is granted at any limit and leaves the ledger as it is, so
  the slot still ends at the first request's expiry.
\<close>

theorem reserve_retry_not_renewed:
  assumes "Reserve st k limit now ttl = (st', True)" and "k \<in> live_keys st' t"
  shows "Reserve st' k limit' t ttl' = (st', True) \<and>
    (\<forall>t'. live_keys (fst (Reserve st' k limit' t ttl')) t' = live_keys st' t')"
  using assms by (simp add: Reserve_eq)

text \<open>
  The design asks that the TTL cover the time from admission to observation. A retry admitted
  a tenth of a second before the first expiry is covered for that tenth only.
\<close>

theorem reserve_retry_not_renewed_witness:
  "let (st, ok) = Reserve empty_status ''ns/a'' 1 0 (60 * second);
       (st', ok') = Reserve st ''ns/a'' 1 (59900 * millisecond) (60 * second)
   in ok \<and> ok' \<and> sint (Used st' (60 * second)) = 0"
proof -
  let ?st = "empty_status\<lparr>Reservations := [\<lparr>Key = ''ns/a'', ExpiresAt = 60 * second\<rparr>]\<rparr>"
  have r: "Reserve empty_status ''ns/a'' 1 0 (60 * second) = (?st, True)" by code_simp
  have live: "''ns/a'' \<in> live_keys ?st (59900 * millisecond)" by code_simp
  have u: "sint (Used ?st (60 * second)) = 0" by code_simp
  show ?thesis
    using reserve_retry_not_renewed [OF r live, of 1 "60 * second"] r u by simp
qed

section \<open>Width\<close>

text \<open>
  The int32 sum is exact while the exact count is below \<open>2 ^ 31\<close>, and wraps at that bound: a
  ledger at the largest confirmed count with one live reservation reads as the most negative
  usage and grants any request.
\<close>

theorem used_exact_until_wrap:
  "(\<forall>st now. 0 \<le> sint (Confirmed st) \<longrightarrow> exact_used st now < 2 ^ 31 \<longrightarrow>
      sint (Used st now) = exact_used st now) \<and>
   (let st = \<lparr>Confirmed = 2147483647, Reservations = [\<lparr>Key = ''a'', ExpiresAt = 1\<rparr>]\<rparr> in
      exact_used st 0 = 2 ^ 31 \<and> sint (Used st 0) = - (2 ^ 31) \<and> snd (Reserve st ''b'' 5 0 60))"
proof -
  let ?st = "\<lparr>Confirmed = 2147483647, Reservations = [\<lparr>Key = ''a'', ExpiresAt = 1\<rparr>]\<rparr>"
  have 1: "exact_used ?st 0 = 2 ^ 31" by code_simp
  have 2: "sint (Used ?st 0) = - (2 ^ 31)" by code_simp
  have 3: "snd (Reserve ?st ''b'' 5 0 60)" by code_simp
  from 1 2 3 show ?thesis by (auto simp: sint_Used fits_def)
qed

theorem used_exact_until_wrap_witness:
  "sint (Used \<lparr>Confirmed = 2, Reservations = [\<lparr>Key = ''a'', ExpiresAt = 1\<rparr>]\<rparr> 0) = 3"
proof -
  let ?st = "\<lparr>Confirmed = 2, Reservations = [\<lparr>Key = ''a'', ExpiresAt = 1\<rparr>]\<rparr>"
  have "exact_used ?st 0 = 3" "0 \<le> sint (Confirmed ?st)" by code_simp+
  then show ?thesis using used_exact_until_wrap by simp
qed

end
