(* ===== verification/Identity.thy ===== *)
theory Identity
  imports Go_Strings
begin

text \<open>
  The keys of the system: \<open>identity.UsageKey\<close> names one ledger and \<open>ObjectName\<close> the object
  that stores it (\<open>internal/identity/key.go\<close>); \<open>quota.ObjectKey\<close> names one governed object
  inside a ledger (\<open>internal/quota/objectkey.go\<close>). The SHA-256 digest is an argument.
\<close>

record UsageKey =
  uk_Cluster :: string
  uk_Group :: string
  uk_Resource :: string
  uk_IdentityHash :: string

definition raw_key :: "UsageKey \<Rightarrow> string" where
  "raw_key k =
     uk_Cluster k @ ''|'' @ uk_Group k @ ''|'' @ uk_Resource k @ ''|'' @ uk_IdentityHash k"

definition ObjectName :: "(string \<Rightarrow> string) \<Rightarrow> UsageKey \<Rightarrow> string" where
  "ObjectName sha256 k =
     (let raw = raw_key k; sum = sha256 raw in ''qu-'' @ take 32 (EncodeToString sum))"

definition ObjectKey :: "string \<Rightarrow> string \<Rightarrow> string" where
  "ObjectKey ns name = (if ns = [] then name else ns @ ''/'' @ name)"

section \<open>Keys of ledgers\<close>

text \<open>No part of a key holds the separator: none of them can, as Kubernetes names.\<close>

definition bar_free :: "UsageKey \<Rightarrow> bool" where
  "bar_free k \<longleftrightarrow> CHR ''|'' \<notin> set (uk_Cluster k) \<and> CHR ''|'' \<notin> set (uk_Group k)
     \<and> CHR ''|'' \<notin> set (uk_Resource k)"

lemma raw_key_inject:
  assumes "bar_free k" and "bar_free k'"
  shows "raw_key k = raw_key k' \<longleftrightarrow> k = k'"
proof
  let ?c = "CHR ''|''"
  assume "raw_key k = raw_key k'"
  then have eq: "uk_Cluster k @ ?c # uk_Group k @ ?c # uk_Resource k @ ?c # uk_IdentityHash k =
      uk_Cluster k' @ ?c # uk_Group k' @ ?c # uk_Resource k' @ ?c # uk_IdentityHash k'"
    by (simp add: raw_key_def)
  note free = assms [unfolded bar_free_def]
  from eq free have 1: "uk_Cluster k = uk_Cluster k'"
    and eq1: "uk_Group k @ ?c # uk_Resource k @ ?c # uk_IdentityHash k =
      uk_Group k' @ ?c # uk_Resource k' @ ?c # uk_IdentityHash k'"
    using sep_inject by metis+
  from eq1 free have 2: "uk_Group k = uk_Group k'"
    and eq2: "uk_Resource k @ ?c # uk_IdentityHash k = uk_Resource k' @ ?c # uk_IdentityHash k'"
    using sep_inject by metis+
  from eq2 free have "uk_Resource k = uk_Resource k'" "uk_IdentityHash k = uk_IdentityHash k'"
    using sep_inject by metis+
  with 1 2 show "k = k'" by (auto intro: UsageKey.equality)
qed simp

text \<open>A DNS-1123 label: lower case letters, digits and inner dashes, at most 63 bytes.\<close>

definition dns_char :: "char \<Rightarrow> bool" where
  "dns_char c \<longleftrightarrow> c \<in> set ''abcdefghijklmnopqrstuvwxyz0123456789-''"

definition dns_label :: "string \<Rightarrow> bool" where
  "dns_label s \<longleftrightarrow> s \<noteq> [] \<and> length s \<le> 63 \<and> list_all dns_char s \<and> hd s \<noteq> CHR ''-'' \<and> last s \<noteq> CHR ''-''"

lemma hex_is_dns:
  assumes "set s \<subseteq> set ''0123456789abcdef''"
  shows "list_all dns_char s \<and> CHR ''-'' \<notin> set s"
proof -
  have "set ''0123456789abcdef'' \<subseteq> set ''abcdefghijklmnopqrstuvwxyz0123456789-''"
    and "CHR ''-'' \<notin> set ''0123456789abcdef''" by simp_all
  with assms show ?thesis unfolding list_all_iff dns_char_def by blast
qed

lemma ObjectName_length: "length (sha256 (raw_key k)) = 32 \<Longrightarrow> length (ObjectName sha256 k) = 35"
  by (simp add: ObjectName_def Let_def)

lemma ObjectName_dns:
  assumes "length (sha256 (raw_key k)) = 32"
  shows "dns_label (ObjectName sha256 k)"
proof -
  let ?h = "take 32 (EncodeToString (sha256 (raw_key k)))"
  have "set ?h \<subseteq> set ''0123456789abcdef''"
    using set_EncodeToString set_take_subset by (rule order_trans [rotated])
  then have h: "list_all dns_char ?h" "CHR ''-'' \<notin> set ?h"
    using hex_is_dns by blast+
  have "length ?h = 32" using assms by simp
  then have "?h \<noteq> []" by (metis length_0_conv zero_neq_numeral)
  then have "last ?h \<noteq> CHR ''-''" using h(2) last_in_set by metis
  with \<open>?h \<noteq> []\<close> h assms show ?thesis
    by (simp add: ObjectName_def Let_def dns_label_def dns_char_def)
qed

lemma ObjectName_eq_iff:
  "ObjectName sha256 k = ObjectName sha256 k' \<longleftrightarrow>
     take 32 (EncodeToString (sha256 (raw_key k))) = take 32 (EncodeToString (sha256 (raw_key k')))"
  by (simp add: ObjectName_def Let_def)

section \<open>Keys of objects\<close>

text \<open>Object and namespace names hold neither a slash nor a colon.\<close>

definition name_ok :: "string \<Rightarrow> bool" where
  "name_ok s \<longleftrightarrow> CHR ''/'' \<notin> set s \<and> CHR '':'' \<notin> set s"

lemma ObjectKey_inject:
  assumes "name_ok ns" "name_ok n" "name_ok ns'" "name_ok n'"
  shows "ObjectKey ns n = ObjectKey ns' n' \<longleftrightarrow> ns = ns' \<and> n = n'"
  using assms by (auto simp: ObjectKey_def name_ok_def sep_inject)

text \<open>A reservation keyed by a request UID is never taken for a live object.\<close>

lemma ObjectKey_not_uid: "name_ok ns \<Longrightarrow> name_ok n \<Longrightarrow> ObjectKey ns n \<noteq> ''uid:'' @ u"
proof -
  assume ok: "name_ok ns" "name_ok n"
  have "CHR '':'' \<notin> set (ObjectKey ns n)"
    using ok by (simp add: ObjectKey_def name_ok_def)
  then show ?thesis by auto
qed

end
