(* ===== verification/Backoff.thy ===== *)
theory Backoff
  imports Prelude
begin

text \<open>
  The retry helper the store calls, \<open>wait.ExponentialBackoffWithContext\<close>, belongs to
  k8s.io/apimachinery and is an argument of the model. This theory says what its
  documentation promises: it calls the condition, stops at once when the condition is done or
  fails, may wait and call it again otherwise, and may give up with a timeout or the context's
  error between two calls. \<open>idle w w'\<close> is what can happen to the world during a wait: other
  processes run.
\<close>

type_synonym 'w condition = "'w \<Rightarrow> (go_error + bool) \<times> 'w"
type_synonym 'w retrier = "'w condition \<Rightarrow> 'w \<Rightarrow> go_error option \<times> 'w"

inductive retry_outcome ::
  "('w \<Rightarrow> 'w \<Rightarrow> bool) \<Rightarrow> 'w condition \<Rightarrow> 'w \<Rightarrow> go_error option \<Rightarrow> 'w \<Rightarrow> bool"
  for idle cond where
  retry_done: "cond w = (Inr True, w') \<Longrightarrow> retry_outcome idle cond w None w'"
| retry_failed: "cond w = (Inl e, w') \<Longrightarrow> retry_outcome idle cond w (Some e) w'"
| retry_again: "cond w = (Inr False, w1) \<Longrightarrow> idle w1 w2 \<Longrightarrow> retry_outcome idle cond w2 r w' \<Longrightarrow>
     retry_outcome idle cond w r w'"
| retry_timeout: "retry_outcome idle cond w (Some ErrTimeout) w"
| retry_context: "retry_outcome idle cond w (Some ErrContext) w"

definition documented_retrier :: "('w \<Rightarrow> 'w \<Rightarrow> bool) \<Rightarrow> 'w retrier \<Rightarrow> bool" where
  "documented_retrier idle run \<longleftrightarrow>
     (\<forall>cond w. retry_outcome idle cond w (fst (run cond w)) (snd (run cond w)))"

lemma documented_retrierD:
  "documented_retrier idle run \<Longrightarrow> run cond w = (r, w') \<Longrightarrow> retry_outcome idle cond w r w'"
  unfolding documented_retrier_def by (metis fst_conv snd_conv)

text \<open>
  The Hoare rule of the helper: an invariant the condition and the waits keep holds at the
  end, and a nil error means that the last call of the condition was done.
\<close>

lemma retry_outcome_rule:
  assumes "retry_outcome idle cond w r w'" and "I w"
    and "\<And>w. I w \<Longrightarrow> I (snd (cond w))" and "\<And>w w'. I w \<Longrightarrow> idle w w' \<Longrightarrow> I w'"
  shows "I w' \<and> (r = None \<longrightarrow> (\<exists>w0. I w0 \<and> cond w0 = (Inr True, w')))"
  using assms(1,2)
proof (induction rule: retry_outcome.induct)
  case (retry_done w w')
  then show ?case using assms(3) [of w] by auto
next
  case (retry_failed w e w')
  then show ?case using assms(3) [of w] by auto
next
  case (retry_again w w1 w2 r w')
  then have "I w1" using assms(3) [of w] by auto
  with retry_again show ?case using assms(4) by blast
qed auto

text \<open>An error comes from the condition or from the helper itself.\<close>

lemma retry_outcome_error:
  "retry_outcome idle cond w r w' \<Longrightarrow> r = Some e \<Longrightarrow>
     e = ErrTimeout \<or> e = ErrContext \<or> (\<exists>w0. fst (cond w0) = Inl e)"
  by (induction rule: retry_outcome.induct) (auto, metis fst_conv)

text \<open>A retrier with a fixed number of attempts, for the witnesses.\<close>

fun retry_n :: "nat \<Rightarrow> 'w retrier" where
  "retry_n 0 cond w = (Some ErrTimeout, w)"
| "retry_n (Suc n) cond w =
     (case cond w of
        (Inl e, w') \<Rightarrow> (Some e, w')
      | (Inr True, w') \<Rightarrow> (None, w')
      | (Inr False, w') \<Rightarrow> retry_n n cond w')"

lemma retry_n_documented: "documented_retrier (=) (retry_n n)"
proof -
  have "retry_outcome (=) cond w (fst (retry_n n cond w)) (snd (retry_n n cond w))" for cond :: "'a condition" and w
  proof (induction n arbitrary: w)
    case 0
    show ?case by (simp add: retry_timeout)
  next
    case (Suc n)
    obtain r w' where c: "cond w = (r, w')" by (cases "cond w")
    show ?case
    proof (cases r)
      case (Inl e)
      with c show ?thesis by (simp add: retry_failed)
    next
      case (Inr b)
      with c Suc show ?thesis
        by (cases b) (auto intro: retry_done retry_again)
    qed
  qed
  then show ?thesis by (simp add: documented_retrier_def)
qed

end
