(* ===== verification/Store.thy ===== *)
theory Store
  imports Accounting Identity Backoff
begin

text \<open>
  \<open>internal/quota/store.go\<close>: the ledger operations run inside a get-or-create and
  compare-and-swap loop against the API server. The server is an argument: a client over an
  abstract world \<open>'w\<close>, each call one function of the world. \<open>optimistic_client\<close> states what
  Kubernetes documents of it (strong reads, creation with an empty status subresource, a
  status update that needs the observed resource version), and the retry helper is an argument
  described in theory \<open>Backoff\<close>.
\<close>

section \<open>The API client\<close>

record 'w Client =
  cl_Get :: "string \<Rightarrow> 'w \<Rightarrow> (api_error + QuotaUsage) \<times> 'w"
  cl_Create :: "QuotaUsage \<Rightarrow> 'w \<Rightarrow> (api_error + QuotaUsage) \<times> 'w"
  cl_StatusUpdate :: "QuotaUsage \<Rightarrow> 'w \<Rightarrow> (api_error + QuotaUsage) \<times> 'w"
  cl_List :: "'w \<Rightarrow> (api_error + QuotaUsage list) \<times> 'w"

record 'w Store =
  st_Client :: "'w Client"
  TTL :: go_duration
  Now :: "'w \<Rightarrow> go_time"

section \<open>One attempt of the loop\<close>

datatype 'a attempt = Broken go_error | Again | Got 'a

definition new_usage :: "string \<Rightarrow> UsageKey \<Rightarrow> QuotaUsage" where
  "new_usage name key =
     \<lparr>qu_Name = name, qu_ResourceVersion = 0,
      qu_Spec = \<lparr>us_Consumer = uk_Cluster key, us_Group = uk_Group key,
        us_Resource = uk_Resource key, us_IdentityHash = uk_IdentityHash key\<rparr>,
      qu_Status = empty_status\<rparr>"

text \<open>\<open>Client.Get\<close>: \<open>Got None\<close> is the not-found answer, which leads to a create.\<close>

definition get_step :: "'w Client \<Rightarrow> string \<Rightarrow> 'w \<Rightarrow> QuotaUsage option attempt \<times> 'w" where
  "get_step c name w =
     (case cl_Get c name w of
        (Inr u, w') \<Rightarrow> (Got (Some u), w')
      | (Inl e, w') \<Rightarrow> (if e = NotFound then Got None else Broken (ErrAPI e), w'))"

definition create_step :: "'w Client \<Rightarrow> QuotaUsage \<Rightarrow> 'w \<Rightarrow> QuotaUsage attempt \<times> 'w" where
  "create_step c u w =
     (case cl_Create c u w of
        (Inr u', w') \<Rightarrow> (Got u', w')
      | (Inl e, w') \<Rightarrow> (if e = AlreadyExists then Again else Broken (ErrAPI e), w'))"

definition read_usage :: "'w Client \<Rightarrow> string \<Rightarrow> UsageKey \<Rightarrow> 'w \<Rightarrow> QuotaUsage attempt \<times> 'w" where
  "read_usage c name key w =
     (case get_step c name w of
        (Got (Some u), w') \<Rightarrow> (Got u, w')
      | (Got None, w') \<Rightarrow> create_step c (new_usage name key) w'
      | (Again, w') \<Rightarrow> (Again, w')
      | (Broken e, w') \<Rightarrow> (Broken e, w'))"

text \<open>
  The write is skipped when the status is semantically unchanged; a conflict asks for another
  attempt.
\<close>

definition write_usage :: "'w Client \<Rightarrow> QuotaUsageStatus \<Rightarrow> QuotaUsage \<Rightarrow> 'w \<Rightarrow> (go_error + bool) \<times> 'w" where
  "write_usage c before u w =
     (if before = qu_Status u then (Inr True, w)
      else case cl_StatusUpdate c u w of
        (Inr _, w') \<Rightarrow> (Inr True, w')
      | (Inl e, w') \<Rightarrow> (if e = Conflict then Inr False else Inl (ErrAPI e), w'))"

text \<open>
  A mutation reads the clock of the world it runs in; its second result is what it assigns to
  the caller's captured variable.
\<close>

type_synonym ('w, 'a) mutation = "'w \<Rightarrow> QuotaUsageStatus \<Rightarrow> QuotaUsageStatus \<times> 'a"

definition attempt :: "'w Client \<Rightarrow> string \<Rightarrow> UsageKey \<Rightarrow> ('w, 'a) mutation \<Rightarrow> ('w \<times> 'a) condition" where
  "attempt c name key mutate = (\<lambda>(w, a).
     case read_usage c name key w of
       (Broken e, w1) \<Rightarrow> (Inl e, (w1, a))
     | (Again, w1) \<Rightarrow> (Inr False, (w1, a))
     | (Got u, w1) \<Rightarrow>
         (case mutate w1 (qu_Status u) of (st', a') \<Rightarrow>
          case write_usage c (qu_Status u) (u\<lparr>qu_Status := st'\<rparr>) w1 of (r, w2) \<Rightarrow>
            (r, (w2, a'))))"

section \<open>Apply and Reserve\<close>

definition Apply ::
  "(string \<Rightarrow> string) \<Rightarrow> ('w \<times> 'a) retrier \<Rightarrow> 'w Store \<Rightarrow> UsageKey \<Rightarrow> ('w, 'a) mutation \<Rightarrow> 'a
     \<Rightarrow> 'w \<Rightarrow> go_error option \<times> 'a \<times> 'w" where
  "Apply sha256 run s key mutate a0 w =
     (let name = ObjectName sha256 key in
      case run (attempt (st_Client s) name key mutate) (w, a0) of
        (None, (w', a)) \<Rightarrow> (None, a, w')
      | (Some err, (w', a)) \<Rightarrow>
          (Some (ErrWrap (''quota: CAS did not converge for '' @ name) err), a, w'))"

definition Store_Reserve ::
  "(string \<Rightarrow> string) \<Rightarrow> ('w \<times> bool) retrier \<Rightarrow> 'w Store \<Rightarrow> UsageKey \<Rightarrow> string \<Rightarrow> int32
     \<Rightarrow> 'w \<Rightarrow> (go_error + bool) \<times> 'w" where
  "Store_Reserve sha256 run s key objKey limit w =
     (case Apply sha256 run s key (\<lambda>w st. Reserve st objKey limit (Now s w) (TTL s)) False w of
        (Some err, _, w') \<Rightarrow> (Inl err, w')
      | (None, allowed, w') \<Rightarrow> (Inr allowed, w'))"

section \<open>What the API server documents\<close>

text \<open>
  A stored time has lost its fraction of a second: \<open>metav1.Time\<close> is written in RFC 3339.
  \<open>wire\<close> is that conversion, an argument bounded by \<open>rfc3339_seconds\<close>.
\<close>

definition wire_status :: "(go_time \<Rightarrow> go_time) \<Rightarrow> QuotaUsageStatus \<Rightarrow> QuotaUsageStatus" where
  "wire_status wire st =
     st\<lparr>Reservations := map (\<lambda>r. r\<lparr>ExpiresAt := wire (ExpiresAt r)\<rparr>) (Reservations st)\<rparr>"

definition rfc3339_seconds :: "(go_time \<Rightarrow> go_time) \<Rightarrow> bool" where
  "rfc3339_seconds wire \<longleftrightarrow> (\<forall>t. wire t \<le> t \<and> t < wire t + second)"

definition created_from :: "QuotaUsage \<Rightarrow> QuotaUsage \<Rightarrow> bool" where
  "created_from u u' \<longleftrightarrow>
     qu_Name u' = qu_Name u \<and> qu_Spec u' = qu_Spec u \<and> qu_Status u' = empty_status"

definition updated_from ::
  "(go_time \<Rightarrow> go_time) \<Rightarrow> QuotaUsage \<Rightarrow> QuotaUsage \<Rightarrow> QuotaUsage \<Rightarrow> bool" where
  "updated_from wire old u u' \<longleftrightarrow>
     qu_ResourceVersion u = qu_ResourceVersion old \<and>
     qu_ResourceVersion old < qu_ResourceVersion u' \<and>
     qu_Name u' = qu_Name u \<and> qu_Spec u' = qu_Spec old \<and>
     qu_Status u' = wire_status wire (qu_Status u)"

text \<open>
  \<open>stored w name\<close> observes the object the server holds. A failed write other than a conflict
  may still have been carried out (a lost answer).
\<close>

definition get_law :: "'w Client \<Rightarrow> ('w \<Rightarrow> string \<rightharpoonup> QuotaUsage) \<Rightarrow> bool" where
  "get_law c stored \<longleftrightarrow> (\<forall>n w r w'. cl_Get c n w = (r, w') \<longrightarrow> stored w' = stored w \<and>
     (\<forall>u. r = Inr u \<longrightarrow> stored w n = Some u) \<and> (r = Inl NotFound \<longrightarrow> stored w n = None))"

definition create_law :: "'w Client \<Rightarrow> ('w \<Rightarrow> string \<rightharpoonup> QuotaUsage) \<Rightarrow> bool" where
  "create_law c stored \<longleftrightarrow> (\<forall>u w r w'. cl_Create c u w = (r, w') \<longrightarrow>
     (\<exists>u'. stored w (qu_Name u) = None \<and> created_from u u' \<and>
        stored w' = (stored w)(qu_Name u \<mapsto> u') \<and> (r = Inr u' \<or> (\<exists>e. r = Inl e \<and> e \<noteq> AlreadyExists)))
     \<or> (\<exists>e. r = Inl e \<and> stored w' = stored w))"

definition update_law ::
  "'w Client \<Rightarrow> ('w \<Rightarrow> string \<rightharpoonup> QuotaUsage) \<Rightarrow> (go_time \<Rightarrow> go_time) \<Rightarrow> bool" where
  "update_law c stored wire \<longleftrightarrow> (\<forall>u w r w'. cl_StatusUpdate c u w = (r, w') \<longrightarrow>
     (\<exists>old u'. stored w (qu_Name u) = Some old \<and> updated_from wire old u u' \<and>
        stored w' = (stored w)(qu_Name u \<mapsto> u') \<and> (r = Inr u' \<or> (\<exists>e. r = Inl e \<and> e \<noteq> Conflict)))
     \<or> (\<exists>e. r = Inl e \<and> stored w' = stored w))"

definition named_law :: "('w \<Rightarrow> string \<rightharpoonup> QuotaUsage) \<Rightarrow> bool" where
  "named_law stored \<longleftrightarrow> (\<forall>w n u. stored w n = Some u \<longrightarrow> qu_Name u = n)"

definition optimistic_client ::
  "'w Client \<Rightarrow> ('w \<Rightarrow> string \<rightharpoonup> QuotaUsage) \<Rightarrow> (go_time \<Rightarrow> go_time) \<Rightarrow> bool" where
  "optimistic_client c stored wire \<longleftrightarrow>
     get_law c stored \<and> create_law c stored \<and> update_law c stored wire \<and> named_law stored"

text \<open>The clock a store reads does not run backwards over a call.\<close>

definition clock_law :: "'w Client \<Rightarrow> ('w \<Rightarrow> go_time) \<Rightarrow> bool" where
  "clock_law c now \<longleftrightarrow> (\<forall>n u w. now w \<le> now (snd (cl_Get c n w)) \<and>
     now w \<le> now (snd (cl_Create c u w)) \<and> now w \<le> now (snd (cl_StatusUpdate c u w)))"

lemma clock_call:
  assumes "clock_law c now"
  shows "cl_Get c n w = (x, w') \<Longrightarrow> now w \<le> now w'"
    and "cl_Create c u w = (y, w') \<Longrightarrow> now w \<le> now w'"
    and "cl_StatusUpdate c u w = (y, w') \<Longrightarrow> now w \<le> now w'"
  using assms unfolding clock_law_def by (metis snd_conv)+

lemma client_get:
  assumes "optimistic_client c stored wire" and "cl_Get c n w = (r, w')"
  shows "stored w' = stored w" and "r = Inr u \<Longrightarrow> stored w n = Some u"
    and "r = Inl NotFound \<Longrightarrow> stored w n = None"
  using assms by (auto simp: optimistic_client_def get_law_def)

lemma client_named: "optimistic_client c stored wire \<Longrightarrow> stored w n = Some u \<Longrightarrow> qu_Name u = n"
  by (auto simp: optimistic_client_def named_law_def)

lemma client_create:
  assumes "optimistic_client c stored wire" and "cl_Create c u w = (r, w')"
  obtains (applied) u' where "stored w (qu_Name u) = None" "created_from u u'"
      "stored w' = (stored w)(qu_Name u \<mapsto> u')" "r = Inr u' \<or> (\<exists>e. r = Inl e \<and> e \<noteq> AlreadyExists)"
    | (refused) e where "r = Inl e" "stored w' = stored w"
  using assms unfolding optimistic_client_def create_law_def by blast

lemma client_update:
  assumes "optimistic_client c stored wire" and "cl_StatusUpdate c u w = (r, w')"
  obtains (applied) old u' where "stored w (qu_Name u) = Some old" "updated_from wire old u u'"
      "stored w' = (stored w)(qu_Name u \<mapsto> u')" "r = Inr u' \<or> (\<exists>e. r = Inl e \<and> e \<noteq> Conflict)"
    | (refused) e where "r = Inl e" "stored w' = stored w"
  using assms unfolding optimistic_client_def update_law_def by blast


section \<open>The ledger a store call leaves\<close>

text \<open>A missing object is an empty ledger: creating it changes nothing that is counted.\<close>

definition ledger :: "('w \<Rightarrow> string \<rightharpoonup> QuotaUsage) \<Rightarrow> 'w \<Rightarrow> string \<Rightarrow> QuotaUsageStatus" where
  "ledger stored w n = (case stored w n of None \<Rightarrow> empty_status | Some u \<Rightarrow> qu_Status u)"

lemma ledger_Some: "stored w n = Some u \<Longrightarrow> ledger stored w n = qu_Status u"
  by (simp add: ledger_def)

lemma ledger_cong: "stored w' = stored w \<Longrightarrow> ledger stored w' = ledger stored w"
  by (simp add: ledger_def fun_eq_iff)

lemma ledger_upd:
  "stored w' = (stored w)(n \<mapsto> u) \<Longrightarrow> ledger stored w' = (ledger stored w)(n := qu_Status u)"
  by (auto simp: ledger_def fun_eq_iff)

lemma get_step_spec:
  assumes "optimistic_client c stored wire" and "get_step c n w = (r, w')"
  shows "stored w' = stored w" and "r = Got (Some u) \<Longrightarrow> stored w n = Some u"
    and "r = Got None \<Longrightarrow> stored w n = None"
  using assms client_get [OF assms(1)]
  by (fastforce simp: get_step_def split: prod.splits sum.splits if_splits)+

lemma create_step_spec:
  assumes law: "optimistic_client c stored wire" and step: "create_step c u w = (r, w')"
    and new: "qu_Status u = empty_status"
  shows "ledger stored w' = ledger stored w" and "r = Got u' \<Longrightarrow> stored w' (qu_Name u) = Some u'"
proof -
  obtain x where c: "cl_Create c u w = (x, w')"
    and r: "r = (case x of Inr u' \<Rightarrow> Got u' | Inl e \<Rightarrow> if e = AlreadyExists then Again else Broken (ErrAPI e))"
    using step by (auto simp: create_step_def split: prod.splits sum.splits)
  show "ledger stored w' = ledger stored w"
    using law c
  proof (cases rule: client_create)
    case (applied u')
    have "ledger stored w (qu_Name u) = qu_Status u'"
      using applied(1,2) by (simp add: ledger_def created_from_def)
    with ledger_upd [where stored = stored, OF applied(3)] show ?thesis
      by (metis fun_upd_triv)
  next
    case (refused e)
    then show ?thesis by (intro ledger_cong)
  qed
  show "r = Got u' \<Longrightarrow> stored w' (qu_Name u) = Some u'"
    using law c
  proof (cases rule: client_create)
    case (applied v)
    then show "r = Got u' \<Longrightarrow> ?thesis" using r by (auto split: if_splits)
  next
    case (refused e)
    then show "r = Got u' \<Longrightarrow> ?thesis" using r by (auto split: if_splits)
  qed
qed

lemma read_usage_spec:
  assumes law: "optimistic_client c stored wire" and step: "read_usage c n key w = (r, w')"
  shows "ledger stored w' = ledger stored w" and "r = Got u \<Longrightarrow> stored w' n = Some u"
proof -
  obtain g w1 where g: "get_step c n w = (g, w1)" by fastforce
  note got = get_step_spec [OF law g]
  have same: "ledger stored w1 = ledger stored w"
    using got(1) by (rule ledger_cong)
  have "ledger stored w' = ledger stored w \<and> (r = Got u \<longrightarrow> stored w' n = Some u)"
  proof (cases "g = Got None")
    case True
    then have cr: "create_step c (new_usage n key) w1 = (r, w')"
      using step by (simp add: read_usage_def g)
    have new: "qu_Status (new_usage n key) = empty_status" "qu_Name (new_usage n key) = n"
      by (simp_all add: new_usage_def)
    show ?thesis
      using create_step_spec [OF law cr new(1)] same new(2) by simp
  next
    case False
    then have "w' = w1" and "r = Got u \<Longrightarrow> g = Got (Some u)"
      using step by (auto simp: read_usage_def g split: attempt.splits option.splits)
    with got(1,2) same show ?thesis by auto
  qed
  then show "ledger stored w' = ledger stored w" and "r = Got u \<Longrightarrow> stored w' n = Some u"
    by simp_all
qed

text \<open>
  The compare-and-swap: a write from a current object replaces the ledger as a whole or leaves
  it alone, and a conflict means nothing was written.
\<close>

lemma write_usage_spec:
  assumes law: "optimistic_client c stored wire" and cur: "stored w n = Some u"
    and step: "write_usage c (qu_Status u) (u\<lparr>qu_Status := st\<rparr>) w = (r, w')"
  shows "ledger stored w' = ledger stored w \<and> (r = Inr True \<longrightarrow> st = qu_Status u)
    \<or> ledger stored w' = (ledger stored w)(n := wire_status wire st) \<and> r \<noteq> Inr False
      \<and> st \<noteq> qu_Status u"
proof (cases "st = qu_Status u")
  case True
  with step show ?thesis by (simp add: write_usage_def)
next
  case False
  then obtain x where c: "cl_StatusUpdate c (u\<lparr>qu_Status := st\<rparr>) w = (x, w')"
    and r: "r = (case x of Inr _ \<Rightarrow> Inr True | Inl e \<Rightarrow> if e = Conflict then Inr False else Inl (ErrAPI e))"
    using step by (auto simp: write_usage_def split: prod.splits sum.splits)
  show ?thesis
    using law c
  proof (cases rule: client_update)
    case (applied old u')
    have "qu_Name u = n" using law cur by (rule client_named)
    then have upd: "stored w' = (stored w)(n \<mapsto> u')" and st: "qu_Status u' = wire_status wire st"
      using applied(2,3) by (simp_all add: updated_from_def)
    have "ledger stored w' = (ledger stored w)(n := wire_status wire st)"
      using ledger_upd [where stored = stored, OF upd] st by simp
    moreover have "r \<noteq> Inr False" using applied(4) r by auto
    ultimately show ?thesis using False by simp
  next
    case (refused e)
    then have "r \<noteq> Inr True" using r by (simp split: if_splits)
    with ledger_cong [OF refused(2)] show ?thesis by simp
  qed
qed

lemma get_step_clock:
  assumes "clock_law c now" and "get_step c n w = (r, w')" shows "now w \<le> now w'"
proof -
  have "w' = snd (cl_Get c n w)"
    using assms(2) by (auto simp: get_step_def split: prod.splits sum.splits)
  then show ?thesis using assms(1) by (simp add: clock_law_def)
qed

lemma create_step_clock:
  assumes "clock_law c now" and "create_step c u w = (r, w')" shows "now w \<le> now w'"
proof -
  have "w' = snd (cl_Create c u w)"
    using assms(2) by (auto simp: create_step_def split: prod.splits sum.splits)
  then show ?thesis using assms(1) by (simp add: clock_law_def)
qed

lemma read_usage_clock:
  assumes law: "clock_law c now" and step: "read_usage c n key w = (r, w')"
  shows "now w \<le> now w'"
proof -
  obtain g w1 where g: "get_step c n w = (g, w1)" by fastforce
  have "w' = w1 \<or> create_step c (new_usage n key) w1 = (r, w')"
    using step by (auto simp: read_usage_def g split: attempt.splits option.splits)
  then show ?thesis
    using get_step_clock [OF law g] create_step_clock [OF law] order_trans by blast
qed

lemma write_usage_clock: "clock_law c now \<Longrightarrow> write_usage c st u w = (r, w') \<Longrightarrow> now w \<le> now w'"
  by (auto simp: write_usage_def split: prod.splits sum.splits if_splits dest!: clock_call(3))

lemma attempt_spec:
  assumes law: "optimistic_client c stored wire"
    and step: "attempt c n key mutate (w, a) = (r, (w', a'))"
  obtains w1 where "ledger stored w1 = ledger stored w"
    and "\<And>now :: 'w \<Rightarrow> go_time. clock_law c now \<Longrightarrow> now w \<le> now w1 \<and> now w1 \<le> now w'"
    and "ledger stored w' = ledger stored w \<and>
           (r = Inr True \<longrightarrow> mutate w1 (ledger stored w n) = (ledger stored w n, a'))
      \<or> ledger stored w' = (ledger stored w)(n := wire_status wire (fst (mutate w1 (ledger stored w n))))
         \<and> r \<noteq> Inr False \<and> a' = snd (mutate w1 (ledger stored w n))
         \<and> fst (mutate w1 (ledger stored w n)) \<noteq> ledger stored w n"
proof -
  obtain g w1 where g: "read_usage c n key w = (g, w1)" by fastforce
  note read = read_usage_spec [OF law g]
  show thesis
  proof (cases g)
    case (Got u)
    obtain st b where m: "mutate w1 (qu_Status u) = (st, b)" by fastforce
    have wr: "write_usage c (qu_Status u) (u\<lparr>qu_Status := st\<rparr>) w1 = (r, w')" and b: "a' = b"
      using step Got by (auto simp: attempt_def g m split: prod.splits)
    have cur: "stored w1 n = Some u" using read(2) Got by simp
    have l: "ledger stored w n = qu_Status u"
      using ledger_Some [where stored = stored, OF cur] read(1) by simp
    show thesis
    proof (rule that [OF read(1)])
      show "now w \<le> now w1 \<and> now w1 \<le> now w'" if "clock_law c now" for now :: "'w \<Rightarrow> go_time"
        using read_usage_clock [OF that g] write_usage_clock [OF that wr] by simp
    qed (use write_usage_spec [OF law cur wr] read(1) m b l in auto)
  next
    case Again
    then have "w' = w1" "r = Inr False" using step by (auto simp: attempt_def g)
    then show thesis
      using that [OF read(1)] read(1) read_usage_clock [OF _ g] by auto
  next
    case (Broken e)
    then have "w' = w1" "r = Inl e" using step by (auto simp: attempt_def g)
    then show thesis
      using that [OF read(1)] read(1) read_usage_clock [OF _ g] by auto
  qed
qed

section \<open>Runs of Apply\<close>

text \<open>The waits between attempts leave the captured variable alone.\<close>

definition idle_pair :: "('w \<Rightarrow> 'w \<Rightarrow> bool) \<Rightarrow> 'w \<times> 'a \<Rightarrow> 'w \<times> 'a \<Rightarrow> bool" where
  "idle_pair idle x y \<longleftrightarrow> idle (fst x) (fst y) \<and> snd y = snd x"

text \<open>
  A mutation under the store's control, as a function of the time it reads: it keeps an
  invariant of ledgers, through the stored form of its result, and time alone keeps it too.
\<close>

locale ledger_mutator =
  fixes inv :: "go_time \<Rightarrow> QuotaUsageStatus \<Rightarrow> bool"
    and wire :: "go_time \<Rightarrow> go_time"
    and m :: "go_time \<Rightarrow> QuotaUsageStatus \<Rightarrow> QuotaUsageStatus \<times> 'a"
  assumes inv_empty: "inv t empty_status"
    and inv_later: "inv t st \<Longrightarrow> t \<le> t' \<Longrightarrow> inv t' st"
    and inv_mutate: "inv t st \<Longrightarrow> inv t (wire_status wire (fst (m t st)))"
begin

lemma attempt_inv:
  assumes law: "optimistic_client (st_Client s) stored wire" and clock: "clock_law (st_Client s) (Now s)"
    and step: "attempt (st_Client s) name key (\<lambda>w. m (Now s w)) (w, a) = (r, (w', a'))"
    and start: "\<And>n. inv (Now s w) (ledger stored w n)"
  shows "inv (Now s w') (ledger stored w' n)"
proof (rule attempt_spec [OF law step])
  fix w1
  let ?st = "ledger stored w name"
  assume same: "ledger stored w1 = ledger stored w"
    and times: "\<And>now :: 'b \<Rightarrow> go_time. clock_law (st_Client s) now \<Longrightarrow> now w \<le> now w1 \<and> now w1 \<le> now w'"
    and eff: "ledger stored w' = ledger stored w \<and>
        (r = Inr True \<longrightarrow> m (Now s w1) ?st = (?st, a'))
      \<or> ledger stored w' = (ledger stored w)(name := wire_status wire (fst (m (Now s w1) ?st)))
         \<and> r \<noteq> Inr False \<and> a' = snd (m (Now s w1) ?st) \<and> fst (m (Now s w1) ?st) \<noteq> ?st"
  have le: "Now s w \<le> Now s w1" "Now s w1 \<le> Now s w'" using times [OF clock] by simp_all
  have "inv (Now s w1) (ledger stored w n)" for n using start le(1) by (rule inv_later)
  then have "inv (Now s w1) (ledger stored w' n)"
    using eff inv_mutate by auto
  then show "inv (Now s w') (ledger stored w' n)" using le(2) by (rule inv_later)
qed

text \<open>Every run of \<open>Apply\<close> keeps the invariant of every ledger, whatever it returns.\<close>

lemma Apply_inv:
  assumes law: "optimistic_client (st_Client s) stored wire" and clock: "clock_law (st_Client s) (Now s)"
    and run: "documented_retrier (idle_pair idle) run"
    and idle: "\<And>w w'. idle w w' \<Longrightarrow> (\<And>n. inv (Now s w) (ledger stored w n)) \<Longrightarrow>
      (\<And>n. inv (Now s w') (ledger stored w' n))"
    and start: "\<And>n. inv (Now s w) (ledger stored w n)"
    and res: "Apply sha256 run s key (\<lambda>w. m (Now s w)) a0 w = (r, a, w')"
  shows "inv (Now s w') (ledger stored w' n)"
proof -
  let ?name = "ObjectName sha256 key"
  let ?cond = "attempt (st_Client s) ?name key (\<lambda>w. m (Now s w))"
  let ?I = "\<lambda>x :: 'b \<times> 'a. \<forall>n. inv (Now s (fst x)) (ledger stored (fst x) n)"
  obtain e where out: "run ?cond (w, a0) = (e, (w', a))"
    using res by (auto simp: Apply_def Let_def split: prod.splits option.splits)
  have "?I (w', a)"
  proof (rule retry_outcome_rule [where I = ?I, OF documented_retrierD [OF run out], THEN conjunct1])
    show "?I (w, a0)" using start by simp
  next
    fix x assume I: "?I x"
    obtain q v' b' where "?cond (fst x, snd x) = (q, (v', b'))"
      by (metis prod.collapse)
    with I show "?I (snd (?cond x))"
      using attempt_inv [OF law clock] by (metis fst_conv prod.collapse snd_conv)
  next
    fix x y assume "?I x" "idle_pair idle x y"
    then show "?I y" using idle unfolding idle_pair_def by blast
  qed
  then show ?thesis by simp
qed

end

text \<open>
  A nil error of \<open>Apply\<close>: the last attempt mutated the ledger that was current when it wrote,
  and the captured variable holds that mutation's verdict.
\<close>

lemma Apply_ok:
  assumes law: "optimistic_client (st_Client s) stored wire" and clock: "clock_law (st_Client s) (Now s)"
    and run: "documented_retrier (idle_pair idle) run" and mono: "\<And>w w'. idle w w' \<Longrightarrow> Now s w \<le> Now s w'"
    and res: "Apply sha256 run s key mutate a0 w = (None, a, w')"
  obtains w1 st st' where "Now s w \<le> Now s w1" and "Now s w1 \<le> Now s w'"
    and "st = ledger stored w1 (ObjectName sha256 key)" and "mutate w1 st = (st', a)"
    and "ledger stored w' (ObjectName sha256 key) = (if st' = st then st else wire_status wire st')"
proof -
  let ?name = "ObjectName sha256 key"
  let ?cond = "attempt (st_Client s) ?name key mutate"
  let ?I = "\<lambda>x :: 'a \<times> 'b. Now s w \<le> Now s (fst x)"
  have out: "run ?cond (w, a0) = (None, (w', a))"
    using res by (auto simp: Apply_def Let_def split: prod.splits option.splits)
  have "\<exists>x. ?I x \<and> ?cond x = (Inr True, (w', a))"
  proof (rule retry_outcome_rule [where I = ?I, OF documented_retrierD [OF run out], THEN conjunct2, rule_format])
    show "?I (w, a0)" by simp
  next
    fix x assume I: "?I x"
    obtain q v' b' where st: "?cond (fst x, snd x) = (q, (v', b'))"
      by (metis prod.collapse)
    obtain w1 where "\<And>now :: 'a \<Rightarrow> go_time. clock_law (st_Client s) now \<Longrightarrow> now (fst x) \<le> now w1 \<and> now w1 \<le> now v'"
      using attempt_spec [OF law st] by metis
    from this [OF clock] I st show "?I (snd (?cond x))" by simp
  next
    fix x y assume "?I x" "idle_pair idle x y"
    then show "?I y" using mono unfolding idle_pair_def by fastforce
  qed simp
  then obtain w0 b where w0: "Now s w \<le> Now s w0" and last: "?cond (w0, b) = (Inr True, (w', a))"
    by auto
  show thesis
  proof (rule attempt_spec [OF law last])
    fix w1
    let ?st = "ledger stored w0 ?name"
    assume same: "ledger stored w1 = ledger stored w0"
      and times: "\<And>now :: 'a \<Rightarrow> go_time. clock_law (st_Client s) now \<Longrightarrow> now w0 \<le> now w1 \<and> now w1 \<le> now w'"
      and eff: "ledger stored w' = ledger stored w0 \<and> (Inr True = Inr True \<longrightarrow> mutate w1 ?st = (?st, a))
        \<or> ledger stored w' = (ledger stored w0)(?name := wire_status wire (fst (mutate w1 ?st)))
          \<and> Inr True \<noteq> Inr False \<and> a = snd (mutate w1 ?st) \<and> fst (mutate w1 ?st) \<noteq> ?st"
    show thesis
      using that [of w1 ?st "fst (mutate w1 ?st)"] times [OF clock] w0 same eff by auto
  qed
qed


text \<open>
  An error of \<open>Apply\<close> is always the wrapped message, around an API error the loop does not
  recover from or around the helper's own.
\<close>

lemma write_usage_error: "write_usage c b u w = (Inl e, w') \<Longrightarrow> \<exists>x. e = ErrAPI x \<and> x \<noteq> Conflict"
  by (auto simp: write_usage_def split: prod.splits sum.splits if_splits)

lemma read_usage_error:
  "read_usage c n key w = (Broken e, w') \<Longrightarrow> \<exists>x. e = ErrAPI x \<and> x \<noteq> NotFound \<or> (\<exists>x. e = ErrAPI x \<and> x \<noteq> AlreadyExists)"
  by (auto simp: read_usage_def get_step_def create_step_def
      split: prod.splits sum.splits attempt.splits option.splits if_splits)

lemma attempt_error: "fst (attempt c n key mutate x) = Inl e \<Longrightarrow> \<exists>a. e = ErrAPI a"
  by (auto simp: attempt_def split: prod.splits attempt.splits
      dest!: write_usage_error read_usage_error) 

lemma Apply_error:
  assumes run: "documented_retrier (idle_pair idle) run"
    and res: "Apply sha256 run s key mutate a0 w = (Some e, a, w')"
  shows "\<exists>e'. e = ErrWrap (''quota: CAS did not converge for '' @ ObjectName sha256 key) e' \<and>
    (e' = ErrTimeout \<or> e' = ErrContext \<or> (\<exists>x. e' = ErrAPI x))"
proof -
  obtain e' where out: "run (attempt (st_Client s) (ObjectName sha256 key) key mutate) (w, a0) = (Some e', (w', a))"
    and e: "e = ErrWrap (''quota: CAS did not converge for '' @ ObjectName sha256 key) e'"
    using res by (auto simp: Apply_def Let_def split: prod.splits option.splits)
  from retry_outcome_error [OF documented_retrierD [OF run out] refl] e show ?thesis
    by (auto dest: attempt_error)
qed

section \<open>Stored ledgers\<close>

text \<open>The stored form loses no reservation, only fractions of a second of its lifetime.\<close>

lemma wire_status_Confirmed [simp]: "Confirmed (wire_status wire st) = Confirmed st"
  by (simp add: wire_status_def)

lemma wire_status_empty [simp]: "wire_status wire empty_status = empty_status"
  by (simp add: wire_status_def empty_status_def)

lemma rfc3339_le: "rfc3339_seconds wire \<Longrightarrow> wire t \<le> t"
  and rfc3339_gt: "rfc3339_seconds wire \<Longrightarrow> t - second < wire t"
  by (auto simp: rfc3339_seconds_def) (smt (verit))

lemma live_rs_wire:
  assumes "rfc3339_seconds wire"
  shows "map Key (live_rs (wire_status wire st) t) =
    map Key (filter (\<lambda>r. t < wire (ExpiresAt r)) (live_rs st t))"
proof -
  have "live_rs (wire_status wire st) t =
      map (\<lambda>r. r\<lparr>ExpiresAt := wire (ExpiresAt r)\<rparr>) (filter (\<lambda>r. t < wire (ExpiresAt r)) (Reservations st))"
    by (simp add: live_rs_def wire_status_def filter_map comp_def live_at_def)
  moreover have "filter (\<lambda>r. t < wire (ExpiresAt r)) (Reservations st) =
      filter (\<lambda>r. t < wire (ExpiresAt r)) (live_rs st t)"
    using rfc3339_le [OF assms] by (auto simp: live_rs_def live_at_def intro!: filter_cong intro: order.strict_trans2)
  ultimately show ?thesis by simp
qed

lemma live_keys_wire:
  assumes "rfc3339_seconds wire"
  shows "live_keys (wire_status wire st) t = Key ` {r \<in> set (live_rs st t). t < wire (ExpiresAt r)}"
proof -
  have "live_keys (wire_status wire st) t = set (map Key (live_rs (wire_status wire st) t))"
    by (simp add: live_keys_def)
  also have "\<dots> = Key ` {r \<in> set (live_rs st t). t < wire (ExpiresAt r)}"
    unfolding live_rs_wire [OF assms] by auto
  finally show ?thesis .
qed

lemma live_keys_wire_subset:
  "rfc3339_seconds wire \<Longrightarrow> live_keys (wire_status wire st) t \<subseteq> live_keys st t"
  unfolding live_keys_wire by (auto simp: live_keys_def)

lemma length_live_rs_wire:
  "rfc3339_seconds wire \<Longrightarrow> length (live_rs (wire_status wire st) t) \<le> length (live_rs st t)"
  using live_rs_wire [of wire st t] by (metis length_filter_le length_map)

text \<open>
  The ledgers of a deployment whose limits and object counts stay below a bound \<open>B\<close>: the
  confirmed count and the live reservations are within it, and live keys are distinct.
\<close>

definition ledger_ok :: "nat \<Rightarrow> go_time \<Rightarrow> QuotaUsageStatus \<Rightarrow> bool" where
  "ledger_ok B t st \<longleftrightarrow> 0 \<le> sint (Confirmed st) \<and> sint (Confirmed st) \<le> int B \<and>
     distinct (map Key (live_rs st t)) \<and> length (live_rs st t) \<le> B"

lemma ledger_ok_empty [simp]: "ledger_ok B t empty_status"
  by (simp add: ledger_ok_def empty_status_def live_rs_def)

lemma ledger_ok_wf: "ledger_ok B t st \<Longrightarrow> B < 2 ^ 30 \<Longrightarrow> wf_ledger st t"
  by (auto simp: ledger_ok_def wf_ledger_def fits_def exact_used_def)

lemma ledger_ok_shrink:
  assumes "ledger_ok B t st" and "map Key (live_rs st' t') = map Key (filter P (live_rs st t))"
    and "0 \<le> sint (Confirmed st')" and "sint (Confirmed st') \<le> int B"
  shows "ledger_ok B t' st'"
proof -
  have "length (live_rs st' t') \<le> length (live_rs st t)"
    using assms(2) by (metis length_filter_le length_map)
  with assms show ?thesis by (simp add: ledger_ok_def distinct_map_filter)
qed

lemma ledger_ok_later: "ledger_ok B t st \<Longrightarrow> t \<le> t' \<Longrightarrow> ledger_ok B t' st"
  by (rule ledger_ok_shrink [where P = "live_at t'"]) (auto simp: live_rs_later ledger_ok_def)

lemma ledger_ok_wire: "rfc3339_seconds wire \<Longrightarrow> ledger_ok B t st \<Longrightarrow> ledger_ok B t (wire_status wire st)"
  by (rule ledger_ok_shrink [OF _ live_rs_wire]) (auto simp: ledger_ok_def)

lemma ledger_ok_Sweep: "ledger_ok B t st \<Longrightarrow> ledger_ok B t (Sweep st t)"
  by (rule ledger_ok_shrink [where P = "live_at t"]) (auto simp: live_rs_Sweep ledger_ok_def)

lemma ledger_ok_Fold:
  "ledger_ok B t st \<Longrightarrow> 0 \<le> sint n \<Longrightarrow> sint n \<le> int B \<Longrightarrow> ledger_ok B t (FoldConfirmed st n ks)"
  by (rule ledger_ok_shrink [where P = "\<lambda>r. Key r \<notin> ks"]) (auto simp: live_rs_Fold)

lemma ledger_ok_Reserve:
  assumes ok: "ledger_ok B t st" and B: "B < 2 ^ 30" and limit: "sint limit \<le> int B"
  shows "ledger_ok B t (fst (Reserve st k limit t ttl))"
proof (cases "k \<in> live_keys st t \<or> sint limit \<le> sint (Used st t)")
  case True
  with ok show ?thesis by (auto simp: Reserve_eq)
next
  case False
  then have "int (length (live_rs st t)) < int B"
    using ok limit ledger_ok_wf [OF ok B]
    by (simp add: sint_Used wf_ledger_fits exact_used_def ledger_ok_def)
  with False ok show ?thesis
    by (auto simp: Reserve_eq ledger_ok_def live_rs_append live_keys_def)
qed

interpretation reserve_op: ledger_mutator
  "\<lambda>t st. rfc3339_seconds wire \<and> B < 2 ^ 30 \<and> sint limit \<le> int B \<longrightarrow> ledger_ok B t st" wire
  "\<lambda>t st. Reserve st objKey limit t ttl"
  for wire B limit objKey ttl
proof unfold_locales
  fix t st
  assume ok: "rfc3339_seconds wire \<and> B < 2 ^ 30 \<and> sint limit \<le> int B \<longrightarrow> ledger_ok B t st"
  show "rfc3339_seconds wire \<and> B < 2 ^ 30 \<and> sint limit \<le> int B \<longrightarrow>
      ledger_ok B t (wire_status wire (fst (Reserve st objKey limit t ttl)))"
    using ok ledger_ok_wire ledger_ok_Reserve by blast
qed (auto intro: ledger_ok_later)

interpretation sweep_op: ledger_mutator
  "\<lambda>t st. rfc3339_seconds wire \<longrightarrow> ledger_ok B t st" wire "\<lambda>t st. (Sweep st t, ())"
  for wire B
  by unfold_locales (auto intro: ledger_ok_later ledger_ok_wire ledger_ok_Sweep)


section \<open>The contract of Reserve\<close>

text \<open>
  The environment of a store, in one predicate: the documented API server, a clock and waits
  that do not run backwards, stored times in whole seconds and the documented retry helper.
\<close>

definition store_env ::
  "'w Store \<Rightarrow> ('w \<Rightarrow> string \<rightharpoonup> QuotaUsage) \<Rightarrow> (go_time \<Rightarrow> go_time) \<Rightarrow> ('w \<Rightarrow> 'w \<Rightarrow> bool)
     \<Rightarrow> ('w \<times> 'a) retrier \<Rightarrow> bool" where
  "store_env s stored wire idle run \<longleftrightarrow>
     optimistic_client (st_Client s) stored wire \<and> clock_law (st_Client s) (Now s) \<and>
     rfc3339_seconds wire \<and> documented_retrier (idle_pair idle) run \<and>
     (\<forall>w w'. idle w w' \<longrightarrow> Now s w \<le> Now s w')"

lemma store_envD:
  assumes "store_env s stored wire idle run"
  shows "optimistic_client (st_Client s) stored wire" and "clock_law (st_Client s) (Now s)"
    and "rfc3339_seconds wire" and "documented_retrier (idle_pair idle) run"
    and "idle w w' \<Longrightarrow> Now s w \<le> Now s w'"
  using assms by (auto simp: store_env_def)

lemma Store_Reserve_cases:
  assumes env: "store_env s stored wire idle run"
    and res: "Store_Reserve sha256 run s key objKey limit w = (Inr b, w')"
  obtains t st st' where "Now s w \<le> t" and "t \<le> Now s w'" and "Reserve st objKey limit t (TTL s) = (st', b)"
    and "ledger stored w' (ObjectName sha256 key) = (if st' = st then st else wire_status wire st')"
proof -
  have ap: "Apply sha256 run s key (\<lambda>w st. Reserve st objKey limit (Now s w) (TTL s)) False w = (None, b, w')"
    using res by (auto simp: Store_Reserve_def split: prod.splits option.splits)
  note e = store_envD [OF env]
  show thesis
    by (rule Apply_ok [OF e(1,2,4,5) ap]) (auto intro: that)
qed

text \<open>
  A granted reservation is in the stored ledger and live, provided the TTL is at least the
  second the stored form may lose; a denied one was over the limit of the ledger as stored.
\<close>

lemma Store_Reserve_granted:
  assumes env: "store_env s stored wire idle run" and ttl: "second \<le> TTL s"
    and res: "Store_Reserve sha256 run s key objKey limit w = (Inr True, w')"
  shows "objKey \<in> live_keys (ledger stored w' (ObjectName sha256 key)) (Now s w)"
proof (rule Store_Reserve_cases [OF env res])
  fix t st st'
  assume t: "Now s w \<le> t" and r: "Reserve st objKey limit t (TTL s) = (st', True)"
    and l: "ledger stored w' (ObjectName sha256 key) = (if st' = st then st else wire_status wire st')"
  have "objKey \<in> live_keys (ledger stored w' (ObjectName sha256 key)) t"
  proof (cases "objKey \<in> live_keys st t")
    case True
    with r l show ?thesis by (simp add: Reserve_eq)
  next
    case False
    let ?r = "\<lparr>Key = objKey, ExpiresAt = t + TTL s\<rparr>"
    have st': "st' = st\<lparr>Reservations := Reservations st @ [?r]\<rparr>" "st' \<noteq> st"
      using False r by (auto simp: Reserve_eq split: if_splits dest: arg_cong [where f = Reservations])
    have "t < wire (t + TTL s)" using rfc3339_gt [OF store_envD(3) [OF env], of "t + TTL s"] ttl by simp
    moreover have "live_at t ?r" using ttl by (simp add: live_at_def)
    ultimately have "objKey \<in> live_keys (wire_status wire st') t"
      by (auto simp: live_keys_wire [OF store_envD(3) [OF env]] st'(1) live_rs_append image_iff)
    with l st'(2) show ?thesis by simp
  qed
  with live_keys_later [OF t] show ?thesis by blast
qed

lemma Store_Reserve_denied:
  assumes env: "store_env s stored wire idle run"
    and res: "Store_Reserve sha256 run s key objKey limit w = (Inr False, w')"
  shows "\<exists>t. Now s w \<le> t \<and> t \<le> Now s w' \<and>
    sint limit \<le> sint (Used (ledger stored w' (ObjectName sha256 key)) t)"
proof (rule Store_Reserve_cases [OF env res])
  fix t st st'
  assume t: "Now s w \<le> t" "t \<le> Now s w'" and r: "Reserve st objKey limit t (TTL s) = (st', False)"
    and l: "ledger stored w' (ObjectName sha256 key) = (if st' = st then st else wire_status wire st')"
  then show ?thesis by (auto simp: Reserve_eq split: if_splits)
qed

section \<open>The reservation port\<close>

text \<open>
  What the admission handler needs of a reservation: an allowed one is held afterwards, a
  refused one was refused because the ledger was full.
\<close>

locale reserve_port =
  fixes reserve :: "string \<Rightarrow> string \<Rightarrow> int32 \<Rightarrow> 'w \<Rightarrow> (go_error + bool) \<times> 'w"
    and holds :: "string \<Rightarrow> string \<Rightarrow> 'w \<Rightarrow> 'w \<Rightarrow> bool"
    and full :: "string \<Rightarrow> int32 \<Rightarrow> 'w \<Rightarrow> 'w \<Rightarrow> bool"
  assumes reserve_granted: "reserve cluster objKey limit w = (Inr True, w') \<Longrightarrow> holds cluster objKey w w'"
    and reserve_denied: "reserve cluster objKey limit w = (Inr False, w') \<Longrightarrow> full cluster limit w w'"

definition slot_held ::
  "('w \<Rightarrow> string \<rightharpoonup> QuotaUsage) \<Rightarrow> 'w Store \<Rightarrow> string \<Rightarrow> string \<Rightarrow> 'w \<Rightarrow> 'w \<Rightarrow> bool" where
  "slot_held stored s name objKey w w' \<longleftrightarrow> objKey \<in> live_keys (ledger stored w' name) (Now s w)"

definition ledger_full ::
  "('w \<Rightarrow> string \<rightharpoonup> QuotaUsage) \<Rightarrow> 'w Store \<Rightarrow> string \<Rightarrow> int32 \<Rightarrow> 'w \<Rightarrow> 'w \<Rightarrow> bool" where
  "ledger_full stored s name limit w w' \<longleftrightarrow>
     (\<exists>t. Now s w \<le> t \<and> t \<le> Now s w' \<and> sint limit \<le> sint (Used (ledger stored w' name) t))"

interpretation store_port: reserve_port
  "\<lambda>cluster. Store_Reserve sha256 run s (ukey cluster)"
  "\<lambda>cluster objKey w w'. store_env s stored wire idle run \<and> second \<le> TTL s \<longrightarrow>
     slot_held stored s (ObjectName sha256 (ukey cluster)) objKey w w'"
  "\<lambda>cluster limit w w'. store_env s stored wire idle run \<longrightarrow>
     ledger_full stored s (ObjectName sha256 (ukey cluster)) limit w w'"
  for sha256 run s ukey stored wire idle
  by unfold_locales
    (auto simp: slot_held_def ledger_full_def intro: Store_Reserve_granted dest: Store_Reserve_denied)

end
