(* ===== verification/Demo_Server.thy ===== *)
theory Demo_Server
  imports Store
begin

text \<open>
  A concrete API server with the documented behaviour, for the witnesses: a map of objects
  with resource versions and a clock. It shows that the hypotheses on the client can hold
  together and lets the store's functions be evaluated.
\<close>

record demo =
  objs :: "string \<rightharpoonup> QuotaUsage"
  clock :: go_time

definition demo_stored :: "demo \<Rightarrow> string \<rightharpoonup> QuotaUsage" where
  "demo_stored w n =
     (case objs w n of None \<Rightarrow> None | Some u \<Rightarrow> if qu_Name u = n then Some u else None)"

definition demo_wire :: "go_time \<Rightarrow> go_time" where
  "demo_wire t = t - t mod second"

definition demo_get :: "string \<Rightarrow> demo \<Rightarrow> (api_error + QuotaUsage) \<times> demo" where
  "demo_get n w = (case demo_stored w n of None \<Rightarrow> (Inl NotFound, w) | Some u \<Rightarrow> (Inr u, w))"

definition demo_create :: "QuotaUsage \<Rightarrow> demo \<Rightarrow> (api_error + QuotaUsage) \<times> demo" where
  "demo_create u w =
     (case demo_stored w (qu_Name u) of
        Some _ \<Rightarrow> (Inl AlreadyExists, w)
      | None \<Rightarrow>
          let u' = u\<lparr>qu_ResourceVersion := 1, qu_Status := empty_status\<rparr> in
          (Inr u', w\<lparr>objs := (objs w)(qu_Name u \<mapsto> u')\<rparr>))"

definition demo_update :: "QuotaUsage \<Rightarrow> demo \<Rightarrow> (api_error + QuotaUsage) \<times> demo" where
  "demo_update u w =
     (case demo_stored w (qu_Name u) of
        None \<Rightarrow> (Inl NotFound, w)
      | Some old \<Rightarrow>
          if qu_ResourceVersion u \<noteq> qu_ResourceVersion old then (Inl Conflict, w)
          else
            let u' = u\<lparr>qu_ResourceVersion := Suc (qu_ResourceVersion old), qu_Spec := qu_Spec old,
                qu_Status := wire_status demo_wire (qu_Status u)\<rparr> in
            (Inr u', w\<lparr>objs := (objs w)(qu_Name u \<mapsto> u')\<rparr>))"

definition demo_client :: "demo Client" where
  "demo_client = \<lparr>cl_Get = demo_get, cl_Create = demo_create, cl_StatusUpdate = demo_update,
     cl_List = (\<lambda>w. (Inr [], w))\<rparr>"

definition demo_store :: "go_duration \<Rightarrow> demo Store" where
  "demo_store ttl = \<lparr>st_Client = demo_client, TTL = ttl, Now = clock\<rparr>"

definition demo_world :: demo where
  "demo_world = \<lparr>objs = Map.empty, clock = 0\<rparr>"

definition demo_sha :: "string \<Rightarrow> string" where
  "demo_sha raw = replicate 32 (CHR ''a'')"

definition demo_key :: UsageKey where
  "demo_key = \<lparr>uk_Cluster = ''root:c1'', uk_Group = ''s3.example.com'', uk_Resource = ''buckets'',
     uk_IdentityHash = ''h1''\<rparr>"

lemmas demo_defs = demo_stored_def demo_wire_def demo_get_def demo_create_def demo_update_def
  demo_client_def demo_store_def demo_world_def

lemma demo_rfc3339: "rfc3339_seconds demo_wire"
  by (simp add: rfc3339_seconds_def demo_wire_def)

lemma demo_stored_upd:
  "qu_Name u = n \<Longrightarrow> demo_stored (w\<lparr>objs := (objs w)(n \<mapsto> u)\<rparr>) = (demo_stored w)(n \<mapsto> u)"
  by (auto simp: demo_stored_def fun_eq_iff)

lemma demo_optimistic: "optimistic_client demo_client demo_stored demo_wire"
proof -
  have "get_law demo_client demo_stored"
    by (auto simp: get_law_def demo_client_def demo_get_def split: option.splits)
  moreover have "create_law demo_client demo_stored"
    unfolding create_law_def
    by (auto simp: demo_client_def demo_create_def Let_def created_from_def
        split: option.splits intro!: demo_stored_upd exI)
  moreover have "update_law demo_client demo_stored demo_wire"
    unfolding update_law_def
    by (auto simp: demo_client_def demo_update_def Let_def updated_from_def
        split: option.splits if_splits intro!: demo_stored_upd exI)
  moreover have "named_law demo_stored"
    by (auto simp: named_law_def demo_stored_def split: option.splits if_splits)
  ultimately show ?thesis by (simp add: optimistic_client_def)
qed

lemma demo_clock: "clock_law demo_client clock"
  by (auto simp: clock_law_def demo_client_def demo_get_def demo_create_def demo_update_def Let_def
      split: option.splits)

lemma idle_pair_eq: "idle_pair (=) = (=)"
  by (auto simp: idle_pair_def fun_eq_iff)

lemma demo_env: "store_env (demo_store ttl) demo_stored demo_wire (=) (retry_n n)"
  using demo_optimistic demo_clock demo_rfc3339 retry_n_documented [of n]
  by (simp add: store_env_def demo_store_def idle_pair_eq)

end
