(* ===== verification/Usage_Reconciler.thy ===== *)
theory Usage_Reconciler
  imports Store
begin

text \<open>
  The accounting side of a ledger (\<open>internal/controller/usage_reconciler.go\<close>, and the sweep
  ticker and \<open>usageKeys\<close> of \<open>cmd/controller/accounting.go\<close>): fold the observed live objects
  into the confirmed count, and sweep expired reservations. Listing the live objects is an
  argument, as is the store's client.
\<close>

section \<open>Operations\<close>

definition ComputeConfirmed :: "QuotaUsageStatus \<Rightarrow> string list \<Rightarrow> QuotaUsageStatus" where
  "ComputeConfirmed st liveKeys =
     FoldConfirmed st (int32_of_int (int (length liveKeys))) (set liveKeys)"

record 'w UsageReconciler =
  ur_Store :: "'w Store"
  ur_Group :: string
  ur_Resource :: string
  ur_IdentityHash :: string
  ur_ListLiveKeys :: "string \<Rightarrow> 'w \<Rightarrow> (go_error + string list) \<times> 'w"

definition cluster_key :: "'w UsageReconciler \<Rightarrow> string \<Rightarrow> UsageKey" where
  "cluster_key r cluster =
     \<lparr>uk_Cluster = cluster, uk_Group = ur_Group r, uk_Resource = ur_Resource r,
      uk_IdentityHash = ur_IdentityHash r\<rparr>"

definition ReconcileCluster ::
  "(string \<Rightarrow> string) \<Rightarrow> ('w \<times> unit) retrier \<Rightarrow> 'w UsageReconciler \<Rightarrow> string \<Rightarrow> 'w
     \<Rightarrow> go_error option \<times> 'w" where
  "ReconcileCluster sha256 run r cluster w =
     (case ur_ListLiveKeys r cluster w of
        (Inl err, w1) \<Rightarrow> (Some err, w1)
      | (Inr keys, w1) \<Rightarrow>
          (case Apply sha256 run (ur_Store r) (cluster_key r cluster)
              (\<lambda>w st. (ComputeConfirmed st keys, ())) () w1 of
             (err, _, w2) \<Rightarrow> (err, w2)))"

fun SweepAll ::
  "(string \<Rightarrow> string) \<Rightarrow> ('w \<times> unit) retrier \<Rightarrow> 'w Store \<Rightarrow> UsageKey list \<Rightarrow> 'w
     \<Rightarrow> go_error option \<times> 'w" where
  "SweepAll sha256 run s [] w = (None, w)"
| "SweepAll sha256 run s (k # ks) w =
     (case Apply sha256 run s k (\<lambda>w st. (Sweep st (Now s w), ())) () w of
        (Some err, _, w') \<Rightarrow> (Some err, w')
      | (None, _, w') \<Rightarrow> SweepAll sha256 run s ks w')"

text \<open>\<open>usageKeys\<close>: the ledgers of one governed export, from the list of all of them.\<close>

fun usageKeys_loop :: "string \<Rightarrow> string \<Rightarrow> string \<Rightarrow> QuotaUsage list \<Rightarrow> UsageKey list \<Rightarrow> UsageKey list" where
  "usageKeys_loop g res iden [] keys = keys"
| "usageKeys_loop g res iden (u # us) keys =
     usageKeys_loop g res iden us
       (if us_Group (qu_Spec u) = g \<and> us_Resource (qu_Spec u) = res \<and> us_IdentityHash (qu_Spec u) = iden
        then keys @ [\<lparr>uk_Cluster = us_Consumer (qu_Spec u), uk_Group = g, uk_Resource = res,
                      uk_IdentityHash = iden\<rparr>]
        else keys)"

definition usageKeys :: "'w Client \<Rightarrow> string \<Rightarrow> string \<Rightarrow> string \<Rightarrow> 'w \<Rightarrow> (go_error + UsageKey list) \<times> 'w" where
  "usageKeys c g res iden w =
     (case cl_List c w of
        (Inl e, w') \<Rightarrow> (Inl (ErrAPI e), w')
      | (Inr us, w') \<Rightarrow> (Inr (usageKeys_loop g res iden us []), w'))"

text \<open>One tick of the sweep runnable: errors are logged, the ticker goes on.\<close>

definition sweep_tick ::
  "(string \<Rightarrow> string) \<Rightarrow> ('w \<times> unit) retrier \<Rightarrow> 'w UsageReconciler \<Rightarrow> 'w \<Rightarrow> 'w" where
  "sweep_tick sha256 run r w =
     (case usageKeys (st_Client (ur_Store r)) (ur_Group r) (ur_Resource r) (ur_IdentityHash r) w of
        (Inl _, w') \<Rightarrow> w'
      | (Inr keys, w') \<Rightarrow> snd (SweepAll sha256 run (ur_Store r) keys w'))"

section \<open>Folding observed objects\<close>

lemma ComputeConfirmed_Confirmed:
  "length ks < 2 ^ 31 \<Longrightarrow> sint (Confirmed (ComputeConfirmed st ks)) = int (length ks)"
  by (simp add: ComputeConfirmed_def sint_int32_of_int)

lemma ComputeConfirmed_live [simp]: "live_keys (ComputeConfirmed st ks) now = live_keys st now - set ks"
  by (simp add: ComputeConfirmed_def)

lemma ledger_ok_Compute:
  "ledger_ok B t st \<Longrightarrow> length ks \<le> B \<Longrightarrow> B < 2 ^ 30 \<Longrightarrow> ledger_ok B t (ComputeConfirmed st ks)"
  unfolding ComputeConfirmed_def by (rule ledger_ok_Fold) (simp_all add: sint_int32_of_int)

interpretation fold_op: ledger_mutator
  "\<lambda>t st. rfc3339_seconds wire \<and> length keys \<le> B \<and> B < 2 ^ 30 \<longrightarrow> ledger_ok B t st" wire
  "\<lambda>t st. (ComputeConfirmed st keys, ())"
  for wire keys B
proof unfold_locales
  fix t st
  assume "rfc3339_seconds wire \<and> length keys \<le> B \<and> B < 2 ^ 30 \<longrightarrow> ledger_ok B t st"
  then show "rfc3339_seconds wire \<and> length keys \<le> B \<and> B < 2 ^ 30 \<longrightarrow>
      ledger_ok B t (wire_status wire (fst (ComputeConfirmed st keys, ())))"
    using ledger_ok_wire ledger_ok_Compute by (metis fst_conv)
qed (auto intro: ledger_ok_later)

text \<open>
  The hand-off: when the listed objects are those confirmed before and others whose
  reservations are still live, folding moves each slot from reservation to confirmed count.
\<close>

lemma fold_handoff_used:
  assumes wf: "wf_ledger st now" and ks: "distinct ks" "set ks = C \<union> F" and C: "finite C" "int (card C) = sint (Confirmed st)"
    and F: "F \<subseteq> live_keys st now" and disj: "C \<inter> live_keys st now = {}"
  shows "exact_used (ComputeConfirmed st ks) now = exact_used st now"
proof -
  let ?L = "live_keys st now"
  have finF: "finite F" using F by (rule finite_subset) simp
  have CF: "C \<inter> F = {}" using F disj by blast
  have len: "length ks = card C + card F"
    using ks distinct_card [OF ks(1)] card_Un_disjoint [OF C(1) finF CF] by simp
  have Fle: "card F \<le> card ?L" using F by (intro card_mono) simp_all
  have used: "sint (Confirmed st) + int (card ?L) < 2 ^ 31"
    using wf wf_ledger_card [OF wf] by (simp add: wf_ledger_def fits_def exact_used_def)
  then have "int (length ks) < 2 ^ 31" using len C(2) Fle by linarith
  then have small: "length ks < 2 ^ 31" by simp
  have L': "live_rs (ComputeConfirmed st ks) now = filter (\<lambda>r. Key r \<notin> set ks) (live_rs st now)"
    by (simp add: ComputeConfirmed_def live_rs_Fold)
  have "distinct (map Key (live_rs (ComputeConfirmed st ks) now))"
    using wf unfolding L' by (simp add: wf_ledger_def distinct_map_filter)
  then have "length (live_rs (ComputeConfirmed st ks) now) = card (?L - set ks)"
    by (metis ComputeConfirmed_live distinct_card length_map live_keys_def set_map)
  also have "?L - set ks = ?L - F" using ks(2) disj by blast
  also have "card (?L - F) = card ?L - card F" using F finF by (simp add: card_Diff_subset)
  finally show ?thesis
    using len C(2) Fle wf_ledger_card [OF wf]
    by (simp add: exact_used_def ComputeConfirmed_Confirmed [OF small] of_nat_diff)
qed

section \<open>What a reconcile leaves in the store\<close>

lemma ReconcileCluster_list_error:
  "ur_ListLiveKeys r cluster w = (Inl e, w1) \<Longrightarrow> ReconcileCluster sha256 run r cluster w = (Some e, w1)"
  by (simp add: ReconcileCluster_def)

lemma ReconcileCluster_ok:
  assumes env: "store_env (ur_Store r) stored wire idle run"
    and list: "ur_ListLiveKeys r cluster w = (Inr keys, w1)" and len: "length keys < 2 ^ 31"
    and res: "ReconcileCluster sha256 run r cluster w = (None, w')"
  shows "sint (Confirmed (ledger stored w' (ObjectName sha256 (cluster_key r cluster)))) = int (length keys) \<and>
    (\<forall>k \<in> set keys. \<forall>t. k \<notin> live_keys (ledger stored w' (ObjectName sha256 (cluster_key r cluster))) t)"
proof -
  have ap: "Apply sha256 run (ur_Store r) (cluster_key r cluster) (\<lambda>w st. (ComputeConfirmed st keys, ())) () w1
      = (None, (), w')"
    using res list by (auto simp: ReconcileCluster_def split: prod.splits)
  note e = store_envD [OF env]
  show ?thesis
  proof (rule Apply_ok [OF e(1,2,4,5) ap])
    fix v st st'
    assume m: "(ComputeConfirmed st keys, ()) = (st', ())"
      and l: "ledger stored w' (ObjectName sha256 (cluster_key r cluster)) =
        (if st' = st then st else wire_status wire st')"
    have c: "sint (Confirmed st') = int (length keys)"
      using m ComputeConfirmed_Confirmed [OF len, of st] by auto
    have k: "k \<notin> live_keys st' t" if "k \<in> set keys" for k t
      using m that by auto
    then show ?thesis
      using l c k live_keys_wire_subset [OF e(3), of st'] by (auto split: if_splits)
  qed
qed

section \<open>Sweeping\<close>

lemma usageKeys_loop_eq:
  "usageKeys_loop g res iden us acc = acc @
     map (\<lambda>u. \<lparr>uk_Cluster = us_Consumer (qu_Spec u), uk_Group = g, uk_Resource = res, uk_IdentityHash = iden\<rparr>)
       (filter (\<lambda>u. us_Group (qu_Spec u) = g \<and> us_Resource (qu_Spec u) = res \<and> us_IdentityHash (qu_Spec u) = iden) us)"
  by (induction us arbitrary: acc) auto

lemma SweepAll_append:
  "SweepAll sha256 run s (ks @ ks') w =
     (case SweepAll sha256 run s ks w of
        (Some e, w') \<Rightarrow> (Some e, w')
      | (None, w') \<Rightarrow> SweepAll sha256 run s ks' w')"
  by (induction ks arbitrary: w) (auto split: prod.splits option.splits)

text \<open>A sweep never lowers what counts: confirmed and the slots live at its end are kept.\<close>

lemma SweepAll_inv:
  assumes env: "store_env s stored wire idle run"
    and idle: "\<And>w w'. idle w w' \<Longrightarrow> (\<And>n. ledger_ok B (Now s w) (ledger stored w n)) \<Longrightarrow>
      (\<And>n. ledger_ok B (Now s w') (ledger stored w' n))"
    and start: "\<And>n. ledger_ok B (Now s w) (ledger stored w n)"
    and res: "SweepAll sha256 run s ks w = (r, w')"
  shows "ledger_ok B (Now s w') (ledger stored w' n)"
  using start res
proof (induction ks arbitrary: w)
  case (Cons k ks)
  note e = store_envD [OF env]
  obtain x a w1 where ap: "Apply sha256 run s k (\<lambda>w st. (Sweep st (Now s w), ())) () w = (x, a, w1)"
    by (metis prod.collapse)
  have ok: "ledger_ok B (Now s w1) (ledger stored w1 n)" for n
    using sweep_op.Apply_inv [where B = B, OF e(1,2,4) _ _ ap] Cons.prems(1) idle e(3)
    by blast
  show ?case
  proof (cases x)
    case None
    then show ?thesis using Cons.IH [OF ok] Cons.prems(2) ap by simp
  next
    case (Some err)
    then show ?thesis using ok Cons.prems(2) ap by simp
  qed
qed simp

end
