(* ===== verification/Store_Properties.thy ===== *)
theory Store_Properties
  imports Demo_Server Usage_Reconciler
begin

text \<open>
  The properties of the compare-and-swap loop and of the ledger names: what a result of
  \<open>Apply\<close> and of \<open>Reserve\<close> says about the stored ledger, and which objects ledgers live in.
\<close>

section \<open>One ledger, one update\<close>

text \<open>
  \<open>applied_once\<close>: from \<open>w\<close> to \<open>w'\<close> every ledger was left alone, or this one was replaced by the stored
  form of one mutation of it, made at a time in between. \<open>others_only\<close>: from \<open>w\<close> to \<open>w'\<close> the call itself
  left every ledger alone, and what changed is what the other processes (\<open>idle\<close>) did.
\<close>

definition applied_once ::
  "'w Store \<Rightarrow> ('w \<Rightarrow> string \<rightharpoonup> QuotaUsage) \<Rightarrow> (go_time \<Rightarrow> go_time) \<Rightarrow> ('w, 'a) mutation \<Rightarrow> string
     \<Rightarrow> 'w \<Rightarrow> bool \<Rightarrow> 'w \<Rightarrow> 'a \<Rightarrow> bool" where
  "applied_once s stored wire mutate n w ok w' a \<longleftrightarrow> Now s w \<le> Now s w' \<and>
     ((ledger stored w' = ledger stored w \<and>
        (ok \<longrightarrow> (\<exists>w1. Now s w \<le> Now s w1 \<and> Now s w1 \<le> Now s w' \<and>
           mutate w1 (ledger stored w n) = (ledger stored w n, a))))
     \<or> (\<exists>w1. Now s w \<le> Now s w1 \<and> Now s w1 \<le> Now s w' \<and>
        ledger stored w' =
          (ledger stored w)(n := wire_status wire (fst (mutate w1 (ledger stored w n)))) \<and>
        a = snd (mutate w1 (ledger stored w n))))"

definition others_only ::
  "'w Store \<Rightarrow> ('w \<Rightarrow> 'w \<Rightarrow> bool) \<Rightarrow> ('w \<Rightarrow> string \<rightharpoonup> QuotaUsage) \<Rightarrow> 'w \<Rightarrow> 'w \<Rightarrow> bool" where
  "others_only s idle stored =
     (\<lambda>u u'. Now s u \<le> Now s u' \<and> (idle u u' \<or> ledger stored u' = ledger stored u))\<^sup>*\<^sup>*"

text \<open>Nobody else writes while the call waits between its attempts.\<close>

definition quiet :: "('w \<Rightarrow> 'w \<Rightarrow> bool) \<Rightarrow> ('w \<Rightarrow> string \<rightharpoonup> QuotaUsage) \<Rightarrow> bool" where
  "quiet idle stored \<longleftrightarrow> (\<forall>w w'. idle w w' \<longrightarrow> stored w' = stored w)"

lemma others_only_refl: "others_only s idle stored w w"
  by (simp add: others_only_def)

lemma others_only_step:
  assumes "ledger stored w1 = ledger stored w" and "idle w1 w2" and "others_only s idle stored w2 w3"
    and "Now s w \<le> Now s w1" and "Now s w1 \<le> Now s w2"
  shows "others_only s idle stored w w3"
proof -
  have "others_only s idle stored w1 w3"
    using assms(2,3,5) unfolding others_only_def by (blast intro: converse_rtranclp_into_rtranclp)
  then show ?thesis using assms(1,4) unfolding others_only_def by (blast intro: converse_rtranclp_into_rtranclp)
qed

lemma others_only_clock: "others_only s idle stored w w' \<Longrightarrow> Now s w \<le> Now s w'"
  unfolding others_only_def by (induction rule: rtranclp_induct) auto

text \<open>What holds of the ledgers at a time after \<open>t\<close> and survives what the others do.\<close>

lemma others_only_keep:
  assumes "others_only s idle stored w w'" and "P (ledger stored w)" and "t \<le> Now s w"
    and "\<And>u u'. idle u u' \<Longrightarrow> t \<le> Now s u \<Longrightarrow> P (ledger stored u) \<Longrightarrow> P (ledger stored u')"
  shows "P (ledger stored w') \<and> t \<le> Now s w'"
  using assms(1) [unfolded others_only_def]
proof (induction rule: rtranclp_induct)
  case base
  show ?case using assms(2,3) by simp
next
  case (step u u')
  from step.hyps(2) show ?case
  proof (elim conjE disjE)
    assume "idle u u'" "Now s u \<le> Now s u'"
    with assms(4) [of u u'] step.IH show ?thesis by simp
  qed (use step.IH in simp)
qed

lemma others_only_quiet:
  assumes "quiet idle stored" and "others_only s idle stored w w'"
  shows "ledger stored w' = ledger stored w"
proof -
  have "ledger stored w' = ledger stored w \<and> Now s w \<le> Now s w'"
    using assms(2)
  proof (rule others_only_keep)
    show "ledger stored u' = ledger stored w" if "idle u u'" "ledger stored u = ledger stored w" for u u'
      using that assms(1) ledger_cong [where stored = stored and w = u and w' = u'] by (simp add: quiet_def)
  qed simp_all
  then show ?thesis by simp
qed

lemma attempt_once:
  assumes env: "store_env s stored wire idle run"
    and step: "attempt (st_Client s) n key mutate x = (r, y)"
  shows "(r \<noteq> Inr False \<longrightarrow> applied_once s stored wire mutate n (fst x) (r = Inr True) (fst y) (snd y)) \<and>
    (r = Inr False \<longrightarrow> ledger stored (fst y) = ledger stored (fst x)) \<and> Now s (fst x) \<le> Now s (fst y)"
proof -
  have st: "attempt (st_Client s) n key mutate (fst x, snd x) = (r, (fst y, snd y))" using step by simp
  note e = store_envD [OF env]
  show ?thesis
  proof (rule attempt_spec [OF e(1) st])
    fix w1
    let ?st = "ledger stored (fst x) n"
    assume times: "\<And>now :: 'a \<Rightarrow> go_time. clock_law (st_Client s) now \<Longrightarrow> now (fst x) \<le> now w1 \<and> now w1 \<le> now (fst y)"
      and eff: "ledger stored (fst y) = ledger stored (fst x) \<and>
        (r = Inr True \<longrightarrow> mutate w1 ?st = (?st, snd y))
      \<or> ledger stored (fst y) = (ledger stored (fst x))(n := wire_status wire (fst (mutate w1 ?st)))
         \<and> r \<noteq> Inr False \<and> snd y = snd (mutate w1 ?st) \<and> fst (mutate w1 ?st) \<noteq> ?st"
    from times [OF e(2)] have le: "Now s (fst x) \<le> Now s w1" "Now s w1 \<le> Now s (fst y)" by simp_all
    with eff show ?thesis unfolding applied_once_def by force
  qed
qed

text \<open>An attempt that asks for another one wrote nothing; so only the last attempt of a call can have written.\<close>

lemma retry_once:
  assumes run: "retry_outcome (idle_pair idle) (attempt (st_Client s) n key mutate) x r y"
    and env: "store_env s stored wire idle run"
  shows "\<exists>w0. others_only s idle stored (fst x) w0 \<and> Now s (fst x) \<le> Now s w0 \<and>
    applied_once s stored wire mutate n w0 (r = None) (fst y) (snd y)"
  using run
proof (induction rule: retry_outcome.induct)
  case (retry_done x y)
  have "applied_once s stored wire mutate n (fst x) (None = None) (fst y) (snd y)"
    using attempt_once [OF env retry_done] by simp
  then show ?case using others_only_refl by (intro exI [of _ "fst x"]) simp
next
  case (retry_failed x e y)
  have "applied_once s stored wire mutate n (fst x) (Some e = None) (fst y) (snd y)"
    using attempt_once [OF env retry_failed] by simp
  then show ?case using others_only_refl by (intro exI [of _ "fst x"]) simp
next
  case (retry_again x x1 x2 r y)
  note one = attempt_once [OF env retry_again.hyps(1)]
  have idle: "idle (fst x1) (fst x2)" using retry_again.hyps(2) by (simp add: idle_pair_def)
  have same: "ledger stored (fst x1) = ledger stored (fst x)" using one by simp
  have clock: "Now s (fst x) \<le> Now s (fst x1)" "Now s (fst x1) \<le> Now s (fst x2)"
    using one store_envD(5) [OF env idle] by simp_all
  obtain w0 where w0: "others_only s idle stored (fst x2) w0" "Now s (fst x2) \<le> Now s w0"
    "applied_once s stored wire mutate n w0 (r = None) (fst y) (snd y)" using retry_again.IH by blast
  from others_only_step [where idle = idle and stored = stored, OF same idle w0(1) clock] w0(2,3) clock show ?case
    by (intro exI [of _ w0]) simp
qed (auto simp: applied_once_def intro: others_only_refl)

lemma Apply_last:
  assumes env: "store_env s stored wire idle run"
    and res: "Apply sha256 run s key mutate a0 w = (r, a, w')"
  shows "\<exists>w0. others_only s idle stored w w0 \<and> Now s w \<le> Now s w0 \<and>
    applied_once s stored wire mutate (ObjectName sha256 key) w0 (r = None) w' a"
proof -
  let ?n = "ObjectName sha256 key"
  obtain e where out: "run (attempt (st_Client s) ?n key mutate) (w, a0) = (e, (w', a))"
    and e: "e = None \<longleftrightarrow> r = None"
    using res by (auto simp: Apply_def Let_def split: prod.splits option.splits)
  show ?thesis
    using retry_once [OF documented_retrierD [OF store_envD(4) [OF env] out] env] e by simp
qed

text \<open>Without other writers a whole run changes the ledgers by at most one mutation.\<close>

lemma Apply_once:
  assumes env: "store_env s stored wire idle run" and quiet: "quiet idle stored"
    and res: "Apply sha256 run s key mutate a0 w = (r, a, w')"
  shows "applied_once s stored wire mutate (ObjectName sha256 key) w (r = None) w' a"
proof -
  obtain w0 where w0: "others_only s idle stored w w0" "Now s w \<le> Now s w0"
    and last: "applied_once s stored wire mutate (ObjectName sha256 key) w0 (r = None) w' a"
    using Apply_last [OF env res] by blast
  from others_only_quiet [OF quiet w0(1)] w0(2) last show ?thesis
    unfolding applied_once_def by (auto intro: order_trans)
qed

text \<open>
  C9. A call of \<open>Apply\<close> applies its mutation at most once, whatever the other processes write
  between its attempts (what they write between the read and the write of one attempt shows as a
  conflict, which writes nothing), whatever it returns, however many attempts it makes and also when the answer
  to its write is lost: up to some world \<open>w0\<close> of the call every change of a ledger is one of the
  others, and from there to the end the ledgers stay as they are, or the ledger of the key, as it
  stood at \<open>w0\<close>, is replaced by the stored form of its mutation and no other ledger changes; without
  an error the mutation has been applied exactly once (one that changes nothing is not written).
  The clock the mutation read is one of the call. When nobody else writes, the ledgers at \<open>w0\<close> are
  those the call began with.
\<close>

theorem apply_at_most_once:
  assumes env: "store_env s stored wire idle run"
    and res: "Apply sha256 run s key mutate a0 w = (r, a, w')"
  shows "\<exists>w0. others_only s idle stored w w0 \<and> Now s w \<le> Now s w0 \<and>
    (quiet idle stored \<longrightarrow> ledger stored w0 = ledger stored w) \<and>
    ((ledger stored w' = ledger stored w0 \<and>
      (r = None \<longrightarrow> (\<exists>w1. Now s w0 \<le> Now s w1 \<and> Now s w1 \<le> Now s w' \<and>
         mutate w1 (ledger stored w0 (ObjectName sha256 key)) = (ledger stored w0 (ObjectName sha256 key), a))))
    \<or> (\<exists>w1. Now s w0 \<le> Now s w1 \<and> Now s w1 \<le> Now s w' \<and>
        ledger stored w' = (ledger stored w0)(ObjectName sha256 key :=
          wire_status wire (fst (mutate w1 (ledger stored w0 (ObjectName sha256 key))))) \<and>
        a = snd (mutate w1 (ledger stored w0 (ObjectName sha256 key)))))"
proof -
  obtain w0 where w0: "others_only s idle stored w w0" "Now s w \<le> Now s w0"
    and last: "applied_once s stored wire mutate (ObjectName sha256 key) w0 (r = None) w' a"
    using Apply_last [OF assms] by blast
  have "quiet idle stored \<longrightarrow> ledger stored w0 = ledger stored w" using others_only_quiet [OF _ w0(1)] by simp
  with w0 last [unfolded applied_once_def, THEN conjunct2] show ?thesis by (intro exI [of _ w0] conjI)
qed

text \<open>On the demonstration server: a reservation is written once and read back.\<close>

theorem apply_at_most_once_witness:
  "live_keys (ledger demo_stored (snd (Store_Reserve demo_sha (retry_n 2) (demo_store (60 * second)) demo_key ''ns/a'' 1 demo_world))
      (ObjectName demo_sha demo_key)) 0 \<subseteq> {''ns/a''}"
proof -
  let ?m = "\<lambda>w st. Reserve st ''ns/a'' 1 (clock w) (60 * second)"
  let ?s = "demo_store (60 * second)"
  obtain r a w' where ap: "Apply demo_sha (retry_n 2) ?s demo_key ?m False demo_world = (r, a, w')"
    by (metis prod.collapse)
  have still: "quiet (=) demo_stored" by (simp add: quiet_def)
  have empty: "ledger demo_stored demo_world n = empty_status" for n
    by (simp add: ledger_def demo_stored_def demo_world_def)
  have one: "live_keys (fst (?m w1 empty_status)) 0 \<subseteq> {''ns/a''}" for w1
    by (auto simp: Reserve_eq live_keys_append)
  have w': "snd (Store_Reserve demo_sha (retry_n 2) ?s demo_key ''ns/a'' 1 demo_world) = w'"
    using ap by (simp add: Store_Reserve_def demo_store_def split: option.split)
  have "live_keys (ledger demo_stored w' (ObjectName demo_sha demo_key)) 0 \<subseteq> {''ns/a''}" (is ?held)
    using apply_at_most_once [OF demo_env ap]
  proof (elim exE conjE disjE)
    fix w0 w1
    assume "ledger demo_stored w' = (ledger demo_stored w0)(ObjectName demo_sha demo_key :=
      wire_status demo_wire (fst (?m w1 (ledger demo_stored w0 (ObjectName demo_sha demo_key)))))"
      and "quiet (=) demo_stored \<longrightarrow> ledger demo_stored w0 = ledger demo_stored demo_world"
    then show ?held
      using one [of w1] live_keys_wire_subset [OF demo_rfc3339, of "fst (?m w1 empty_status)" 0] still
      by (simp add: empty)
  qed (use still in \<open>simp add: empty\<close>)
  then show ?thesis by (simp only: w')
qed

section \<open>The contract of Reserve\<close>

text \<open>
  C15. \<open>Store.Reserve\<close> against the documented API server, under any interference between its
  attempts: granted, the slot is in the stored ledger and was live when the call began; denied,
  the stored ledger was full at a time within the call; and an error is always the wrapped
  message around a timeout, the context's error or an API error, never a silent answer.
\<close>

theorem store_reserve_contract:
  assumes env: "store_env s stored wire idle run" and ttl: "second \<le> TTL s"
    and res: "Store_Reserve sha256 run s key objKey limit w = (r, w')"
  shows "case r of
      Inr True \<Rightarrow> slot_held stored s (ObjectName sha256 key) objKey w w'
    | Inr False \<Rightarrow> ledger_full stored s (ObjectName sha256 key) limit w w'
    | Inl e \<Rightarrow> \<exists>e'. e = ErrWrap (''quota: CAS did not converge for '' @ ObjectName sha256 key) e' \<and>
        (e' = ErrTimeout \<or> e' = ErrContext \<or> (\<exists>x. e' = ErrAPI x))"
proof (cases r)
  case (Inr b)
  then show ?thesis
    using res env ttl store_port.reserve_granted [of sha256 run s "\<lambda>_. key" "[]" objKey limit w w']
      store_port.reserve_denied [of sha256 run s "\<lambda>_. key" "[]" objKey limit w w']
    by (cases b) auto
next
  case (Inl e)
  then obtain a where "Apply sha256 run s key (\<lambda>w st. Reserve st objKey limit (Now s w) (TTL s)) False w = (Some e, a, w')"
    using res by (auto simp: Store_Reserve_def split: prod.splits option.splits)
  from Apply_error [OF store_envD(4) [OF env] this] Inl show ?thesis by simp
qed

theorem store_reserve_contract_witness:
  "slot_held demo_stored (demo_store (60 * second)) (ObjectName demo_sha demo_key) ''ns/a'' demo_world
     (snd (Store_Reserve demo_sha (retry_n 2) (demo_store (60 * second)) demo_key ''ns/a'' 1 demo_world))"
proof -
  let ?r = "Store_Reserve demo_sha (retry_n 2) (demo_store (60 * second)) demo_key ''ns/a'' 1 demo_world"
  have "fst ?r = Inr True" by code_simp
  then have r: "?r = (Inr True, snd ?r)" by (metis prod.collapse)
  have ttl: "second \<le> TTL (demo_store (60 * second))" by (simp add: demo_store_def)
  show ?thesis using store_reserve_contract [OF demo_env ttl r] by simp
qed

section \<open>The invariant of the stored ledgers\<close>

definition ledgers_ok :: "nat \<Rightarrow> 'w Store \<Rightarrow> ('w \<Rightarrow> string \<rightharpoonup> QuotaUsage) \<Rightarrow> 'w \<Rightarrow> bool" where
  "ledgers_ok B s stored w \<longleftrightarrow> (\<forall>n. ledger_ok B (Now s w) (ledger stored w n))"

text \<open>What other processes do during a wait keeps the ledgers well formed too.\<close>

definition waits_ok ::
  "nat \<Rightarrow> 'w Store \<Rightarrow> ('w \<Rightarrow> string \<rightharpoonup> QuotaUsage) \<Rightarrow> ('w \<Rightarrow> 'w \<Rightarrow> bool) \<Rightarrow> bool" where
  "waits_ok B s stored idle \<longleftrightarrow>
     (\<forall>w w'. idle w w' \<longrightarrow> ledgers_ok B s stored w \<longrightarrow> ledgers_ok B s stored w')"

lemma waits_okD:
  "waits_ok B s stored idle \<Longrightarrow> idle w w' \<Longrightarrow> (\<And>n. ledger_ok B (Now s w) (ledger stored w n)) \<Longrightarrow>
     ledger_ok B (Now s w') (ledger stored w' n)"
  by (auto simp: waits_ok_def ledgers_ok_def)

lemma Store_Reserve_ledgers:
  assumes env: "store_env s stored wire idle run" and waits: "waits_ok B s stored idle"
    and B: "B < 2 ^ 30" and lim: "sint limit \<le> int B" and start: "ledgers_ok B s stored w"
  shows "ledgers_ok B s stored (snd (Store_Reserve sha256 run s key objKey limit w))"
proof -
  note e = store_envD [OF env]
  obtain x a w' where ap: "Apply sha256 run s key (\<lambda>w st. Reserve st objKey limit (Now s w) (TTL s)) False w = (x, a, w')"
    by (metis prod.collapse)
  have "ledger_ok B (Now s w') (ledger stored w' n)" for n
    using reserve_op.Apply_inv [where B = B and limit = limit, OF e(1,2,4) _ _ ap]
      start waits_okD [OF waits] e(3) B lim unfolding ledgers_ok_def by blast
  then show ?thesis using ap by (simp add: Store_Reserve_def ledgers_ok_def split: option.split)
qed

lemma SweepAll_ledgers:
  assumes env: "store_env s stored wire idle run" and waits: "waits_ok B s stored idle"
    and start: "ledgers_ok B s stored w"
  shows "ledgers_ok B s stored (snd (SweepAll sha256 run s ks w))"
proof -
  obtain r w' where sw: "SweepAll sha256 run s ks w = (r, w')" by fastforce
  have "ledger_ok B (Now s w') (ledger stored w' n)" for n
    by (rule SweepAll_inv [OF env waits_okD [OF waits] _ sw])
      (use start in \<open>auto simp: ledgers_ok_def\<close>)
  then show ?thesis by (simp add: sw ledgers_ok_def)
qed

lemma ReconcileCluster_ledgers:
  assumes env: "store_env (ur_Store r) stored wire idle run" and waits: "waits_ok B (ur_Store r) stored idle"
    and B: "B < 2 ^ 30" and start: "ledgers_ok B (ur_Store r) stored w"
    and list: "ur_ListLiveKeys r cluster w = (res, w1)" "ledgers_ok B (ur_Store r) stored w1"
      "\<And>keys. res = Inr keys \<Longrightarrow> length keys \<le> B"
  shows "ledgers_ok B (ur_Store r) stored (snd (ReconcileCluster sha256 run r cluster w))"
proof (cases res)
  case (Inl e)
  then show ?thesis using list by (simp add: ReconcileCluster_def)
next
  case (Inr keys)
  note e = store_envD [OF env]
  let ?m = "\<lambda>(w :: 'a) st. (ComputeConfirmed st keys, ())"
  obtain x a w' where ap: "Apply sha256 run (ur_Store r) (cluster_key r cluster) ?m () w1 = (x, a, w')"
    by (metis prod.collapse)
  have len: "length keys \<le> B" using list(3) Inr by simp
  have "ledger_ok B (Now (ur_Store r) w') (ledger stored w' n)" for n
    using fold_op.Apply_inv [where B = B and keys = keys, OF e(1,2,4) _ _ ap]
      list(2) waits_okD [OF waits] e(3) B len unfolding ledgers_ok_def by blast
  then show ?thesis using ap Inr list(1) by (simp add: ReconcileCluster_def ledgers_ok_def)
qed

text \<open>
  C30. Every operation on the store keeps every stored ledger well formed, whatever it returns:
  the confirmed count within \<open>[0, B]\<close>, at most \<open>B\<close> live reservations and no two of them with one
  key, for any bound \<open>B < 2 ^ 30\<close> on the limits and on the number of objects of a workspace. So
  the int32 arithmetic of admission is exact on every ledger the system can hold.
\<close>

theorem store_keeps_ledgers:
  assumes env: "store_env (ur_Store r) stored wire idle run" and envu: "store_env (ur_Store r) stored wire idle run'"
    and waits: "waits_ok B (ur_Store r) stored idle" and B: "B < 2 ^ 30"
    and start: "ledgers_ok B (ur_Store r) stored w"
  shows "(sint limit \<le> int B \<longrightarrow>
      ledgers_ok B (ur_Store r) stored (snd (Store_Reserve sha256 run (ur_Store r) key objKey limit w))) \<and>
    ledgers_ok B (ur_Store r) stored (snd (SweepAll sha256 run' (ur_Store r) ks w)) \<and>
    (ur_ListLiveKeys r cluster w = (Inr keys, w) \<and> length keys \<le> B \<longrightarrow>
      ledgers_ok B (ur_Store r) stored (snd (ReconcileCluster sha256 run' r cluster w)))"
  using Store_Reserve_ledgers [OF env waits B _ start] SweepAll_ledgers [OF envu waits start]
    ReconcileCluster_ledgers [OF envu waits B start _ start]
  by fastforce

theorem store_keeps_ledgers_witness:
  "ledgers_ok 5 (demo_store (60 * second)) demo_stored
     (snd (Store_Reserve demo_sha (retry_n 2) (demo_store (60 * second)) demo_key ''ns/a'' 1 demo_world))"
proof -
  let ?r = "\<lparr>ur_Store = demo_store (60 * second), ur_Group = ''s3.example.com'', ur_Resource = ''buckets'',
    ur_IdentityHash = ''h1'', ur_ListLiveKeys = (\<lambda>c w. (Inr [''ns/a''], w))\<rparr>"
  have s: "ur_Store ?r = demo_store (60 * second)" by simp
  have env: "store_env (ur_Store ?r) demo_stored demo_wire (=) (retry_n 2 :: (demo \<times> 'z) retrier)"
    unfolding s by (rule demo_env)
  have waits: "waits_ok 5 (ur_Store ?r) demo_stored (=)" by (simp add: waits_ok_def)
  have start: "ledgers_ok 5 (ur_Store ?r) demo_stored demo_world"
    by (simp add: ledgers_ok_def ledger_def demo_stored_def demo_world_def)
  have lim: "sint (1 :: int32) \<le> int 5" by simp
  show ?thesis
    using store_keeps_ledgers [OF env env waits _ start] lim unfolding s by fastforce
qed

section \<open>Names of ledgers\<close>

text \<open>
  The object a ledger is stored in is named by its key: the name is a DNS-1123 label, and as
  long as the first sixteen bytes of SHA-256 do not collide two keys share an object only when
  they are equal. Workspaces, groups and resources hold no bar, as names of kcp and Kubernetes.
\<close>

theorem ledger_name_identifies:
  assumes "length (sha256 (raw_key k)) = 32" and "length (sha256 (raw_key k')) = 32"
    and "bar_free k" and "bar_free k'"
    and "take 16 (sha256 (raw_key k)) = take 16 (sha256 (raw_key k')) \<Longrightarrow> raw_key k = raw_key k'"
  shows "dns_label (ObjectName sha256 k) \<and> (ObjectName sha256 k = ObjectName sha256 k' \<longleftrightarrow> k = k')"
proof -
  have "ObjectName sha256 k = ObjectName sha256 k' \<longleftrightarrow>
      take 16 (sha256 (raw_key k)) = take 16 (sha256 (raw_key k'))"
    using take_EncodeToString [of 16] by (simp add: ObjectName_eq_iff EncodeToString_inject)
  with assms show ?thesis using raw_key_inject ObjectName_dns by auto
qed

theorem ledger_name_identifies_witness:
  "ObjectName (\<lambda>raw. take 32 (rev raw @ replicate 32 (CHR ''x''))) demo_key \<noteq>
   ObjectName (\<lambda>raw. take 32 (rev raw @ replicate 32 (CHR ''x''))) (demo_key\<lparr>uk_IdentityHash := ''h2''\<rparr>)"
proof -
  let ?h = "\<lambda>raw :: string. take 32 (rev raw @ replicate 32 (CHR ''x''))"
  let ?k = "demo_key\<lparr>uk_IdentityHash := ''h2''\<rparr>"
  have "length (?h (raw_key demo_key)) = 32" "length (?h (raw_key ?k)) = 32" "bar_free demo_key" "bar_free ?k"
    and "take 16 (?h (raw_key demo_key)) \<noteq> take 16 (?h (raw_key ?k))"
    by (simp_all add: demo_key_def bar_free_def raw_key_def)
  moreover have "demo_key \<noteq> ?k" by (simp add: demo_key_def)
  ultimately show ?thesis using ledger_name_identifies [of ?h demo_key ?k] by blast
qed

end
