(* ===== verification/Table.thy ===== *)
theory Table
  imports Prelude
begin

text \<open>
  The interface of a keyed collection: lookup, insert and delete, with the two laws their
  clients rely on. The limit registry, the watcher's index of known quotas and the entries of
  the installed webhook configuration provide it, each with its own representation.
\<close>

datatype ('k, 'v) table_event = Put 'k 'v | Del 'k

primrec event_key :: "('k, 'v) table_event \<Rightarrow> 'k" where
  "event_key (Put k v) = k"
| "event_key (Del k) = k"

primrec event_value :: "('k, 'v) table_event \<Rightarrow> 'v option" where
  "event_value (Put k v) = Some v"
| "event_value (Del k) = None"

text \<open>What a log of events leaves under a key: the value of the last event on it.\<close>

fun last_value :: "'k \<Rightarrow> ('k, 'v) table_event list \<Rightarrow> 'v option \<Rightarrow> 'v option" where
  "last_value k [] d = d"
| "last_value k (e # es) d = last_value k es (if event_key e = k then event_value e else d)"

lemma last_value_snoc:
  "last_value k (es @ [e]) d = (if event_key e = k then event_value e else last_value k es d)"
  by (induction es arbitrary: d) auto

lemma last_value_untouched:
  "k \<notin> event_key ` set es \<Longrightarrow> last_value k es d = d"
  by (induction es arbitrary: d) auto

primrec table_step ::
  "('k \<Rightarrow> 'v \<Rightarrow> 't \<Rightarrow> 't) \<Rightarrow> ('k \<Rightarrow> 't \<Rightarrow> 't) \<Rightarrow> ('k, 'v) table_event \<Rightarrow> 't \<Rightarrow> 't" where
  "table_step put del (Put k v) t = put k v t"
| "table_step put del (Del k) t = del k t"

definition table_run ::
  "('k \<Rightarrow> 'v \<Rightarrow> 't \<Rightarrow> 't) \<Rightarrow> ('k \<Rightarrow> 't \<Rightarrow> 't) \<Rightarrow> ('k, 'v) table_event list \<Rightarrow> 't \<Rightarrow> 't" where
  "table_run put del es t = fold (table_step put del) es t"

text \<open>
  \<open>admits k v\<close> says which values may be stored under a key: any, or those that carry the key
  in a field of their own.
\<close>

locale table =
  fixes get :: "'t \<Rightarrow> 'k \<Rightarrow> 'v option"
    and put :: "'k \<Rightarrow> 'v \<Rightarrow> 't \<Rightarrow> 't"
    and del :: "'k \<Rightarrow> 't \<Rightarrow> 't"
    and admits :: "'k \<Rightarrow> 'v \<Rightarrow> bool"
  assumes get_put: "admits k v \<Longrightarrow> get (put k v t) k' = (if k' = k then Some v else get t k')"
    and get_del: "get (del k t) k' = (if k' = k then None else get t k')"
begin

lemmas laws = get_put get_del

abbreviation admitted :: "('k, 'v) table_event \<Rightarrow> bool" where
  "admitted e \<equiv> (\<forall>v. event_value e = Some v \<longrightarrow> admits (event_key e) v)"

lemma get_step:
  "admitted e \<Longrightarrow>
     get (table_step put del e t) k = (if event_key e = k then event_value e else get t k)"
  by (cases e) (auto simp: laws)

lemma get_run:
  "\<forall>e \<in> set es. admitted e \<Longrightarrow> get (table_run put del es t) k = last_value k es (get t k)"
  by (induction es arbitrary: t) (simp_all add: table_run_def get_step)

lemma get_run_frame:
  "\<forall>e \<in> set es. admitted e \<Longrightarrow> k \<notin> event_key ` set es \<Longrightarrow> get (table_run put del es t) k = get t k"
  by (simp add: get_run last_value_untouched)

lemma get_put_put: "admits k v \<Longrightarrow> admits k w \<Longrightarrow> get (put k v (put k w t)) = get (put k v t)"
  by (rule ext) (simp add: laws)

lemma get_put_commute:
  "k \<noteq> k' \<Longrightarrow> admits k v \<Longrightarrow> admits k' v' \<Longrightarrow> get (put k v (put k' v' t)) = get (put k' v' (put k v t))"
  by (rule ext) (simp add: laws)

lemma get_put_del: "k \<noteq> k' \<Longrightarrow> admits k v \<Longrightarrow> get (put k v (del k' t)) = get (del k' (put k v t))"
  by (rule ext) (simp add: laws)

lemma get_del_put: "get t k = None \<Longrightarrow> admits k v \<Longrightarrow> get (del k (put k v t)) = get t"
  by (rule ext) (simp add: laws)

end

text \<open>A table whose emptiness can be tested, as a client that discards an empty one needs.\<close>

locale emptiable_table = table get put del admits
  for get :: "'t \<Rightarrow> 'k \<Rightarrow> 'v option" and put :: "'k \<Rightarrow> 'v \<Rightarrow> 't \<Rightarrow> 't" and del :: "'k \<Rightarrow> 't \<Rightarrow> 't"
    and admits :: "'k \<Rightarrow> 'v \<Rightarrow> bool" +
  fixes is_empty :: "'t \<Rightarrow> bool"
  assumes is_empty_iff: "is_empty t \<longleftrightarrow> (\<forall>k. get t k = None)"
begin

lemma not_empty_put: "admits k v \<Longrightarrow> \<not> is_empty (put k v t)"
  by (auto simp: is_empty_iff laws)

lemma is_empty_del: "is_empty (del k t) \<longleftrightarrow> (\<forall>k'. k' \<noteq> k \<longrightarrow> get t k' = None)"
  by (auto simp: is_empty_iff laws)

lemma del_keeps_others: "get t k' \<noteq> None \<Longrightarrow> k' \<noteq> k \<Longrightarrow> \<not> is_empty (del k t)"
  by (auto simp: is_empty_del)

end

end
