(* ===== verification/Registry.thy ===== *)
theory Registry
  imports Table
begin

text \<open>
  The webhook's in-memory index \<open>(group, resource, identity) \<mapsto> limit\<close>
  (\<open>internal/registry/registry.go\<close>). Every operation holds the mutex for its whole body, so
  each is one atomic function of the map. Go iterates over a map in an unspecified order:
  \<open>ByGroupResource\<close> takes that order as an argument, an enumeration of the keys.
\<close>

record ResourceRef =
  rf_Group :: string
  rf_Resource :: string
  rf_IdentityHash :: string

record Registry =
  limits :: "ResourceRef \<rightharpoonup> int32"

definition New :: Registry where
  "New = \<lparr>limits = Map.empty\<rparr>"

definition Set_limit :: "ResourceRef \<Rightarrow> int32 \<Rightarrow> Registry \<Rightarrow> Registry" where
  "Set_limit ref defaultLimit r = r\<lparr>limits := (limits r)(ref \<mapsto> defaultLimit)\<rparr>"

definition Delete_limit :: "ResourceRef \<Rightarrow> Registry \<Rightarrow> Registry" where
  "Delete_limit ref r = r\<lparr>limits := (limits r)(ref := None)\<rparr>"

text \<open>The consumer argument is ignored; the pair \<open>(l, ok)\<close> is an option.\<close>

definition LimitFor :: "Registry \<Rightarrow> string \<Rightarrow> ResourceRef \<Rightarrow> int32 option" where
  "LimitFor r cluster ref = limits r ref"

fun ByGroupResource_loop :: "string \<Rightarrow> string \<Rightarrow> ResourceRef list \<Rightarrow> ResourceRef list \<Rightarrow> ResourceRef list" where
  "ByGroupResource_loop g res [] out = out"
| "ByGroupResource_loop g res (ref # refs) out =
     ByGroupResource_loop g res refs
       (if rf_Group ref = g \<and> rf_Resource ref = res then out @ [ref] else out)"

definition ByGroupResource :: "ResourceRef list \<Rightarrow> string \<Rightarrow> string \<Rightarrow> ResourceRef list" where
  "ByGroupResource order g res = ByGroupResource_loop g res order []"

definition map_order :: "('k \<rightharpoonup> 'v) \<Rightarrow> 'k list \<Rightarrow> bool" where
  "map_order m order \<longleftrightarrow> distinct order \<and> set order = dom m"

interpretation limits: table "\<lambda>r. LimitFor r cluster" Set_limit Delete_limit "\<lambda>_ _. True"
  for cluster
  by unfold_locales (auto simp: LimitFor_def Set_limit_def Delete_limit_def)

lemma LimitFor_New [simp]: "LimitFor New cluster ref = None"
  by (simp add: LimitFor_def New_def)

lemma LimitFor_any_cluster: "LimitFor r c ref = LimitFor r c' ref"
  by (simp add: LimitFor_def)

lemma ByGroupResource_loop_eq:
  "ByGroupResource_loop g res refs out = out @ filter (\<lambda>ref. rf_Group ref = g \<and> rf_Resource ref = res) refs"
  by (induction refs arbitrary: out) auto

lemma set_ByGroupResource:
  "map_order (limits r) order \<Longrightarrow>
     set (ByGroupResource order g res) =
       {ref. LimitFor r c ref \<noteq> None \<and> rf_Group ref = g \<and> rf_Resource ref = res}"
  by (auto simp: ByGroupResource_def ByGroupResource_loop_eq map_order_def LimitFor_def)

lemma distinct_ByGroupResource:
  "map_order (limits r) order \<Longrightarrow> distinct (ByGroupResource order g res)"
  by (simp add: ByGroupResource_def ByGroupResource_loop_eq map_order_def)

end
