(* ===== verification/Validator.thy ===== *)
theory Validator
  imports Store Registry
begin

text \<open>
  The CREATE admission handler of \<open>internal/webhook/creation_validator.go\<close>. Decoding the
  object's JSON is an argument (\<open>unmarshal\<close> gives the annotations); the response constructors
  are those of controller-runtime's \<open>admission\<close> package, of which only \<open>Allowed\<close> admits.
\<close>

section \<open>Requests and responses\<close>

record Request =
  rq_Operation :: string
  rq_Namespace :: string
  rq_Name :: string
  rq_UID :: string
  rq_Object :: string
  rq_OldObject :: string
  rq_DryRun :: "bool option"

datatype Response = Allowed string | Denied string | Errored int go_error

primrec allowed :: "Response \<Rightarrow> bool" where
  "allowed (Allowed _) = True"
| "allowed (Denied _) = False"
| "allowed (Errored _ _) = False"

type_synonym 'w reserve_fn = "string \<Rightarrow> string \<Rightarrow> int32 \<Rightarrow> 'w \<Rightarrow> (go_error + bool) \<times> 'w"

record 'w CreationValidator =
  cv_ref :: ResourceRef
  cv_ReserveFn :: "'w reserve_fn option"

definition usage_key :: "ResourceRef \<Rightarrow> string \<Rightarrow> UsageKey" where
  "usage_key ref cluster =
     \<lparr>uk_Cluster = cluster, uk_Group = rf_Group ref, uk_Resource = rf_Resource ref,
      uk_IdentityHash = rf_IdentityHash ref\<rparr>"

text \<open>An injected \<open>ReserveFn\<close> is kept; the default reserves in the store.\<close>

definition SetResource ::
  "(string \<Rightarrow> string) \<Rightarrow> ('w \<times> bool) retrier \<Rightarrow> 'w Store \<Rightarrow> ResourceRef
     \<Rightarrow> 'w CreationValidator \<Rightarrow> 'w CreationValidator" where
  "SetResource sha256 run s ref v =
     (let v' = v\<lparr>cv_ref := ref\<rparr> in
      case cv_ReserveFn v' of
        None \<Rightarrow> v'\<lparr>cv_ReserveFn := Some (\<lambda>cluster. Store_Reserve sha256 run s (usage_key ref cluster))\<rparr>
      | Some _ \<Rightarrow> v')"

section \<open>Handle\<close>

definition AnnotationKey :: string where
  "AnnotationKey = ''kcp.io/cluster''"

definition clusterFromRequest :: "(string \<Rightarrow> (string \<rightharpoonup> string) option) \<Rightarrow> Request \<Rightarrow> string" where
  "clusterFromRequest unmarshal req =
     (let src = (if rq_Object req = [] then rq_OldObject req else rq_Object req) in
      if src = [] then []
      else case unmarshal src of
        None \<Rightarrow> []
      | Some annotations \<Rightarrow> (case annotations AnnotationKey of None \<Rightarrow> [] | Some c \<Rightarrow> c))"

definition objKey_of :: "Request \<Rightarrow> string" where
  "objKey_of req =
     (if rq_Name req = [] then ''uid:'' @ rq_UID req else ObjectKey (rq_Namespace req) (rq_Name req))"

definition not_synced_msg :: "ResourceRef \<Rightarrow> string" where
  "not_synced_msg ref = ''consumption quota policy for '' @ rf_Resource ref @ ''.'' @ rf_Group ref
     @ '' not yet synced; denying (fail-closed)''"

definition exceeded_msg :: "int32 \<Rightarrow> ResourceRef \<Rightarrow> string" where
  "exceeded_msg limit ref = ''consumption quota exceeded: at most '' @ Itoa (sint limit) @ '' ''
     @ rf_Resource ref @ '' per workspace''"

text \<open>\<open>None\<close> is the panic of calling a nil \<open>ReserveFn\<close>, on a validator without \<open>SetResource\<close>.\<close>

definition Handle ::
  "(string \<Rightarrow> (string \<rightharpoonup> string) option) \<Rightarrow> Registry \<Rightarrow> 'w CreationValidator \<Rightarrow> Request \<Rightarrow> 'w
     \<Rightarrow> Response option \<times> 'w" where
  "Handle unmarshal reg v req w =
     (if rq_Operation req \<noteq> ''CREATE'' then (Some (Allowed ''not a create''), w)
      else
        let cluster = clusterFromRequest unmarshal req in
        if cluster = [] then
          (Some (Errored 400 (ErrMsg ''missing kcp.io/cluster on object'')), w)
        else case LimitFor reg cluster (cv_ref v) of
          None \<Rightarrow> (Some (Errored 500 (ErrMsg (not_synced_msg (cv_ref v)))), w)
        | Some limit \<Rightarrow>
            (case cv_ReserveFn v of
               None \<Rightarrow> (None, w)
             | Some reserveFn \<Rightarrow>
                 (case reserveFn cluster (objKey_of req) limit w of
                    (Inl err, w') \<Rightarrow> (Some (Errored 500 err), w')
                  | (Inr ok, w') \<Rightarrow>
                      if \<not> ok then (Some (Denied (exceeded_msg limit (cv_ref v))), w')
                      else (Some (Allowed ''within quota''), w'))))"

section \<open>What an answer means\<close>

context reserve_port
begin

text \<open>
  An admitted CREATE names its workspace, has a synced limit and holds its slot; a quota
  denial means the ledger was full; nothing else reaches the ledger.
\<close>

lemma Handle_allowed:
  assumes fn: "cv_ReserveFn v = Some reserve" and create: "rq_Operation req = ''CREATE''"
    and res: "Handle unmarshal reg v req w = (Some r, w')" and ok: "allowed r"
  shows "\<exists>limit. clusterFromRequest unmarshal req \<noteq> [] \<and>
    LimitFor reg (clusterFromRequest unmarshal req) (cv_ref v) = Some limit \<and>
    reserve (clusterFromRequest unmarshal req) (objKey_of req) limit w = (Inr True, w') \<and>
    holds (clusterFromRequest unmarshal req) (objKey_of req) w w'"
  using assms reserve_granted
  by (fastforce simp: Handle_def Let_def split: if_splits option.splits prod.splits sum.splits)

lemma Handle_denied:
  assumes fn: "cv_ReserveFn v = Some reserve" and res: "Handle unmarshal reg v req w = (Some (Denied msg), w')"
  shows "\<exists>limit. LimitFor reg (clusterFromRequest unmarshal req) (cv_ref v) = Some limit \<and>
    msg = exceeded_msg limit (cv_ref v) \<and> full (clusterFromRequest unmarshal req) limit w w'"
  using assms reserve_denied
  by (fastforce simp: Handle_def Let_def split: if_splits option.splits prod.splits sum.splits)

end

lemma SetResource_default:
  "cv_ReserveFn v = None \<Longrightarrow>
     cv_ReserveFn (SetResource sha256 run s ref v) = Some (\<lambda>cluster. Store_Reserve sha256 run s (usage_key ref cluster))"
  by (simp add: SetResource_def)

lemma SetResource_ref [simp]: "cv_ref (SetResource sha256 run s ref v) = ref"
  by (simp add: SetResource_def Let_def split: option.split)

lemma SetResource_injected:
  "cv_ReserveFn v = Some f \<Longrightarrow> cv_ReserveFn (SetResource sha256 run s ref v) = Some f"
  by (simp add: SetResource_def)

text \<open>The branches that never reserve leave the world alone.\<close>

lemma Handle_no_reserve:
  assumes "rq_Operation req \<noteq> ''CREATE'' \<or> clusterFromRequest unmarshal req = [] \<or>
    LimitFor reg (clusterFromRequest unmarshal req) (cv_ref v) = None"
  shows "snd (Handle unmarshal reg v req w) = w"
  using assms by (auto simp: Handle_def Let_def)

text \<open>Keys of named and unnamed requests never meet, and distinct UIDs give distinct keys.\<close>

lemma objKey_of_inject:
  assumes "name_ok (rq_Namespace req)" "name_ok (rq_Name req)"
    and "name_ok (rq_Namespace req')" "name_ok (rq_Name req')"
    and "objKey_of req = objKey_of req'"
  shows "rq_Name req = rq_Name req' \<and>
    (if rq_Name req = [] then rq_UID req = rq_UID req' else rq_Namespace req = rq_Namespace req')"
  using assms ObjectKey_not_uid ObjectKey_inject
  by (auto simp: objKey_of_def split: if_splits) (metis)+

end
