(* ===== verification/Dispatch.thy ===== *)
theory Dispatch
  imports Validator
begin

text \<open>
  The webhook's HTTP dispatcher (\<open>cmd/webhook/dispatch.go\<close>): refuse until the registry is
  populated, parse the mount path into an identity, and serve it with the validator of that
  identity, built on first use and cached. What serves the request afterwards
  (\<open>admission.Webhook\<close> around \<open>Handle\<close>) is the result \<open>Serve\<close>.
\<close>

section \<open>Paths\<close>

definition validate_prefix :: string where
  "validate_prefix = ''/validate/''"

definition parseValidatePath :: "string \<Rightarrow> ResourceRef option" where
  "parseValidatePath p =
     (if \<not> HasPrefix p validate_prefix then None
      else
        let parts = Split (TrimPrefix p validate_prefix) (CHR ''/'') in
        if length parts \<noteq> 3 then None
        else if parts ! 1 = [] \<or> parts ! 2 = [] then None
        else Some \<lparr>rf_Group = parts ! 0, rf_Resource = parts ! 1, rf_IdentityHash = parts ! 2\<rparr>)"

definition validate_path :: "ResourceRef \<Rightarrow> string" where
  "validate_path ref = validate_prefix @ rf_Group ref @ ''/'' @ rf_Resource ref @ ''/'' @ rf_IdentityHash ref"

text \<open>The identities a path can carry: the group may be empty, the other segments may not.\<close>

definition routable :: "ResourceRef \<Rightarrow> bool" where
  "routable ref \<longleftrightarrow>
     CHR ''/'' \<notin> set (rf_Group ref) \<and> CHR ''/'' \<notin> set (rf_Resource ref) \<and>
     CHR ''/'' \<notin> set (rf_IdentityHash ref) \<and> rf_Resource ref \<noteq> [] \<and> rf_IdentityHash ref \<noteq> []"

lemma Split_three:
  "CHR ''/'' \<notin> set a \<Longrightarrow> CHR ''/'' \<notin> set b \<Longrightarrow> CHR ''/'' \<notin> set c \<Longrightarrow>
     Split (a @ CHR ''/'' # b @ CHR ''/'' # c) (CHR ''/'') = [a, b, c]"
  by (simp add: Split_sep Split_no_sep)

lemma parse_validate_path: "routable ref \<Longrightarrow> parseValidatePath (validate_path ref) = Some ref"
  by (simp add: parseValidatePath_def validate_path_def routable_def Split_three Let_def)

lemma parse_sound:
  assumes "parseValidatePath p = Some ref"
  shows "routable ref \<and> p = validate_path ref"
proof -
  let ?s = "TrimPrefix p validate_prefix"
  from assms have p: "p = validate_prefix @ ?s" and len: "length (Split ?s (CHR ''/'')) = 3"
    by (auto simp: parseValidatePath_def HasPrefix_iff Let_def split: if_splits)
  then obtain a b c where parts: "Split ?s (CHR ''/'') = [a, b, c]"
    by (auto simp: length_Suc_conv numeral_3_eq_3)
  have ref: "ref = \<lparr>rf_Group = a, rf_Resource = b, rf_IdentityHash = c\<rparr>" and ne: "b \<noteq> []" "c \<noteq> []"
    using assms by (auto simp: parseValidatePath_def parts Let_def split: if_splits)
  have "CHR ''/'' \<notin> set a" "CHR ''/'' \<notin> set b" "CHR ''/'' \<notin> set c"
    using Split_parts [of _ ?s "CHR ''/''"] parts by auto
  moreover have "?s = a @ CHR ''/'' # b @ CHR ''/'' # c"
    using join_Split [of "CHR ''/''" ?s] by (simp add: parts)
  ultimately show ?thesis using ref ne p by (simp add: routable_def validate_path_def)
qed

section \<open>The dispatcher\<close>

record 'w validatorDispatcher =
  vd_initialized :: bool
  vd_handlers :: "ResourceRef \<rightharpoonup> 'w CreationValidator"

definition newValidatorDispatcher :: "bool \<Rightarrow> 'w validatorDispatcher" where
  "newValidatorDispatcher initialized = \<lparr>vd_initialized = initialized, vd_handlers = Map.empty\<rparr>"

datatype 'w served = HttpError nat string | Serve "'w CreationValidator"

definition handlerFor ::
  "(string \<Rightarrow> string) \<Rightarrow> ('w \<times> bool) retrier \<Rightarrow> 'w Store \<Rightarrow> ResourceRef
     \<Rightarrow> 'w validatorDispatcher \<Rightarrow> 'w CreationValidator \<times> 'w validatorDispatcher" where
  "handlerFor sha256 run s ref d =
     (case vd_handlers d ref of
        Some h \<Rightarrow> (h, d)
      | None \<Rightarrow>
          let v = \<lparr>cv_ref = \<lparr>rf_Group = [], rf_Resource = [], rf_IdentityHash = []\<rparr>, cv_ReserveFn = None\<rparr>;
              h = SetResource sha256 run s ref v
          in (h, d\<lparr>vd_handlers := (vd_handlers d)(ref \<mapsto> h)\<rparr>))"

definition ServeHTTP ::
  "(string \<Rightarrow> string) \<Rightarrow> ('w \<times> bool) retrier \<Rightarrow> 'w Store \<Rightarrow> string
     \<Rightarrow> 'w validatorDispatcher \<Rightarrow> 'w served \<times> 'w validatorDispatcher" where
  "ServeHTTP sha256 run s path d =
     (if \<not> vd_initialized d then (HttpError 503 ''quota registry not yet populated'', d)
      else case parseValidatePath path of
        None \<Rightarrow>
          (HttpError 404 ''invalid validate path, expected /validate/{group}/{resource}/{identityHash}'', d)
      | Some ref \<Rightarrow> (case handlerFor sha256 run s ref d of (h, d') \<Rightarrow> (Serve h, d')))"

text \<open>Every cached validator is bound to the identity it is cached under, and to the store.\<close>

definition bound_validator ::
  "(string \<Rightarrow> string) \<Rightarrow> ('w \<times> bool) retrier \<Rightarrow> 'w Store \<Rightarrow> ResourceRef \<Rightarrow> 'w CreationValidator" where
  "bound_validator sha256 run s ref =
     \<lparr>cv_ref = ref, cv_ReserveFn = Some (\<lambda>cluster. Store_Reserve sha256 run s (usage_key ref cluster))\<rparr>"

definition dispatch_inv ::
  "(string \<Rightarrow> string) \<Rightarrow> ('w \<times> bool) retrier \<Rightarrow> 'w Store \<Rightarrow> 'w validatorDispatcher \<Rightarrow> bool" where
  "dispatch_inv sha256 run s d \<longleftrightarrow>
     (\<forall>ref h. vd_handlers d ref = Some h \<longrightarrow> h = bound_validator sha256 run s ref)"

lemma dispatch_inv_new: "dispatch_inv sha256 run s (newValidatorDispatcher b)"
  by (simp add: dispatch_inv_def newValidatorDispatcher_def)

lemma handlerFor_bound:
  assumes "dispatch_inv sha256 run s d" and "handlerFor sha256 run s ref d = (h, d')"
  shows "h = bound_validator sha256 run s ref" and "dispatch_inv sha256 run s d'"
    and "vd_initialized d' = vd_initialized d" and "vd_handlers d' ref = Some h"
  using assms
  by (auto simp: handlerFor_def dispatch_inv_def bound_validator_def SetResource_def Let_def
      split: option.splits if_splits)

text \<open>Serving any sequence of requests keeps the cache bound.\<close>

definition serve_all ::
  "(string \<Rightarrow> string) \<Rightarrow> ('w \<times> bool) retrier \<Rightarrow> 'w Store \<Rightarrow> string list
     \<Rightarrow> 'w validatorDispatcher \<Rightarrow> 'w validatorDispatcher" where
  "serve_all sha256 run s paths d = fold (\<lambda>p d. snd (ServeHTTP sha256 run s p d)) paths d"

lemma ServeHTTP_inv:
  "dispatch_inv sha256 run s d \<Longrightarrow> dispatch_inv sha256 run s (snd (ServeHTTP sha256 run s p d))
     \<and> vd_initialized (snd (ServeHTTP sha256 run s p d)) = vd_initialized d"
  by (auto simp: ServeHTTP_def handlerFor_bound split: option.splits prod.splits)

lemma serve_all_inv:
  "dispatch_inv sha256 run s d \<Longrightarrow> dispatch_inv sha256 run s (serve_all sha256 run s ps d)
     \<and> vd_initialized (serve_all sha256 run s ps d) = vd_initialized d"
proof (induction ps arbitrary: d)
  case (Cons p ps)
  then show ?case using ServeHTTP_inv [OF Cons.prems, of p] by (simp add: serve_all_def)
qed (simp add: serve_all_def)

lemma ServeHTTP_routes:
  assumes "dispatch_inv sha256 run s d"
  shows "fst (ServeHTTP sha256 run s p d) =
    (if \<not> vd_initialized d then HttpError 503 ''quota registry not yet populated''
     else case parseValidatePath p of
       None \<Rightarrow> HttpError 404 ''invalid validate path, expected /validate/{group}/{resource}/{identityHash}''
     | Some ref \<Rightarrow> Serve (bound_validator sha256 run s ref))"
  using handlerFor_bound(1) [OF assms]
  by (auto simp: ServeHTTP_def split: option.splits prod.splits)

end
