(* ===== verification/Webhook_Properties.thy ===== *)
theory Webhook_Properties
  imports Demo_Server Dispatch
begin

text \<open>
  The properties of the admission path: from the URL of a request, through the dispatcher and
  the validator bound to an identity, to the stored ledger.
\<close>

section \<open>The validator's decision\<close>

text \<open>
  C22. The decision of the validator the dispatcher serves is total and fail-closed: it always
  answers, every operation but CREATE passes, and a CREATE is admitted exactly when it names its
  workspace, the identity has a synced limit and the store grants the reservation; a missing
  annotation, a policy not yet synced and a store error refuse it.
\<close>

theorem validator_decision:
  "\<exists>r. fst (Handle unmarshal reg (bound_validator sha256 run s ref) req w) = Some r \<and>
    (allowed r \<longleftrightarrow> (if rq_Operation req = ''CREATE'' then
       clusterFromRequest unmarshal req \<noteq> [] \<and>
       (\<exists>limit. LimitFor reg (clusterFromRequest unmarshal req) ref = Some limit \<and>
          fst (Store_Reserve sha256 run s (usage_key ref (clusterFromRequest unmarshal req))
            (objKey_of req) limit w) = Inr True) else True))"
  by (auto simp: Handle_def Let_def bound_validator_def split: option.splits prod.splits sum.splits)

text \<open>
  An admitted CREATE holds its slot: the identity has a synced limit, and the object's key is
  a live reservation in the ledger of its workspace and identity.
\<close>

lemma bound_create_holds_slot:
  assumes env: "store_env s stored wire idle run" and ttl: "second \<le> TTL s"
    and create: "rq_Operation req = ''CREATE''"
    and res: "Handle unmarshal reg (bound_validator sha256 run s ref) req w = (Some r, w')"
    and ok: "allowed r"
  shows "clusterFromRequest unmarshal req \<noteq> [] \<and>
    LimitFor reg (clusterFromRequest unmarshal req) ref \<noteq> None \<and>
    slot_held stored s (ObjectName sha256 (usage_key ref (clusterFromRequest unmarshal req)))
      (objKey_of req) w w'"
proof -
  let ?v = "bound_validator sha256 run s ref"
  have fn: "cv_ReserveFn ?v = Some (\<lambda>cluster. Store_Reserve sha256 run s (usage_key ref cluster))"
    and "cv_ref ?v = ref"
    by (simp_all add: bound_validator_def)
  with store_port.Handle_allowed [OF fn create res ok, of stored wire idle] env ttl show ?thesis by auto
qed

definition demo_ref :: ResourceRef where
  "demo_ref = \<lparr>rf_Group = ''s3.example.com'', rf_Resource = ''buckets'', rf_IdentityHash = ''h1''\<rparr>"

definition demo_unmarshal :: "string \<Rightarrow> (string \<rightharpoonup> string) option" where
  "demo_unmarshal src = Some [AnnotationKey \<mapsto> ''root:c1'']"

definition demo_create_request :: "string \<Rightarrow> Request" where
  "demo_create_request n = \<lparr>rq_Operation = ''CREATE'', rq_Namespace = ''ns'', rq_Name = n, rq_UID = ''u'',
     rq_Object = ''obj'', rq_OldObject = [], rq_DryRun = None\<rparr>"

abbreviation demo_handle :: "int32 \<Rightarrow> string \<Rightarrow> demo \<Rightarrow> Response option \<times> demo" where
  "demo_handle limit n w \<equiv>
     Handle demo_unmarshal (Set_limit demo_ref limit New)
       (bound_validator demo_sha (retry_n 2) (demo_store (60 * second)) demo_ref) (demo_create_request n) w"

text \<open>
  C23. A quota denial is justified: the message names the synced limit, and the stored ledger of
  the workspace was at or over it at a time within the call.
\<close>

theorem denied_create_was_full:
  assumes env: "store_env s stored wire idle run"
    and res: "Handle unmarshal reg (bound_validator sha256 run s ref) req w = (Some (Denied msg), w')"
  shows "\<exists>limit. LimitFor reg (clusterFromRequest unmarshal req) ref = Some limit \<and>
    msg = exceeded_msg limit ref \<and>
    ledger_full stored s (ObjectName sha256 (usage_key ref (clusterFromRequest unmarshal req))) limit w w'"
proof -
  let ?v = "bound_validator sha256 run s ref"
  have fn: "cv_ReserveFn ?v = Some (\<lambda>cluster. Store_Reserve sha256 run s (usage_key ref cluster))"
    and "cv_ref ?v = ref"
    by (simp_all add: bound_validator_def)
  with store_port.Handle_denied [OF fn res, of stored wire idle] env show ?thesis by auto
qed

theorem denied_create_was_full_witness:
  "\<exists>limit. exceeded_msg 1 demo_ref = exceeded_msg limit demo_ref \<and>
    ledger_full demo_stored (demo_store (60 * second)) (ObjectName demo_sha (usage_key demo_ref ''root:c1'')) limit
      (snd (demo_handle 1 ''a'' demo_world)) (snd (demo_handle 1 ''b'' (snd (demo_handle 1 ''a'' demo_world))))"
proof -
  let ?h = "demo_handle 1 ''b'' (snd (demo_handle 1 ''a'' demo_world))"
  have "fst ?h = Some (Denied (exceeded_msg 1 demo_ref))" by code_simp
  then have h: "?h = (Some (Denied (exceeded_msg 1 demo_ref)), snd ?h)" by (metis prod.collapse)
  have "clusterFromRequest demo_unmarshal (demo_create_request ''b'') = ''root:c1''" by code_simp
  then show ?thesis using denied_create_was_full [OF demo_env h] by auto
qed

section \<open>Routing\<close>

text \<open>
  C38. The path parser and the path format are inverse to each other: \<open>parseValidatePath\<close> accepts
  exactly the paths \<open>/validate/g/r/i\<close> with slash-free parts and non-empty \<open>r\<close> and \<open>i\<close>, and returns
  those parts.
\<close>

theorem parse_path_iff:
  "parseValidatePath p = Some ref \<longleftrightarrow> routable ref \<and> p = validate_path ref"
  using parse_validate_path parse_sound by blast

text \<open>
  After any sequence of requests the dispatcher answers a path by its content alone: 503 until
  the registry is populated, 404 for a path that names no identity, and otherwise the validator
  bound to exactly the identity of the path, from the cache or new.
\<close>

theorem dispatcher_routes:
  "fst (ServeHTTP sha256 run s p (serve_all sha256 run s ps (newValidatorDispatcher initialized))) =
    (if \<not> initialized then HttpError 503 ''quota registry not yet populated''
     else case parseValidatePath p of
       None \<Rightarrow> HttpError 404 ''invalid validate path, expected /validate/{group}/{resource}/{identityHash}''
     | Some ref \<Rightarrow> Serve (bound_validator sha256 run s ref))"
proof -
  have "dispatch_inv sha256 run s (serve_all sha256 run s ps (newValidatorDispatcher initialized)) \<and>
      vd_initialized (serve_all sha256 run s ps (newValidatorDispatcher initialized)) = initialized"
    using serve_all_inv [OF dispatch_inv_new] by (simp add: newValidatorDispatcher_def)
  then show ?thesis by (simp add: ServeHTTP_routes)
qed

end
