(* ===== verification/Installer.thy ===== *)
theory Installer
  imports Dispatch Api
begin

text \<open>
  The webhook installer (\<open>internal/controller/webhook_installer.go\<close>): a read-modify-write of
  the one \<open>ValidatingWebhookConfiguration\<close> named \<open>consumption-quota\<close> in the provider
  workspace, with one entry per governed identity. The client of the provider workspace is an
  argument, \<open>controllerutil.CreateOrUpdate\<close> included; \<open>vwc_laws\<close> states what they document.
\<close>

section \<open>Webhook entries\<close>

record Rule =
  rl_Operations :: "string list"
  rl_APIGroups :: "string list"
  rl_APIVersions :: "string list"
  rl_Resources :: "string list"

record ValidatingWebhook =
  wh_Name :: string
  wh_AdmissionReviewVersions :: "string list"
  wh_URL :: string
  wh_CABundle :: string
  wh_FailurePolicy :: string
  wh_SideEffects :: string
  wh_TimeoutSeconds :: int
  wh_Rules :: "Rule list"

record VWC =
  vwc_Name :: string
  vwc_ResourceVersion :: nat
  vwc_Webhooks :: "ValidatingWebhook list"

record WebhookInstaller =
  wi_WebhookBaseURL :: string
  wi_CABundle :: string

definition NewWebhookInstaller :: "string \<Rightarrow> string \<Rightarrow> WebhookInstaller" where
  "NewWebhookInstaller webhookBaseURL caBundle =
     \<lparr>wi_WebhookBaseURL = webhookBaseURL, wi_CABundle = caBundle\<rparr>"

record webhookRuleKey =
  wk_Group :: string
  wk_Version :: string
  wk_Resource :: string
  wk_IdentityHash :: string

definition rule_key :: "ConsumptionQuota \<Rightarrow> webhookRuleKey" where
  "rule_key cq =
     (let g = cs_Governed (cq_Spec cq) in
      \<lparr>wk_Group = gr_Group g, wk_Version = gr_Version g, wk_Resource = gr_Resource g,
       wk_IdentityHash = ct_IdentityHash (cq_Status cq)\<rparr>)"

definition webhookEntryName :: "webhookRuleKey \<Rightarrow> string" where
  "webhookEntryName key =
     (let iden = truncate_to 32 (wk_IdentityHash key); resource = truncate_to 30 (wk_Resource key)
      in resource @ ''-'' @ iden @ ''.quota.opendefense.cloud'')"

definition webhookURL :: "WebhookInstaller \<Rightarrow> webhookRuleKey \<Rightarrow> string" where
  "webhookURL i key =
     wi_WebhookBaseURL i @ ''/validate/'' @ wk_Group key @ ''/'' @ wk_Resource key @ ''/'' @ wk_IdentityHash key"

definition buildWebhookEntry :: "WebhookInstaller \<Rightarrow> webhookRuleKey \<Rightarrow> ValidatingWebhook" where
  "buildWebhookEntry i key =
     \<lparr>wh_Name = webhookEntryName key,
      wh_AdmissionReviewVersions = [''v1''],
      wh_URL = webhookURL i key,
      wh_CABundle = wi_CABundle i,
      wh_FailurePolicy = ''Fail'',
      wh_SideEffects = ''None'',
      wh_TimeoutSeconds = 10,
      wh_Rules = [\<lparr>rl_Operations = [''CREATE''], rl_APIGroups = [wk_Group key],
                   rl_APIVersions = [''*''], rl_Resources = [wk_Resource key]\<rparr>]\<rparr>"

section \<open>The list of entries\<close>

text \<open>The mutate function of \<open>Reconcile\<close>: replace the first entry of that name, or append.\<close>

fun upsert_entry :: "string \<Rightarrow> ValidatingWebhook \<Rightarrow> ValidatingWebhook list \<Rightarrow> ValidatingWebhook list" where
  "upsert_entry entryName newEntry [] = [newEntry]"
| "upsert_entry entryName newEntry (wh # whs) =
     (if wh_Name wh = entryName then newEntry # whs else wh # upsert_entry entryName newEntry whs)"

fun remove_entry_loop ::
  "string \<Rightarrow> ValidatingWebhook list \<Rightarrow> ValidatingWebhook list \<Rightarrow> ValidatingWebhook list" where
  "remove_entry_loop entryName [] filtered = filtered"
| "remove_entry_loop entryName (wh # whs) filtered =
     remove_entry_loop entryName whs (if wh_Name wh \<noteq> entryName then filtered @ [wh] else filtered)"

definition remove_entry :: "string \<Rightarrow> ValidatingWebhook list \<Rightarrow> ValidatingWebhook list" where
  "remove_entry entryName whs = remove_entry_loop entryName whs []"

definition get_entry :: "string \<Rightarrow> ValidatingWebhook list \<Rightarrow> ValidatingWebhook option" where
  "get_entry n whs = find (\<lambda>wh. wh_Name wh = n) whs"

lemma remove_entry_eq [simp]: "remove_entry n whs = filter (\<lambda>wh. wh_Name wh \<noteq> n) whs"
proof -
  have "remove_entry_loop n whs acc = acc @ filter (\<lambda>wh. wh_Name wh \<noteq> n) whs" for acc
    by (induction whs arbitrary: acc) auto
  then show ?thesis by (simp add: remove_entry_def)
qed

lemma get_entry_simps [simp]:
  "get_entry n [] = None"
  "get_entry n (wh # whs) = (if wh_Name wh = n then Some wh else get_entry n whs)"
  by (simp_all add: get_entry_def)

lemma get_upsert:
  "wh_Name e = n \<Longrightarrow> get_entry m (upsert_entry n e whs) = (if m = n then Some e else get_entry m whs)"
  by (induction whs) auto

lemma get_remove: "get_entry m (remove_entry n whs) = (if m = n then None else get_entry m whs)"
  by (induction whs) auto

lemma get_entry_mem: "get_entry n whs = Some wh \<Longrightarrow> wh \<in> set whs \<and> wh_Name wh = n"
  by (induction whs) (auto split: if_splits)

interpretation entries: emptiable_table
  "\<lambda>whs n. get_entry n whs" upsert_entry remove_entry "\<lambda>n e. wh_Name e = n" "\<lambda>whs. whs = []"
proof unfold_locales
  fix t :: "ValidatingWebhook list"
  show "t = [] \<longleftrightarrow> (\<forall>k. get_entry k t = None)"
    by (cases t) auto
qed (auto simp: get_upsert get_remove simp del: remove_entry_eq)

text \<open>Names stay distinct, and the order of the other entries is kept.\<close>

lemma names_upsert:
  "map wh_Name (upsert_entry n e whs) = (if n \<in> wh_Name ` set whs then map wh_Name whs else map wh_Name whs @ [n])"
  if "wh_Name e = n"
  using that by (induction whs) auto

lemma distinct_upsert:
  "wh_Name e = n \<Longrightarrow> distinct (map wh_Name whs) \<Longrightarrow> distinct (map wh_Name (upsert_entry n e whs))"
  by (auto simp: names_upsert)

lemma others_upsert:
  "wh_Name e = n \<Longrightarrow> remove_entry n (upsert_entry n e whs) = remove_entry n whs" if "distinct (map wh_Name whs)"
  using that by (induction whs) (auto intro: filter_cong)

lemma upsert_idem: "wh_Name e = n \<Longrightarrow> upsert_entry n e (upsert_entry n e whs) = upsert_entry n e whs"
  by (induction whs) auto

lemma buildWebhookEntry_name [simp]: "wh_Name (buildWebhookEntry i key) = webhookEntryName key"
  by (simp add: buildWebhookEntry_def)

section \<open>Entry names\<close>

lemma webhookEntryName_length:
  "length (take 30 (wk_Resource key) @ ''-'' @ take 32 (wk_IdentityHash key)) \<le> 63"
  by simp

lemma webhookEntryName_eq:
  "webhookEntryName key =
     (take 30 (wk_Resource key) @ ''-'' @ take 32 (wk_IdentityHash key)) @ ''.quota.opendefense.cloud''"
  by (simp add: webhookEntryName_def Let_def)

text \<open>Identity hashes are hexadecimal: without a dash the name determines both its parts.\<close>

lemma webhookEntryName_inject:
  assumes "CHR ''-'' \<notin> set (wk_IdentityHash k)" and "CHR ''-'' \<notin> set (wk_IdentityHash k')"
  shows "webhookEntryName k = webhookEntryName k' \<longleftrightarrow>
    take 30 (wk_Resource k) = take 30 (wk_Resource k') \<and>
    take 32 (wk_IdentityHash k) = take 32 (wk_IdentityHash k')"
proof -
  let ?i = "take 32 (wk_IdentityHash k)" and ?i' = "take 32 (wk_IdentityHash k')"
  let ?r = "take 30 (wk_Resource k)" and ?r' = "take 30 (wk_Resource k')"
  have free: "CHR ''-'' \<notin> set (rev ?i)" "CHR ''-'' \<notin> set (rev ?i')"
    using assms by (auto dest: in_set_takeD)
  have "webhookEntryName k = webhookEntryName k' \<longleftrightarrow> ?r @ CHR ''-'' # ?i = ?r' @ CHR ''-'' # ?i'"
    by (simp add: webhookEntryName_eq)
  also have "\<dots> \<longleftrightarrow> rev (?r @ CHR ''-'' # ?i) = rev (?r' @ CHR ''-'' # ?i')"
    by (simp only: rev_is_rev_conv)
  also have "\<dots> \<longleftrightarrow> rev ?i @ CHR ''-'' # rev ?r = rev ?i' @ CHR ''-'' # rev ?r'"
    by simp
  also have "\<dots> \<longleftrightarrow> ?r = ?r' \<and> ?i = ?i'"
    using sep_inject [OF free] by auto
  finally show ?thesis .
qed


section \<open>Reconcile and Remove\<close>

record 'w VWCClient =
  vc_Get :: "'w \<Rightarrow> (api_error + VWC) \<times> 'w"
  vc_Update :: "VWC \<Rightarrow> 'w \<Rightarrow> api_error option \<times> 'w"
  vc_Delete :: "VWC \<Rightarrow> 'w \<Rightarrow> api_error option \<times> 'w"
  vc_CreateOrUpdate :: "VWC \<Rightarrow> (VWC \<Rightarrow> VWC) \<Rightarrow> 'w \<Rightarrow> go_error option \<times> 'w"

definition quotaWebhookName :: string where
  "quotaWebhookName = ''consumption-quota''"

definition new_vwc :: VWC where
  "new_vwc = \<lparr>vwc_Name = quotaWebhookName, vwc_ResourceVersion = 0, vwc_Webhooks = []\<rparr>"

definition mutate_vwc :: "string \<Rightarrow> ValidatingWebhook \<Rightarrow> VWC \<Rightarrow> VWC" where
  "mutate_vwc entryName newEntry vwc =
     vwc\<lparr>vwc_Webhooks := upsert_entry entryName newEntry (vwc_Webhooks vwc)\<rparr>"

definition Installer_Reconcile ::
  "'w VWCClient \<Rightarrow> WebhookInstaller \<Rightarrow> ConsumptionQuota \<Rightarrow> 'w \<Rightarrow> go_error option \<times> 'w" where
  "Installer_Reconcile c i cq w =
     (if ct_IdentityHash (cq_Status cq) = [] then (None, w)
      else
        let key = rule_key cq; entryName = webhookEntryName key; newEntry = buildWebhookEntry i key in
        case vc_CreateOrUpdate c new_vwc (mutate_vwc entryName newEntry) w of
          (Some err, w') \<Rightarrow> (Some (ErrWrap (''upserting VWC entry '' @ entryName) err), w')
        | (None, w') \<Rightarrow> (None, w'))"

definition Installer_Remove ::
  "'w VWCClient \<Rightarrow> ConsumptionQuota \<Rightarrow> 'w \<Rightarrow> go_error option \<times> 'w" where
  "Installer_Remove c cq w =
     (let entryName = webhookEntryName (rule_key cq) in
      case vc_Get c w of
        (Inl e, w1) \<Rightarrow>
          (if e = NotFound then None
           else Some (ErrWrap (''getting VWC '' @ quotaWebhookName) (ErrAPI e)), w1)
      | (Inr existing, w1) \<Rightarrow>
          let filtered = remove_entry entryName (vwc_Webhooks existing) in
          if filtered = [] then
            (case vc_Delete c existing w1 of
               (Some e, w2) \<Rightarrow> (if e = NotFound then None else Some (ErrWrap ''deleting VWC'' (ErrAPI e)), w2)
             | (None, w2) \<Rightarrow> (None, w2))
          else
            (case vc_Update c (existing\<lparr>vwc_Webhooks := filtered\<rparr>) w1 of
               (Some e, w2) \<Rightarrow> (Some (ErrWrap ''updating VWC'' (ErrAPI e)), w2)
             | (None, w2) \<Rightarrow> (None, w2)))"

section \<open>What the provider workspace's API server documents\<close>

definition vwc_get_law :: "'w VWCClient \<Rightarrow> ('w \<Rightarrow> VWC option) \<Rightarrow> bool" where
  "vwc_get_law c stored \<longleftrightarrow> (\<forall>w r w'. vc_Get c w = (r, w') \<longrightarrow> stored w' = stored w \<and>
     (\<forall>v. r = Inr v \<longrightarrow> stored w = Some v) \<and> (r = Inl NotFound \<longrightarrow> stored w = None))"

definition vwc_update_law :: "'w VWCClient \<Rightarrow> ('w \<Rightarrow> VWC option) \<Rightarrow> bool" where
  "vwc_update_law c stored \<longleftrightarrow> (\<forall>v w r w'. vc_Update c v w = (r, w') \<longrightarrow>
     (\<exists>old v'. stored w = Some old \<and> vwc_ResourceVersion old = vwc_ResourceVersion v \<and>
        stored w' = Some v' \<and> vwc_Webhooks v' = vwc_Webhooks v)
     \<or> r \<noteq> None \<and> stored w' = stored w)"

definition vwc_delete_law :: "'w VWCClient \<Rightarrow> ('w \<Rightarrow> VWC option) \<Rightarrow> bool" where
  "vwc_delete_law c stored \<longleftrightarrow> (\<forall>v w r w'. vc_Delete c v w = (r, w') \<longrightarrow>
     stored w' = None \<or> (\<exists>e. r = Some e \<and> e \<noteq> NotFound) \<and> stored w' = stored w)"

definition vwc_upsert_law :: "'w VWCClient \<Rightarrow> ('w \<Rightarrow> VWC option) \<Rightarrow> bool" where
  "vwc_upsert_law c stored \<longleftrightarrow> (\<forall>v f w r w'. vc_CreateOrUpdate c v f w = (r, w') \<longrightarrow>
     (\<exists>v'. stored w' = Some v' \<and>
        vwc_Webhooks v' = vwc_Webhooks (f (case stored w of None \<Rightarrow> v | Some old \<Rightarrow> old)))
     \<or> r \<noteq> None \<and> stored w' = stored w)"

definition vwc_laws :: "'w VWCClient \<Rightarrow> ('w \<Rightarrow> VWC option) \<Rightarrow> bool" where
  "vwc_laws c stored \<longleftrightarrow> vwc_get_law c stored \<and> vwc_update_law c stored \<and>
     vwc_delete_law c stored \<and> vwc_upsert_law c stored"

definition installed :: "('w \<Rightarrow> VWC option) \<Rightarrow> 'w \<Rightarrow> ValidatingWebhook list" where
  "installed stored w = (case stored w of None \<Rightarrow> [] | Some v \<Rightarrow> vwc_Webhooks v)"

text \<open>
  Each operation changes the installed entries as its list function says, or leaves them as
  they were and returns an error (or, for a write whose answer was lost, changes them and
  returns an error).
\<close>

lemma Installer_Reconcile_spec:
  assumes laws: "vwc_laws c stored" and hash: "ct_IdentityHash (cq_Status cq) \<noteq> []"
    and res: "Installer_Reconcile c i cq w = (r, w')"
  shows "installed stored w' =
      upsert_entry (webhookEntryName (rule_key cq)) (buildWebhookEntry i (rule_key cq)) (installed stored w)
    \<or> r \<noteq> None \<and> installed stored w' = installed stored w"
proof -
  let ?f = "mutate_vwc (webhookEntryName (rule_key cq)) (buildWebhookEntry i (rule_key cq))"
  obtain x where c: "vc_CreateOrUpdate c new_vwc ?f w = (x, w')" and r: "x \<noteq> None \<longrightarrow> r \<noteq> None"
    using res hash by (auto simp: Installer_Reconcile_def Let_def split: prod.splits option.splits)
  then have "(\<exists>v'. stored w' = Some v' \<and>
      vwc_Webhooks v' = vwc_Webhooks (?f (case stored w of None \<Rightarrow> new_vwc | Some old \<Rightarrow> old)))
      \<or> x \<noteq> None \<and> stored w' = stored w"
    using laws unfolding vwc_laws_def vwc_upsert_law_def by blast
  then show ?thesis using r
    by (auto simp: installed_def mutate_vwc_def new_vwc_def split: option.splits)
qed

lemma Installer_Remove_spec:
  assumes laws: "vwc_laws c stored" and res: "Installer_Remove c cq w = (r, w')"
  shows "installed stored w' = remove_entry (webhookEntryName (rule_key cq)) (installed stored w)
    \<or> r \<noteq> None \<and> installed stored w' = installed stored w"
proof -
  let ?n = "webhookEntryName (rule_key cq)"
  obtain g w1 where g: "vc_Get c w = (g, w1)" by fastforce
  have get: "stored w1 = stored w" "\<And>v. g = Inr v \<Longrightarrow> stored w = Some v" "g = Inl NotFound \<Longrightarrow> stored w = None"
    using laws g by (auto simp: vwc_laws_def vwc_get_law_def)
  show ?thesis
  proof (cases g)
    case (Inl e)
    then have "w' = w1" "r = None \<longleftrightarrow> e = NotFound"
      using res by (auto simp: Installer_Remove_def g Let_def split: if_splits)
    with get Inl show ?thesis by (auto simp: installed_def)
  next
    case (Inr v)
    let ?f = "remove_entry ?n (vwc_Webhooks v)"
    have st: "stored w = Some v" "stored w1 = Some v" using get Inr by simp_all
    show ?thesis
    proof (cases "?f = []")
      case True
      then obtain x where d: "vc_Delete c v w1 = (x, w')"
        and r: "\<And>e. x = Some e \<Longrightarrow> e \<noteq> NotFound \<Longrightarrow> r \<noteq> None"
        using res Inr by (auto simp: Installer_Remove_def g Let_def split: prod.splits option.splits if_splits)
      have "stored w' = None \<or> (\<exists>e. x = Some e \<and> e \<noteq> NotFound) \<and> stored w' = stored w1"
        using laws d unfolding vwc_laws_def vwc_delete_law_def by blast
      with True st r show ?thesis by (auto simp: installed_def simp del: remove_entry_eq)
    next
      case False
      then obtain x where u: "vc_Update c (v\<lparr>vwc_Webhooks := ?f\<rparr>) w1 = (x, w')" and r: "x \<noteq> None \<longrightarrow> r \<noteq> None"
        using res Inr
        by (auto simp: Installer_Remove_def g Let_def simp del: remove_entry_eq split: prod.splits option.splits)
      have "(\<exists>old v'. stored w1 = Some old \<and> stored w' = Some v' \<and> vwc_Webhooks v' = ?f)
          \<or> x \<noteq> None \<and> stored w' = stored w1"
        using laws u unfolding vwc_laws_def vwc_update_law_def by fastforce
      with st r show ?thesis by (auto simp: installed_def simp del: remove_entry_eq)
    qed
  qed
qed

section \<open>Interception\<close>

text \<open>
  Which requests an entry intercepts, by the documented matching of admission rules: a star
  matches everything.
\<close>

definition matches :: "string list \<Rightarrow> string \<Rightarrow> bool" where
  "matches pats x \<longleftrightarrow> x \<in> set pats \<or> ''*'' \<in> set pats"

definition rule_matches :: "Rule \<Rightarrow> string \<Rightarrow> string \<Rightarrow> string \<Rightarrow> string \<Rightarrow> bool" where
  "rule_matches rl operation grp version resource \<longleftrightarrow>
     matches (rl_Operations rl) operation \<and> matches (rl_APIGroups rl) grp \<and>
     matches (rl_APIVersions rl) version \<and> matches (rl_Resources rl) resource"

definition intercepts :: "ValidatingWebhook list \<Rightarrow> string \<Rightarrow> string \<Rightarrow> string \<Rightarrow> ValidatingWebhook \<Rightarrow> bool" where
  "intercepts whs grp version resource wh \<longleftrightarrow>
     wh \<in> set whs \<and> (\<exists>rl \<in> set (wh_Rules wh). rule_matches rl ''CREATE'' grp version resource)"

definition key_ref :: "webhookRuleKey \<Rightarrow> ResourceRef" where
  "key_ref key = \<lparr>rf_Group = wk_Group key, rf_Resource = wk_Resource key, rf_IdentityHash = wk_IdentityHash key\<rparr>"

lemma webhookURL_path: "webhookURL i key = wi_WebhookBaseURL i @ validate_path (key_ref key)"
  by (simp add: webhookURL_def validate_path_def key_ref_def validate_prefix_def)

lemma entry_matches:
  "\<exists>rl \<in> set (wh_Rules (buildWebhookEntry i key)). rule_matches rl ''CREATE'' (wk_Group key) v (wk_Resource key)"
  by (simp add: buildWebhookEntry_def rule_matches_def matches_def)

lemma get_entry_intercepts:
  "get_entry n whs = Some (buildWebhookEntry i key) \<Longrightarrow>
     intercepts whs (wk_Group key) v (wk_Resource key) (buildWebhookEntry i key)"
  using entry_matches get_entry_mem by (fastforce simp: intercepts_def)

end
