(* ===== verification/Installer_Properties.thy ===== *)
theory Installer_Properties
  imports Installer
begin

text \<open>
  The properties of the webhook installer: what a reconcile and a removal leave in the
  provider workspace's configuration, for one quota and for runs of many, and which quotas
  share an entry.
\<close>

section \<open>A concrete provider workspace\<close>

definition demo_vwc :: "VWC option VWCClient" where
  "demo_vwc =
     \<lparr>vc_Get = (\<lambda>w. (case w of None \<Rightarrow> Inl NotFound | Some v \<Rightarrow> Inr v, w)),
      vc_Update = (\<lambda>v w. case w of
          None \<Rightarrow> (Some NotFound, w)
        | Some old \<Rightarrow>
            if vwc_ResourceVersion v \<noteq> vwc_ResourceVersion old then (Some Conflict, w)
            else (None, Some (v\<lparr>vwc_ResourceVersion := Suc (vwc_ResourceVersion old)\<rparr>))),
      vc_Delete = (\<lambda>v w. case w of None \<Rightarrow> (Some NotFound, None) | Some _ \<Rightarrow> (None, None)),
      vc_CreateOrUpdate = (\<lambda>v f w. (None, Some (f (case w of None \<Rightarrow> v | Some old \<Rightarrow> old))))\<rparr>"

lemma demo_vwc_laws: "vwc_laws demo_vwc (\<lambda>w. w)"
  by (auto simp: vwc_laws_def vwc_get_law_def vwc_update_law_def vwc_delete_law_def vwc_upsert_law_def
      demo_vwc_def split: option.splits if_splits)

definition demo_quota :: "string \<Rightarrow> ConsumptionQuota" where
  "demo_quota g =
     \<lparr>cq_Name = ''q'', cq_Cluster = ''root:provider'', cq_DeletionTimestamp = None, cq_Finalizers = [],
      cq_ResourceVersion = 1,
      cq_Spec = \<lparr>cs_Governed = \<lparr>gr_APIExportName = ''s3'', gr_Group = g, gr_Version = ''v1'', gr_Resource = ''buckets''\<rparr>,
        cs_By = ''Count'', cs_DefaultLimit = 2, cs_AutoApproveCeiling = None\<rparr>,
      cq_Status = \<lparr>ct_IdentityHash = ''h1''\<rparr>\<rparr>"

definition demo_installer :: WebhookInstaller where
  "demo_installer = NewWebhookInstaller ''https://quota-webhook.svc:9443'' ''ca''"

lemma entries_empty: "(\<And>n. get_entry n whs = None) \<Longrightarrow> whs = []"
  unfolding entries.is_empty_iff by blast

section \<open>Installing and removing one entry\<close>

text \<open>
  C35. A \<open>Reconcile\<close> that succeeded changes nothing when it runs again, and whatever a
  \<open>Reconcile\<close> returns, the entries under other names (those of other quotas and those installed by
  others) stay as they are, in their order, and names stay distinct.
\<close>

theorem reconcile_idempotent_and_local:
  assumes laws: "vwc_laws c stored" and hash: "ct_IdentityHash (cq_Status cq) \<noteq> []"
    and res: "Installer_Reconcile c i cq w = (r, w')"
    and names: "distinct (map wh_Name (installed stored w))"
  shows "remove_entry (webhookEntryName (rule_key cq)) (installed stored w') =
      remove_entry (webhookEntryName (rule_key cq)) (installed stored w) \<and>
    distinct (map wh_Name (installed stored w')) \<and>
    (r = None \<longrightarrow> installed stored (snd (Installer_Reconcile c i cq w')) = installed stored w')"
proof -
  let ?n = "webhookEntryName (rule_key cq)" and ?e = "buildWebhookEntry i (rule_key cq)"
  have e: "wh_Name ?e = ?n" by simp
  note eff = Installer_Reconcile_spec [OF laws hash res]
  have loc: "remove_entry ?n (installed stored w') = remove_entry ?n (installed stored w)"
    using eff others_upsert [OF names e] by (elim disjE conjE) (simp_all del: remove_entry_eq)
  have dist: "distinct (map wh_Name (installed stored w'))"
    using eff distinct_upsert [OF e names] names by (elim disjE conjE) simp_all
  obtain r2 w2 where again: "Installer_Reconcile c i cq w' = (r2, w2)" by fastforce
  have "installed stored w2 = installed stored w'" if "r = None"
    using Installer_Reconcile_spec [OF laws hash again] eff that upsert_idem [OF e, of "installed stored w"]
    by (elim disjE conjE) simp_all
  with loc dist again show ?thesis by simp
qed

theorem reconcile_idempotent_and_local_witness:
  "let w = snd (Installer_Reconcile demo_vwc demo_installer (demo_quota ''s3.example.com'') None) in
     installed (\<lambda>w. w) (snd (Installer_Reconcile demo_vwc demo_installer (demo_quota ''s3.example.com'') w)) =
     installed (\<lambda>w. w) w"
proof -
  let ?r = "Installer_Reconcile demo_vwc demo_installer (demo_quota ''s3.example.com'') None"
  have r: "?r = (None, snd ?r)" by code_simp
  have "ct_IdentityHash (cq_Status (demo_quota ''s3.example.com'')) \<noteq> []" by (simp add: demo_quota_def)
  moreover have "distinct (map wh_Name (installed (\<lambda>w. w) None))" by (simp add: installed_def)
  ultimately show ?thesis
    using reconcile_idempotent_and_local [OF demo_vwc_laws _ r] by (simp add: Let_def)
qed

section \<open>Runs of events\<close>

text \<open>The controller's calls for a sequence of quota events, up to the first error.\<close>

datatype quota_event = Applied ConsumptionQuota | Deleted ConsumptionQuota

fun installer_run :: "'w VWCClient \<Rightarrow> WebhookInstaller \<Rightarrow> quota_event list \<Rightarrow> 'w \<Rightarrow> go_error option \<times> 'w" where
  "installer_run c i [] w = (None, w)"
| "installer_run c i (e # es) w =
     (case (case e of Applied cq \<Rightarrow> Installer_Reconcile c i cq w | Deleted cq \<Rightarrow> Installer_Remove c cq w) of
        (Some err, w') \<Rightarrow> (Some err, w')
      | (None, w') \<Rightarrow> installer_run c i es w')"

fun entry_event :: "WebhookInstaller \<Rightarrow> quota_event \<Rightarrow> (string, ValidatingWebhook) table_event" where
  "entry_event i (Applied cq) = Put (webhookEntryName (rule_key cq)) (buildWebhookEntry i (rule_key cq))"
| "entry_event i (Deleted cq) = Del (webhookEntryName (rule_key cq))"

definition resolved_event :: "quota_event \<Rightarrow> bool" where
  "resolved_event e \<longleftrightarrow> (case e of Applied cq \<Rightarrow> ct_IdentityHash (cq_Status cq) \<noteq> [] | Deleted _ \<Rightarrow> True)"

lemma installer_run_table:
  assumes laws: "vwc_laws c stored" and "list_all resolved_event es"
    and "installer_run c i es w = (None, w')"
  shows "installed stored w' = table_run upsert_entry remove_entry (map (entry_event i) es) (installed stored w)"
  using assms(2,3)
proof (induction es arbitrary: w)
  case (Cons e es)
  let ?call = "case e of Applied cq \<Rightarrow> Installer_Reconcile c i cq w | Deleted cq \<Rightarrow> Installer_Remove c cq w"
  obtain x w1 where call: "?call = (x, w1)" by fastforce
  with Cons.prems have x: "x = None" and rest: "installer_run c i es w1 = (None, w')"
    by (auto split: option.splits)
  have "installed stored w1 = table_step upsert_entry remove_entry (entry_event i e) (installed stored w)"
  proof (cases e)
    case (Applied cq)
    then show ?thesis
      using Installer_Reconcile_spec [OF laws, of cq i w x w1] Cons.prems(1) call x
      by (simp add: resolved_event_def)
  next
    case (Deleted cq)
    then show ?thesis using Installer_Remove_spec [OF laws, of cq w x w1] call x by simp
  qed
  with Cons.IH [OF _ rest] Cons.prems(1) show ?case by (simp add: table_run_def del: remove_entry_eq)
qed (simp add: table_run_def)

text \<open>
  After any sequence of quota events without an error, each entry name holds what the last
  event on it says: the entry of the quota applied last, or nothing when that one was deleted.
\<close>

theorem installer_last_event:
  assumes "vwc_laws c stored" and "list_all resolved_event es" and "installer_run c i es w = (None, w')"
  shows "get_entry n (installed stored w') =
    last_value n (map (entry_event i) es) (get_entry n (installed stored w))"
proof -
  have "\<forall>e \<in> set (map (entry_event i) es). \<forall>v. event_value e = Some v \<longrightarrow> wh_Name v = event_key e"
  proof (clarsimp)
    fix e v assume "event_value (entry_event i e) = Some v"
    then show "wh_Name v = event_key (entry_event i e)" by (cases e) auto
  qed
  then show ?thesis unfolding installer_run_table [OF assms] by (rule entries.get_run)
qed

theorem installer_last_event_witness:
  "installed (\<lambda>w. w) (snd (installer_run demo_vwc demo_installer
     [Applied (demo_quota ''s3.example.com''), Deleted (demo_quota ''s3.example.com'')] None)) = []"
proof -
  let ?es = "[Applied (demo_quota ''s3.example.com''), Deleted (demo_quota ''s3.example.com'')]"
  let ?r = "installer_run demo_vwc demo_installer ?es None"
  have r: "?r = (None, snd ?r)" by code_simp
  have "list_all resolved_event ?es" by (simp add: resolved_event_def demo_quota_def)
  from installer_last_event [OF demo_vwc_laws this r]
  have "get_entry n (installed (\<lambda>w. w) (snd ?r)) = None" for n by (simp add: installed_def)
  then show ?thesis by (rule entries_empty)
qed

section \<open>Shared entries\<close>

text \<open>
  C36. Two identities share an entry exactly when the first thirty bytes of their resources and the
  first thirty-two of their hashes agree; the group plays no part. So two quotas for the same
  plural in two groups of one export share one entry, and the second \<open>Reconcile\<close> takes the
  interception of the first group away.
\<close>

theorem entry_shared_across_groups:
  assumes laws: "vwc_laws c stored" and empty: "installed stored w = []"
    and hash: "ct_IdentityHash (cq_Status cq) \<noteq> []"
    and same: "ct_IdentityHash (cq_Status cq') = ct_IdentityHash (cq_Status cq)"
      "gr_Resource (cs_Governed (cq_Spec cq')) = gr_Resource (cs_Governed (cq_Spec cq))"
    and groups: "gr_Group (cs_Governed (cq_Spec cq')) \<noteq> gr_Group (cs_Governed (cq_Spec cq))"
      "gr_Group (cs_Governed (cq_Spec cq')) \<noteq> ''*''"
    and res: "installer_run c i [Applied cq, Applied cq'] w = (None, w')"
  shows "\<not> (\<exists>wh. intercepts (installed stored w') (gr_Group (cs_Governed (cq_Spec cq))) version resource wh)"
proof -
  have name: "webhookEntryName (rule_key cq') = webhookEntryName (rule_key cq)"
    using same by (simp add: webhookEntryName_eq rule_key_def Let_def)
  have "list_all resolved_event [Applied cq, Applied cq']"
    using hash same by (simp add: resolved_event_def)
  from installer_run_table [OF laws this res]
  have "installed stored w' = [buildWebhookEntry i (rule_key cq')]"
    by (simp add: empty table_run_def name)
  then show ?thesis
    using groups by (auto simp: intercepts_def buildWebhookEntry_def rule_matches_def matches_def rule_key_def Let_def)
qed

theorem entry_shared_across_groups_witness:
  "\<not> (\<exists>wh. intercepts (installed (\<lambda>w. w) (snd (installer_run demo_vwc demo_installer
     [Applied (demo_quota ''s3.example.com''), Applied (demo_quota ''s3.example.org'')] None)))
     ''s3.example.com'' ''v1'' ''buckets'' wh)"
proof -
  let ?a = "demo_quota ''s3.example.com''" and ?b = "demo_quota ''s3.example.org''"
  let ?r = "installer_run demo_vwc demo_installer [Applied ?a, Applied ?b] None"
  have r: "?r = (None, snd ?r)" by code_simp
  have "installed (\<lambda>w. w) None = []" "ct_IdentityHash (cq_Status ?a) \<noteq> []"
    "ct_IdentityHash (cq_Status ?b) = ct_IdentityHash (cq_Status ?a)"
    "gr_Resource (cs_Governed (cq_Spec ?b)) = gr_Resource (cs_Governed (cq_Spec ?a))"
    "gr_Group (cs_Governed (cq_Spec ?b)) \<noteq> gr_Group (cs_Governed (cq_Spec ?a))"
    "gr_Group (cs_Governed (cq_Spec ?b)) \<noteq> ''*''"
    by (simp_all add: demo_quota_def installed_def)
  from entry_shared_across_groups [OF demo_vwc_laws this r, of "''v1''" "''buckets''"]
  show ?thesis by (simp add: demo_quota_def)
qed

end
