(* ===== verification/Usage_Properties.thy ===== *)
theory Usage_Properties
  imports Store_Properties
begin

text \<open>
  The properties of the accounting side: folding observed objects hands their slots over
  without changing usage, a reconcile leaves the true count, and a sweep changes nothing that
  counts.
\<close>

section \<open>Folding\<close>

text \<open>
  The hand-off neither leaks nor double counts: when the listed objects are those confirmed
  before together with others whose reservations are still live, folding them keeps the exact
  usage, with the observed slots counted once, as confirmed objects.
\<close>

theorem fold_keeps_usage:
  assumes "wf_ledger st now" and "distinct ks" and "set ks = C \<union> F" and "finite C"
    and "int (card C) = sint (Confirmed st)" and "F \<subseteq> live_keys st now" and "C \<inter> live_keys st now = {}"
  shows "exact_used (ComputeConfirmed st ks) now = exact_used st now \<and>
    live_keys (ComputeConfirmed st ks) now = live_keys st now - F"
  using fold_handoff_used [OF assms] assms(3,7) by auto

theorem fold_keeps_usage_witness:
  "exact_used (ComputeConfirmed \<lparr>Confirmed = 1, Reservations = [\<lparr>Key = ''ns/b'', ExpiresAt = 60\<rparr>]\<rparr> [''ns/a'', ''ns/b'']) 7 = 2"
proof -
  let ?st = "\<lparr>Confirmed = 1, Reservations = [\<lparr>Key = ''ns/b'', ExpiresAt = 60\<rparr>]\<rparr>"
  have "wf_ledger ?st 7" "exact_used ?st 7 = 2"
    by (simp_all add: wf_ledger_def fits_def exact_used_def live_rs_def live_at_def)
  moreover have "live_keys ?st 7 = {''ns/b''}" by (auto simp: live_keys_iff live_at_def)
  ultimately show ?thesis
    using fold_keeps_usage [of ?st 7 "[''ns/a'', ''ns/b'']" "{''ns/a''}" "{''ns/b''}"]
    by (simp add: insert_commute)
qed

text \<open>
  C27. A reconcile of a workspace that returns no error leaves the true count in the ledger: the
  confirmed count is the number of objects listed, and none of them holds a reservation any
  more, at any time. When the listing fails nothing is written and the error is returned.
\<close>

theorem reconcile_cluster_exact:
  assumes env: "store_env (ur_Store r) stored wire idle run"
    and list: "ur_ListLiveKeys r cluster w = (listed, w1)"
    and len: "length (projr listed) < 2 ^ 31"
    and res: "ReconcileCluster sha256 run r cluster w = (err, w')"
  shows "case listed of
      Inl e \<Rightarrow> err = Some e \<and> w' = w1
    | Inr keys \<Rightarrow> (if err = None then
        (let st = ledger stored w' (ObjectName sha256 (cluster_key r cluster)) in
          sint (Confirmed st) = int (length keys) \<and> (\<forall>t. live_keys st t \<inter> set keys = {})) else True)"
proof (cases listed)
  case (Inl e)
  then show ?thesis using ReconcileCluster_list_error list res by fastforce
next
  case (Inr keys)
  then show ?thesis
    using ReconcileCluster_ok [OF env, of cluster w keys w1 sha256 w'] list len res by (auto simp: Let_def)
qed

theorem reconcile_cluster_exact_witness:
  "sint (Confirmed (ledger demo_stored (snd (ReconcileCluster demo_sha (retry_n 2)
     \<lparr>ur_Store = demo_store (60 * second), ur_Group = ''s3.example.com'', ur_Resource = ''buckets'',
      ur_IdentityHash = ''h1'', ur_ListLiveKeys = (\<lambda>c w. (Inr [''ns/a'', ''ns/b''], w))\<rparr> ''root:c1'' demo_world))
     (ObjectName demo_sha demo_key))) = 2"
proof -
  let ?r = "\<lparr>ur_Store = demo_store (60 * second), ur_Group = ''s3.example.com'', ur_Resource = ''buckets'',
      ur_IdentityHash = ''h1'', ur_ListLiveKeys = (\<lambda>c w. (Inr [''ns/a'', ''ns/b''], w))\<rparr>"
  let ?res = "ReconcileCluster demo_sha (retry_n 2) ?r ''root:c1'' demo_world"
  have "fst ?res = None" by code_simp
  then have r: "?res = (None, snd ?res)" by (metis prod.collapse)
  have s: "ur_Store ?r = demo_store (60 * second)" by simp
  have env: "store_env (ur_Store ?r) demo_stored demo_wire (=) (retry_n 2 :: (demo \<times> unit) retrier)"
    unfolding s by (rule demo_env)
  have list: "ur_ListLiveKeys ?r ''root:c1'' demo_world = (Inr [''ns/a'', ''ns/b''], demo_world)" by simp
  have "cluster_key ?r ''root:c1'' = demo_key" by (simp add: cluster_key_def demo_key_def)
  with reconcile_cluster_exact [OF env list _ r] show ?thesis by (simp add: Let_def)
qed

text \<open>
  The keys a sweep covers are exactly those of the ledgers of its own export: one key per
  stored usage object of the group, resource and identity, with the object's consumer as the
  workspace, in the order of the list.
\<close>

theorem usage_keys_exact:
  assumes "cl_List c w = (Inr us, w')"
  shows "usageKeys c g res iden w =
    (Inr (map (\<lambda>u. \<lparr>uk_Cluster = us_Consumer (qu_Spec u), uk_Group = us_Group (qu_Spec u),
            uk_Resource = us_Resource (qu_Spec u), uk_IdentityHash = us_IdentityHash (qu_Spec u)\<rparr>)
       (filter (\<lambda>u. us_Group (qu_Spec u) = g \<and> us_Resource (qu_Spec u) = res \<and> us_IdentityHash (qu_Spec u) = iden) us)),
     w')"
  using assms by (auto simp: usageKeys_def usageKeys_loop_eq intro: map_cong)

theorem usage_keys_exact_witness:
  "fst (usageKeys (demo_client\<lparr>cl_List := (\<lambda>w. (Inr [new_usage ''qu-1'' demo_key,
      new_usage ''qu-2'' (demo_key\<lparr>uk_IdentityHash := ''h2''\<rparr>)], w))\<rparr>)
      ''s3.example.com'' ''buckets'' ''h1'' demo_world) = Inr [demo_key]"
proof -
  let ?us = "[new_usage ''qu-1'' demo_key, new_usage ''qu-2'' (demo_key\<lparr>uk_IdentityHash := ''h2''\<rparr>)]"
  have "cl_List (demo_client\<lparr>cl_List := (\<lambda>w. (Inr ?us, w))\<rparr>) demo_world = (Inr ?us, demo_world)" by simp
  from usage_keys_exact [OF this] show ?thesis by (simp add: new_usage_def demo_key_def)
qed

section \<open>Sweeping the store\<close>

text \<open>Expiry times that are already in their stored form.\<close>

definition stored_times :: "(go_time \<Rightarrow> go_time) \<Rightarrow> QuotaUsageStatus \<Rightarrow> bool" where
  "stored_times wire st \<longleftrightarrow> (\<forall>r \<in> set (Reservations st). wire (ExpiresAt r) = ExpiresAt r)"

lemma wire_stored_times: "stored_times wire st \<Longrightarrow> wire_status wire st = st"
  by (simp add: stored_times_def wire_status_def map_idI)

text \<open>Two ledgers that count the same from \<open>t\<close> on.\<close>

definition same_usage :: "go_time \<Rightarrow> QuotaUsageStatus \<Rightarrow> QuotaUsageStatus \<Rightarrow> bool" where
  "same_usage t st st' \<longleftrightarrow> Confirmed st' = Confirmed st \<and> (\<forall>t' \<ge> t. live_rs st' t' = live_rs st t')"

lemma same_usage_Sweep: "t1 \<le> t \<Longrightarrow> same_usage t st (Sweep st t1)"
  by (simp add: same_usage_def live_rs_Sweep live_rs_later [symmetric])

lemma stored_times_Sweep: "stored_times wire st \<Longrightarrow> stored_times wire (Sweep st t)"
  by (auto simp: stored_times_def Sweep_eq live_rs_def)

lemma same_usage_trans:
  "same_usage t st st1 \<Longrightarrow> same_usage t' st1 st2 \<Longrightarrow> t \<le> t' \<Longrightarrow> same_usage t' st st2"
  by (simp add: same_usage_def)

text \<open>
  The steps of a sweep among other processes: what the others do during its waits (\<open>idle\<close>), and steps of
  its own, which keep what every ledger counts from then on.
\<close>

definition sweep_steps :: "'w Store \<Rightarrow> ('w \<Rightarrow> string \<rightharpoonup> QuotaUsage) \<Rightarrow> ('w \<Rightarrow> 'w \<Rightarrow> bool) \<Rightarrow> 'w \<Rightarrow> 'w \<Rightarrow> bool" where
  "sweep_steps s stored idle =
     (\<lambda>u u'. idle u u' \<or> (\<forall>n. same_usage (Now s u') (ledger stored u n) (ledger stored u' n)))\<^sup>*\<^sup>*"

lemma others_sweep: "others_only s idle stored w w' \<Longrightarrow> sweep_steps s stored idle w w'"
  unfolding others_only_def sweep_steps_def
  by (erule rtranclp_mono [THEN predicate2D, rotated]) (auto simp: same_usage_def)

lemma sweep_steps_trans: "sweep_steps s stored idle w w1 \<Longrightarrow> sweep_steps s stored idle w1 w2 \<Longrightarrow> sweep_steps s stored idle w w2"
  unfolding sweep_steps_def by (rule rtranclp_trans)

text \<open>Others store times in whole seconds too.\<close>

definition whole_seconds :: "(go_time \<Rightarrow> go_time) \<Rightarrow> ('w \<Rightarrow> string \<rightharpoonup> QuotaUsage) \<Rightarrow> 'w \<Rightarrow> bool" where
  "whole_seconds wire stored w \<longleftrightarrow> (\<forall>n. stored_times wire (ledger stored w n))"

lemma Apply_Sweep_steps:
  assumes env: "store_env s stored wire idle run"
    and others: "\<forall>u u'. idle u u' \<longrightarrow> whole_seconds wire stored u \<longrightarrow> whole_seconds wire stored u'"
    and times: "whole_seconds wire stored w"
    and res: "Apply sha256 run s k (\<lambda>w st. (Sweep st (Now s w), ())) () w = (r, a, w')"
  shows "sweep_steps s stored idle w w' \<and> whole_seconds wire stored w' \<and> Now s w \<le> Now s w'"
proof -
  let ?n = "ObjectName sha256 k"
  obtain w0 where w0: "others_only s idle stored w w0" "Now s w \<le> Now s w0" "Now s w0 \<le> Now s w'"
    and last: "ledger stored w' = ledger stored w0 \<or> (\<exists>t. t \<le> Now s w' \<and>
      ledger stored w' = (ledger stored w0)(?n := wire_status wire (Sweep (ledger stored w0 ?n) t)))"
    using Apply_last [OF env res] unfolding applied_once_def by (simp, metis)
  have t0: "stored_times wire (ledger stored w0 n)" for n
    using others_only_keep [OF w0(1), where P = "\<lambda>l. \<forall>n. stored_times wire (l n)" and t = "Now s w"] times others
    by (auto simp: whole_seconds_def)
  have own: "same_usage (Now s w') (ledger stored w0 n) (ledger stored w' n) \<and> stored_times wire (ledger stored w' n)" for n
    using last t0 [of n] same_usage_Sweep stored_times_Sweep [OF t0] wire_stored_times [OF stored_times_Sweep [OF t0]]
    by (cases "n = ?n") (auto simp: same_usage_def)
  then have "sweep_steps s stored idle w0 w'" unfolding sweep_steps_def by (intro r_into_rtranclp) simp
  then show ?thesis using sweep_steps_trans [OF others_sweep [OF w0(1)]] own w0(2,3) by (auto simp: whole_seconds_def)
qed


lemma same_usage_refl: "same_usage t st st"
  by (simp add: same_usage_def)




section \<open>What a sweep removes\<close>

definition unexpired :: "go_time \<Rightarrow> ('w \<Rightarrow> string \<rightharpoonup> QuotaUsage) \<Rightarrow> 'w \<Rightarrow> string \<Rightarrow> bool" where
  "unexpired t stored w n \<longleftrightarrow> (\<forall>\<rho> \<in> set (Reservations (ledger stored w n)). live_at t \<rho>)"

text \<open>The others add reservations that are live when they add them, and store whole seconds.\<close>

definition adds_live ::
  "'w Store \<Rightarrow> (go_time \<Rightarrow> go_time) \<Rightarrow> ('w \<Rightarrow> string \<rightharpoonup> QuotaUsage) \<Rightarrow> ('w \<Rightarrow> 'w \<Rightarrow> bool) \<Rightarrow> bool" where
  "adds_live s wire stored idle \<longleftrightarrow> (\<forall>u u'. idle u u' \<longrightarrow>
     (whole_seconds wire stored u \<longrightarrow> whole_seconds wire stored u') \<and>
     (\<forall>n. \<forall>\<rho> \<in> set (Reservations (ledger stored u' n)).
        \<rho> \<in> set (Reservations (ledger stored u n)) \<or> live_at (Now s u) \<rho>))"

lemma live_at_earlier: "live_at t' \<rho> \<Longrightarrow> t \<le> t' \<Longrightarrow> live_at t \<rho>"
  by (simp add: live_at_def)

lemma Apply_Sweep_unexpired:
  assumes env: "store_env s stored wire idle run" and others: "adds_live s wire stored idle"
    and times: "whole_seconds wire stored w" and t: "t \<le> Now s w"
    and res: "Apply sha256 run s k (\<lambda>w st. (Sweep st (Now s w), ())) () w = (r, a, w')"
  shows "(unexpired t stored w n \<longrightarrow> unexpired t stored w' n) \<and> (r = None \<longrightarrow> unexpired t stored w' (ObjectName sha256 k))"
proof -
  let ?n = "ObjectName sha256 k"
  obtain w0 where w0: "others_only s idle stored w w0"
    and last: "applied_once s stored wire (\<lambda>w st. (Sweep st (Now s w), ())) ?n w0 (r = None) w' a"
    using Apply_last [OF env res] by blast
  have t0: "stored_times wire (ledger stored w0 m)" for m
    using others_only_keep [OF w0, where P = "\<lambda>l. \<forall>n. stored_times wire (l n)" and t = "Now s w"] times others
    by (auto simp: adds_live_def whole_seconds_def)
  have kept: "unexpired t stored w0 n \<and> t \<le> Now s w0" if "unexpired t stored w n"
    unfolding unexpired_def
  proof (rule others_only_keep [OF w0, where P = "\<lambda>l. \<forall>\<rho> \<in> set (Reservations (l n)). live_at t \<rho>"])
    show "\<forall>\<rho> \<in> set (Reservations (ledger stored w n)). live_at t \<rho>" using that by (simp add: unexpired_def)
    show "\<forall>\<rho> \<in> set (Reservations (ledger stored u' n)). live_at t \<rho>"
      if "idle u u'" "t \<le> Now s u" "\<forall>\<rho> \<in> set (Reservations (ledger stored u n)). live_at t \<rho>" for u u'
    proof
      fix \<rho> assume "\<rho> \<in> set (Reservations (ledger stored u' n))"
      then have "\<rho> \<in> set (Reservations (ledger stored u n)) \<or> live_at (Now s u) \<rho>"
        using others that(1) unfolding adds_live_def by blast
      then show "live_at t \<rho>" using that(2,3) live_at_earlier by blast
    qed
  qed (rule t)
  have now: "t \<le> Now s w0" using others_only_clock [OF w0] t by simp
  have rest: "\<forall>\<rho> \<in> set (Reservations (wire_status wire (Sweep st t1))). \<rho> \<in> set (Reservations st) \<and> live_at t1 \<rho>"
    if "stored_times wire st" for st t1
    using wire_stored_times [OF stored_times_Sweep [OF that]] by (simp add: Sweep_eq live_rs_def)
  from last consider (same) w1 where "ledger stored w' = ledger stored w0"
      "r = None \<Longrightarrow> Now s w0 \<le> Now s w1 \<and> Sweep (ledger stored w0 ?n) (Now s w1) = ledger stored w0 ?n"
    | (swept) w1 where "Now s w0 \<le> Now s w1"
      "ledger stored w' = (ledger stored w0)(?n := wire_status wire (Sweep (ledger stored w0 ?n) (Now s w1)))"
    unfolding applied_once_def by (cases "r = None") auto
  then show ?thesis
  proof cases
    case (same w1)
    have "unexpired t stored w' ?n" if ok: "r = None"
    proof -
      have "Sweep (ledger stored w0 ?n) (Now s w1) = ledger stored w0 ?n" "Now s w0 \<le> Now s w1"
        using same(2) [OF ok] by simp_all
      then have "\<forall>\<rho> \<in> set (Reservations (ledger stored w0 ?n)). live_at (Now s w1) \<rho>"
        using rest [OF t0, of ?n "Now s w1"] wire_stored_times [OF t0, of ?n] by simp
      then show ?thesis using same(1) live_at_earlier now \<open>Now s w0 \<le> Now s w1\<close> order_trans
        by (metis unexpired_def)
    qed
    then show ?thesis using same(1) kept by (simp add: unexpired_def)
  next
    case (swept w1)
    have here: "\<forall>\<rho> \<in> set (Reservations (ledger stored w' ?n)). live_at t \<rho>"
      using rest [OF t0, of ?n "Now s w1"] swept now live_at_earlier by (auto intro: order_trans)
    then show ?thesis using kept swept(2) by (cases "n = ?n") (simp_all add: unexpired_def)
  qed
qed

lemma SweepAll_unexpired:
  assumes env: "store_env s stored wire idle run" and others: "adds_live s wire stored idle"
    and "whole_seconds wire stored w" and "t \<le> Now s w" and "SweepAll sha256 run s ks w = (None, w')"
  shows "(unexpired t stored w n \<longrightarrow> unexpired t stored w' n) \<and> (\<forall>k \<in> set ks. unexpired t stored w' (ObjectName sha256 k))"
  using assms(3-5)
proof (induction ks arbitrary: w n)
  case Nil
  then show ?case by simp
next
  case (Cons k ks)
  obtain x a w1 where ap: "Apply sha256 run s k (\<lambda>w st. (Sweep st (Now s w), ())) () w = (x, a, w1)"
    by (metis prod.collapse)
  have x: "x = None" and rest: "SweepAll sha256 run s ks w1 = (None, w')" using Cons.prems(3) ap by (auto split: option.splits)
  have "\<forall>u u'. idle u u' \<longrightarrow> whole_seconds wire stored u \<longrightarrow> whole_seconds wire stored u'"
    using others by (simp add: adds_live_def)
  note step = Apply_Sweep_steps [OF env this Cons.prems(1) ap] and one = Apply_Sweep_unexpired [OF env others Cons.prems(1,2) ap]
  have t1: "t \<le> Now s w1" using step Cons.prems(2) by simp
  from Cons.IH [OF _ t1 rest] step one x show ?case by auto
qed

text \<open>The key a stored ledger belongs to.\<close>

definition usage_key_of :: "QuotaUsage \<Rightarrow> UsageKey" where
  "usage_key_of u = \<lparr>uk_Cluster = us_Consumer (qu_Spec u), uk_Group = us_Group (qu_Spec u),
     uk_Resource = us_Resource (qu_Spec u), uk_IdentityHash = us_IdentityHash (qu_Spec u)\<rparr>"

text \<open>
  C29. A sweep reaches every ledger of its export: when the tick gets through without an error, whatever
  the webhooks reserve and the folds write meanwhile, no stored ledger of the export holds a
  reservation any more that had expired when the tick began. It is assumed that the list returns what is
  stored, that ledgers are named by their keys, and that the others add live reservations only and store
  whole seconds.
\<close>

theorem sweep_clears_expired:
  assumes env: "store_env (ur_Store r) stored wire idle run"
    and others: "adds_live (ur_Store r) wire stored idle" and times: "whole_seconds wire stored w"
    and named: "\<forall>n u. stored w n = Some u \<longrightarrow> n = ObjectName sha256 (usage_key_of u)"
    and list: "cl_List (st_Client (ur_Store r)) w = (Inr us, w1)" "set us = ran (stored w)"
      "stored w1 = stored w" "Now (ur_Store r) w \<le> Now (ur_Store r) w1"
    and keys: "usageKeys (st_Client (ur_Store r)) (ur_Group r) (ur_Resource r) (ur_IdentityHash r) w = (Inr keys, w1)"
    and sweep: "SweepAll sha256 run (ur_Store r) keys w1 = (None, w')"
  shows "sweep_tick sha256 run r w = w' \<and>
    (\<forall>n u. stored w n = Some u \<and> us_Group (qu_Spec u) = ur_Group r \<and> us_Resource (qu_Spec u) = ur_Resource r \<and>
       us_IdentityHash (qu_Spec u) = ur_IdentityHash r \<longrightarrow> unexpired (Now (ur_Store r) w) stored w' n)"
proof
  show "sweep_tick sha256 run r w = w'" using keys sweep by (simp add: sweep_tick_def)
  have "whole_seconds wire stored w1" using times list(3) by (simp add: whole_seconds_def ledger_def)
  note clean = SweepAll_unexpired [OF env others this list(4) sweep]
  show "\<forall>n u. stored w n = Some u \<and> us_Group (qu_Spec u) = ur_Group r \<and> us_Resource (qu_Spec u) = ur_Resource r \<and>
       us_IdentityHash (qu_Spec u) = ur_IdentityHash r \<longrightarrow> unexpired (Now (ur_Store r) w) stored w' n"
  proof (intro allI impI)
    fix n u assume u: "stored w n = Some u \<and> us_Group (qu_Spec u) = ur_Group r \<and> us_Resource (qu_Spec u) = ur_Resource r \<and>
       us_IdentityHash (qu_Spec u) = ur_IdentityHash r"
    then have "u \<in> set us" using list(2) by (auto simp: ran_def)
    then have "usage_key_of u \<in> set keys"
      using keys list(1) u by (force simp: usageKeys_def usageKeys_loop_eq usage_key_of_def)
    then have "unexpired (Now (ur_Store r) w) stored w' (ObjectName sha256 (usage_key_of u))" using clean by blast
    moreover have "n = ObjectName sha256 (usage_key_of u)" using named u by blast
    ultimately show "unexpired (Now (ur_Store r) w) stored w' n" by (rule ssubst [rotated])
  qed
qed

text \<open>A ledger with one reservation that has expired and one that is live.\<close>

definition stale_usage :: QuotaUsage where
  "stale_usage = (new_usage (ObjectName demo_sha demo_key) demo_key)\<lparr>qu_Status := \<lparr>Confirmed = 1,
     Reservations = [\<lparr>Key = ''ns/a'', ExpiresAt = 5 * second\<rparr>, \<lparr>Key = ''ns/b'', ExpiresAt = 60 * second\<rparr>]\<rparr>\<rparr>"

definition stale_world :: demo where
  "stale_world = \<lparr>objs = [ObjectName demo_sha demo_key \<mapsto> stale_usage], clock = 10 * second\<rparr>"

definition stale_reconciler :: "demo UsageReconciler" where
  "stale_reconciler = \<lparr>ur_Store = (demo_store 1)\<lparr>st_Client := demo_client\<lparr>cl_List := (\<lambda>w. (Inr [stale_usage], w))\<rparr>\<rparr>,
     ur_Group = ''s3.example.com'', ur_Resource = ''buckets'', ur_IdentityHash = ''h1'', ur_ListLiveKeys = (\<lambda>c w. (Inr [], w))\<rparr>"

theorem sweep_clears_expired_witness:
  "\<not> unexpired (10 * second) demo_stored stale_world (ObjectName demo_sha demo_key) \<and>
   unexpired (10 * second) demo_stored (sweep_tick demo_sha (retry_n 2) stale_reconciler stale_world) (ObjectName demo_sha demo_key)"
proof -
  let ?n = "ObjectName demo_sha demo_key" and ?s = "ur_Store stale_reconciler"
  have env: "store_env ?s demo_stored demo_wire (=) (retry_n 2 :: (demo \<times> unit) retrier)"
    using demo_env [of 1 2] by (simp add: store_env_def stale_reconciler_def demo_store_def optimistic_client_def
        get_law_def create_law_def update_law_def clock_law_def)
  have stored: "demo_stored stale_world n = (if n = ?n then Some stale_usage else None)" for n
    by (simp add: demo_stored_def stale_world_def stale_usage_def new_usage_def)
  have l: "ledger demo_stored stale_world n = (if n = ?n then qu_Status stale_usage else empty_status)" for n
    by (simp add: ledger_def stored)
  have times: "whole_seconds demo_wire demo_stored stale_world"
    by (auto simp: whole_seconds_def stored_times_def l stale_usage_def demo_wire_def empty_status_def)
  have named: "\<forall>n u. demo_stored stale_world n = Some u \<longrightarrow> n = ObjectName demo_sha (usage_key_of u)"
    by (simp add: stored usage_key_of_def stale_usage_def new_usage_def demo_key_def)
  have list: "cl_List (st_Client ?s) stale_world = (Inr [stale_usage], stale_world)" by (simp add: stale_reconciler_def)
  have all: "set [stale_usage] = ran (demo_stored stale_world)" by (auto simp: ran_def stored)
  have others: "adds_live ?s demo_wire demo_stored (=)" by (simp add: adds_live_def)
  have keys: "usageKeys (st_Client ?s) (ur_Group stale_reconciler) (ur_Resource stale_reconciler)
      (ur_IdentityHash stale_reconciler) stale_world = (Inr [demo_key], stale_world)"
    by (simp add: usageKeys_def list) (simp add: stale_reconciler_def stale_usage_def new_usage_def demo_key_def)
  have "fst (SweepAll demo_sha (retry_n 2) ?s [demo_key] stale_world) = None" by code_simp
  then have sweep: "SweepAll demo_sha (retry_n 2) ?s [demo_key] stale_world =
      (None, snd (SweepAll demo_sha (retry_n 2) ?s [demo_key] stale_world))" by (metis prod.collapse)
  have "Now ?s stale_world = 10 * second" by (simp add: stale_reconciler_def demo_store_def stale_world_def)
  moreover have "\<not> unexpired (10 * second) demo_stored stale_world ?n"
    by (simp add: unexpired_def l stale_usage_def live_at_def)
  moreover have "us_Group (qu_Spec stale_usage) = ur_Group stale_reconciler" "us_Resource (qu_Spec stale_usage) = ur_Resource stale_reconciler"
    "us_IdentityHash (qu_Spec stale_usage) = ur_IdentityHash stale_reconciler"
    by (simp_all add: stale_usage_def new_usage_def demo_key_def stale_reconciler_def)
  moreover note sweep_clears_expired [OF env others times named list all refl order_refl keys sweep]
  ultimately show ?thesis using stored [of ?n] by simp
qed

end
