(* ===== verification/System.thy ===== *)
theory System
  imports Usage_Properties
begin

text \<open>
  The running system around one ledger: any number of processes (webhook replicas serving
  CREATEs, the accounting controller folding, the sweep ticker) each run the attempts of
  \<open>Apply\<close>, interleaved at every call to the API server, while admitted objects land in storage
  or are abandoned, objects are deleted, the informer cache catches up and time passes. The
  steps of a process are the code's own \<open>get_step\<close>, \<open>create_step\<close>, mutation and \<open>write_usage\<close>.
\<close>

section \<open>Processes\<close>

text \<open>The three mutations of the code: the closures it passes to \<open>Apply\<close>.\<close>

datatype job = JReserve string int32 | JSweep | JFold "string list"

fun run_job :: "'w Store \<Rightarrow> job \<Rightarrow> ('w, bool) mutation" where
  "run_job s (JReserve objKey limit) w st = Reserve st objKey limit (Now s w) (TTL s)"
| "run_job s JSweep w st = (Sweep st (Now s w), True)"
| "run_job s (JFold keys) w st = (ComputeConfirmed st keys, True)"

text \<open>
  Where a process stands in an attempt: before the get, between a get that found nothing and the
  create, between the read and the mutation, between the mutation and the write.
\<close>

datatype proc = Idle | Start job | Missing job | Loaded job QuotaUsage | Mutated job QuotaUsage QuotaUsageStatus bool

fun job_of :: "proc \<Rightarrow> job option" where
  "job_of Idle = None"
| "job_of (Start j) = Some j"
| "job_of (Missing j) = Some j"
| "job_of (Loaded j u) = Some j"
| "job_of (Mutated j u st ok) = Some j"

definition is_fold :: "proc \<Rightarrow> bool" where
  "is_fold pr \<longleftrightarrow> (case job_of pr of Some (JFold _) \<Rightarrow> True | _ \<Rightarrow> False)"

text \<open>
  The state: the world of the API server, the processes, the objects in storage, the admitted
  CREATEs still on their way there, every name that ever landed, the informer's view of the
  objects and the set folded last (which the code keeps only as a count).
\<close>

record 'w sys =
  world :: 'w
  procs :: "nat \<Rightarrow> proc"
  objects :: "string set"
  admitted :: "string set"
  used_names :: "string set"
  cache :: "string list"
  counted :: "string set"

abbreviation set_proc :: "nat \<Rightarrow> proc \<Rightarrow> 'w sys \<Rightarrow> 'w sys" where
  "set_proc p pr \<sigma> \<equiv> \<sigma>\<lparr>procs := (procs \<sigma>)(p := pr)\<rparr>"

abbreviation move_to :: "'w \<Rightarrow> nat \<Rightarrow> proc \<Rightarrow> 'w sys \<Rightarrow> 'w sys" where
  "move_to w' p pr \<sigma> \<equiv> \<sigma>\<lparr>world := w', procs := (procs \<sigma>)(p := pr)\<rparr>"

definition version_at :: "('w \<Rightarrow> string \<rightharpoonup> QuotaUsage) \<Rightarrow> string \<Rightarrow> 'w \<Rightarrow> nat option" where
  "version_at stored n w = map_option qu_ResourceVersion (stored w n)"

text \<open>What a finished write means for the process and for the system.\<close>

definition after_write ::
  "('w \<Rightarrow> string \<rightharpoonup> QuotaUsage) \<Rightarrow> string \<Rightarrow> nat \<Rightarrow> job \<Rightarrow> bool \<Rightarrow> go_error + bool \<Rightarrow> 'w \<Rightarrow> 'w sys \<Rightarrow> 'w sys" where
  "after_write stored n p j ok r w' \<sigma> =
     \<sigma>\<lparr>world := w',
       procs := (procs \<sigma>)(p := if r = Inr False then Start j else Idle),
       admitted := (case j of JReserve k _ \<Rightarrow> if r = Inr True \<and> ok then insert k (admitted \<sigma>) else admitted \<sigma>
         | _ \<Rightarrow> admitted \<sigma>),
       counted := (case j of JFold ks \<Rightarrow>
           if version_at stored n w' = version_at stored n (world \<sigma>) then counted \<sigma> else set ks
         | _ \<Rightarrow> counted \<sigma>)\<rparr>"

text \<open>
  The design's condition on the TTL (time from admission to observation): time passes only as
  far as the reservations of admitted CREATEs, of objects not yet counted and of grants being
  written stay live.
\<close>

definition ttl_covers ::
  "'w Store \<Rightarrow> ('w \<Rightarrow> string \<rightharpoonup> QuotaUsage) \<Rightarrow> (go_time \<Rightarrow> go_time) \<Rightarrow> string \<Rightarrow> 'w sys \<Rightarrow> go_time \<Rightarrow> bool" where
  "ttl_covers s stored wire n \<sigma> t \<longleftrightarrow>
     (\<forall>k \<in> (admitted \<sigma> - used_names \<sigma>) \<union> (objects \<sigma> - counted \<sigma>).
        k \<in> live_keys (ledger stored (world \<sigma>) n) t) \<and>
     (\<forall>p k limit u st'. procs \<sigma> p = Mutated (JReserve k limit) u st' True \<longrightarrow> k \<notin> used_names \<sigma> \<longrightarrow>
        k \<in> live_keys (wire_status wire st') t)"

section \<open>Steps\<close>

text \<open>
  \<open>reuse\<close> says whether a name may land again after its object was deleted. At most one fold is in
  flight: the accounting controller of an export has one worker.
\<close>

inductive sys_step ::
  "'w Store \<Rightarrow> ('w \<Rightarrow> string \<rightharpoonup> QuotaUsage) \<Rightarrow> (go_time \<Rightarrow> go_time) \<Rightarrow> string \<Rightarrow> UsageKey \<Rightarrow> nat \<Rightarrow> bool
     \<Rightarrow> 'w sys \<Rightarrow> 'w sys \<Rightarrow> bool"
  for s stored wire n key Lim reuse where
  begin_reserve: "procs \<sigma> p = Idle \<Longrightarrow> sint limit \<le> int Lim \<Longrightarrow>
    sys_step s stored wire n key Lim reuse \<sigma> (set_proc p (Start (JReserve k limit)) \<sigma>)"
| begin_sweep: "procs \<sigma> p = Idle \<Longrightarrow>
    sys_step s stored wire n key Lim reuse \<sigma> (set_proc p (Start JSweep) \<sigma>)"
| begin_fold: "procs \<sigma> p = Idle \<Longrightarrow> (\<And>q. \<not> is_fold (procs \<sigma> q)) \<Longrightarrow>
    sys_step s stored wire n key Lim reuse \<sigma> (set_proc p (Start (JFold (cache \<sigma>))) \<sigma>)"
| get_found: "procs \<sigma> p = Start j \<Longrightarrow> get_step (st_Client s) n (world \<sigma>) = (Got (Some u), w') \<Longrightarrow>
    sys_step s stored wire n key Lim reuse \<sigma> (move_to w' p (Loaded j u) \<sigma>)"
| get_missing: "procs \<sigma> p = Start j \<Longrightarrow> get_step (st_Client s) n (world \<sigma>) = (Got None, w') \<Longrightarrow>
    sys_step s stored wire n key Lim reuse \<sigma> (move_to w' p (Missing j) \<sigma>)"
| get_broken: "procs \<sigma> p = Start j \<Longrightarrow> get_step (st_Client s) n (world \<sigma>) = (Broken e, w') \<Longrightarrow>
    sys_step s stored wire n key Lim reuse \<sigma> (move_to w' p Idle \<sigma>)"
| create_ok: "procs \<sigma> p = Missing j \<Longrightarrow> create_step (st_Client s) (new_usage n key) (world \<sigma>) = (Got u, w') \<Longrightarrow>
    sys_step s stored wire n key Lim reuse \<sigma> (move_to w' p (Loaded j u) \<sigma>)"
| create_lost: "procs \<sigma> p = Missing j \<Longrightarrow> create_step (st_Client s) (new_usage n key) (world \<sigma>) = (Again, w') \<Longrightarrow>
    sys_step s stored wire n key Lim reuse \<sigma> (move_to w' p (Start j) \<sigma>)"
| create_broken: "procs \<sigma> p = Missing j \<Longrightarrow> create_step (st_Client s) (new_usage n key) (world \<sigma>) = (Broken e, w') \<Longrightarrow>
    sys_step s stored wire n key Lim reuse \<sigma> (move_to w' p Idle \<sigma>)"
| mutate: "procs \<sigma> p = Loaded j u \<Longrightarrow> run_job s j (world \<sigma>) (qu_Status u) = (st', ok) \<Longrightarrow>
    sys_step s stored wire n key Lim reuse \<sigma> (set_proc p (Mutated j u st' ok) \<sigma>)"
| put_back: "procs \<sigma> p = Mutated j u st' ok \<Longrightarrow>
    write_usage (st_Client s) (qu_Status u) (u\<lparr>qu_Status := st'\<rparr>) (world \<sigma>) = (r, w') \<Longrightarrow>
    sys_step s stored wire n key Lim reuse \<sigma> (after_write stored n p j ok r w' \<sigma>)"
| crash: "sys_step s stored wire n key Lim reuse \<sigma> (set_proc p Idle \<sigma>)"
| land: "k \<in> admitted \<sigma> \<Longrightarrow> k \<notin> objects \<sigma> \<Longrightarrow> reuse \<or> k \<notin> used_names \<sigma> \<Longrightarrow>
    sys_step s stored wire n key Lim reuse \<sigma>
      (\<sigma>\<lparr>objects := insert k (objects \<sigma>), admitted := admitted \<sigma> - {k}, used_names := insert k (used_names \<sigma>)\<rparr>)"
| abandon: "sys_step s stored wire n key Lim reuse \<sigma> (\<sigma>\<lparr>admitted := admitted \<sigma> - {k}\<rparr>)"
| delete: "sys_step s stored wire n key Lim reuse \<sigma> (\<sigma>\<lparr>objects := objects \<sigma> - {k}\<rparr>)"
| sync: "distinct ks \<Longrightarrow> set ks = objects \<sigma> \<Longrightarrow>
    sys_step s stored wire n key Lim reuse \<sigma> (\<sigma>\<lparr>cache := ks\<rparr>)"
| tick: "stored w' n = stored (world \<sigma>) n \<Longrightarrow> Now s (world \<sigma>) \<le> Now s w' \<Longrightarrow>
    ttl_covers s stored wire n \<sigma> (Now s w') \<Longrightarrow>
    sys_step s stored wire n key Lim reuse \<sigma> (\<sigma>\<lparr>world := w'\<rparr>)"

definition sys_init :: "'w \<Rightarrow> 'w sys" where
  "sys_init w = \<lparr>world = w, procs = (\<lambda>_. Idle), objects = {}, admitted = {}, used_names = {}, cache = [], counted = {}\<rparr>"

definition sys_reach ::
  "'w Store \<Rightarrow> ('w \<Rightarrow> string \<rightharpoonup> QuotaUsage) \<Rightarrow> (go_time \<Rightarrow> go_time) \<Rightarrow> string \<Rightarrow> UsageKey \<Rightarrow> nat \<Rightarrow> bool
     \<Rightarrow> 'w \<Rightarrow> 'w sys \<Rightarrow> bool" where
  "sys_reach s stored wire n key Lim reuse w0 \<sigma> \<longleftrightarrow>
     (sys_step s stored wire n key Lim reuse)\<^sup>*\<^sup>* (sys_init w0) \<sigma>"

section \<open>The steps are the code's attempt\<close>

text \<open>
  A process that runs its three steps with nobody in between does exactly what one call of the
  code's condition function does: the same verdict, the same world.
\<close>

definition granted :: "job \<Rightarrow> bool \<Rightarrow> string set" where
  "granted j ok = (case j of JReserve k _ \<Rightarrow> if ok then {k} else {} | _ \<Rightarrow> {})"

text \<open>What an attempt that answered \<open>r\<close> leaves of a process and of the admissions.\<close>

definition attempt_done :: "nat \<Rightarrow> job \<Rightarrow> bool \<Rightarrow> go_error + bool \<Rightarrow> 'w \<Rightarrow> 'w sys \<Rightarrow> 'w sys \<Rightarrow> bool" where
  "attempt_done p j ok r w' \<sigma> \<sigma>' \<longleftrightarrow> world \<sigma>' = w' \<and> procs \<sigma>' p = (if r = Inr False then Start j else Idle) \<and>
     admitted \<sigma>' = admitted \<sigma> \<union> (if r = Inr True then granted j ok else {}) \<and> objects \<sigma>' = objects \<sigma>"

lemma attempt_done_write:
  "attempt_done p j ok r w' \<sigma> (after_write stored n p j ok r w' \<sigma>)"
  by (cases j) (auto simp: attempt_done_def after_write_def granted_def)

text \<open>From a loaded copy on.\<close>

lemma loaded_as_steps:
  assumes "procs \<sigma> p = Loaded j u" and m: "run_job s j (world \<sigma>) (qu_Status u) = (st', ok)"
    and wr: "write_usage (st_Client s) (qu_Status u) (u\<lparr>qu_Status := st'\<rparr>) (world \<sigma>) = (r, w')"
  shows "\<exists>\<sigma>'. (sys_step s stored wire n key Lim reuse)\<^sup>*\<^sup>* \<sigma> \<sigma>' \<and> attempt_done p j ok r w' \<sigma> \<sigma>'"
proof -
  let ?step = "sys_step s stored wire n key Lim reuse"
  let ?\<sigma>2 = "set_proc p (Mutated j u st' ok) \<sigma>"
  let ?\<sigma>3 = "after_write stored n p j ok r w' ?\<sigma>2"
  have "?step \<sigma> ?\<sigma>2" by (rule mutate) (simp_all add: assms)
  moreover have "?step ?\<sigma>2 ?\<sigma>3" by (rule put_back) (simp, use wr in simp)
  ultimately have "?step\<^sup>*\<^sup>* \<sigma> ?\<sigma>3" by (meson converse_rtranclp_into_rtranclp rtranclp.rtrancl_refl)
  moreover have "attempt_done p j ok r w' \<sigma> ?\<sigma>3"
    using attempt_done_write [of p j ok r w' ?\<sigma>2] by (simp add: attempt_done_def)
  ultimately show ?thesis by blast
qed

text \<open>The read, as one or two steps.\<close>

lemma read_as_steps:
  assumes rd: "read_usage (st_Client s) n key (world \<sigma>) = (g, w1)" and pr: "procs \<sigma> p = Start j"
  shows "(sys_step s stored wire n key Lim reuse)\<^sup>*\<^sup>* \<sigma>
    (move_to w1 p (case g of Got u \<Rightarrow> Loaded j u | Again \<Rightarrow> Start j | Broken e \<Rightarrow> Idle) \<sigma>)"
proof -
  let ?step = "sys_step s stored wire n key Lim reuse"
  obtain x w0 where get: "get_step (st_Client s) n (world \<sigma>) = (x, w0)" by fastforce
  show ?thesis
  proof (cases x)
    case (Broken e)
    then show ?thesis using rd get get_broken [OF pr] by (auto simp: read_usage_def)
  next
    case Again
    then show ?thesis using get by (auto simp: get_step_def split: prod.splits sum.splits if_splits)
  next
    case (Got found)
    show ?thesis
    proof (cases found)
      case (Some u)
      then show ?thesis using Got rd get get_found [OF pr] by (auto simp: read_usage_def)
    next
      case None
      then have first: "?step \<sigma> (move_to w0 p (Missing j) \<sigma>)" using Got get get_missing [OF pr] by simp
      let ?\<sigma> = "move_to w0 p (Missing j) \<sigma>"
      have cr: "create_step (st_Client s) (new_usage n key) (world ?\<sigma>) = (g, w1)"
        using Got None rd get by (simp add: read_usage_def)
      have miss: "procs ?\<sigma> p = Missing j" by simp
      have "?step ?\<sigma> (move_to w1 p (case g of Got u \<Rightarrow> Loaded j u | Again \<Rightarrow> Start j | Broken e \<Rightarrow> Idle) ?\<sigma>)"
      proof (cases g)
        case (Got u)
        then show ?thesis using create_ok [OF miss] cr by simp
      next
        case Again
        then show ?thesis using create_lost [OF miss] cr by simp
      next
        case (Broken e)
        then show ?thesis using create_broken [OF miss] cr by simp
      qed
      moreover have "move_to w1 p x ?\<sigma> = move_to w1 p x \<sigma>" for x by simp
      ultimately show ?thesis using first by (metis converse_rtranclp_into_rtranclp r_into_rtranclp)
    qed
  qed
qed

lemma attempt_as_steps:
  assumes "attempt (st_Client s) n key (run_job s j) (world \<sigma>, a) = (r, (w', a'))"
    and pr: "procs \<sigma> p = Start j"
  shows "\<exists>\<sigma>'. (sys_step s stored wire n key Lim reuse)\<^sup>*\<^sup>* \<sigma> \<sigma>' \<and> attempt_done p j a' r w' \<sigma> \<sigma>'"
proof -
  let ?step = "sys_step s stored wire n key Lim reuse"
  obtain g w1 where g: "read_usage (st_Client s) n key (world \<sigma>) = (g, w1)" by fastforce
  note read = read_as_steps [OF g pr, of stored wire Lim reuse]
  show ?thesis
  proof (cases g)
    case (Got u)
    let ?\<sigma>1 = "move_to w1 p (Loaded j u) \<sigma>"
    obtain st' ok where m: "run_job s j w1 (qu_Status u) = (st', ok)" by fastforce
    have wr: "write_usage (st_Client s) (qu_Status u) (u\<lparr>qu_Status := st'\<rparr>) (world ?\<sigma>1) = (r, w')" and ok: "a' = ok"
      using assms(1) Got by (auto simp: attempt_def g m split: prod.splits)
    have "\<exists>\<sigma>'. ?step\<^sup>*\<^sup>* ?\<sigma>1 \<sigma>' \<and> attempt_done p j ok r w' ?\<sigma>1 \<sigma>'"
      by (rule loaded_as_steps [OF _ _ wr]) (simp_all add: m)
    then obtain \<sigma>' where "?step\<^sup>*\<^sup>* ?\<sigma>1 \<sigma>'" "attempt_done p j ok r w' ?\<sigma>1 \<sigma>'" by blast
    with read Got ok show ?thesis by (auto simp: attempt_done_def intro: rtranclp_trans)
  next
    case Again
    then have "r = Inr False" "w' = w1" using assms(1) by (simp_all add: attempt_def g)
    then have "attempt_done p j a' r w' \<sigma> (move_to w1 p (Start j) \<sigma>)" by (simp add: attempt_done_def)
    with read Again show ?thesis by auto
  next
    case (Broken e)
    then have "r = Inl e" "w' = w1" using assms(1) by (simp_all add: attempt_def g)
    then have "attempt_done p j a' r w' \<sigma> (move_to w1 p Idle \<sigma>)" by (simp add: attempt_done_def)
    with read Broken show ?thesis by auto
  qed
qed

section \<open>Running a schedule\<close>

text \<open>An executable scheduler, for concrete runs: each action is one step, or is refused.\<close>

datatype action =
    ABegin nat job | AGet nat | ACreate nat | AMutate nat | AWrite nat | ALand string | ADelete string | ASync "string list"

fun begin_ok :: "nat \<Rightarrow> job \<Rightarrow> 'w sys \<Rightarrow> nat list \<Rightarrow> bool" where
  "begin_ok Lim (JReserve k limit) \<sigma> ps = (sint limit \<le> int Lim)"
| "begin_ok Lim JSweep \<sigma> ps = True"
| "begin_ok Lim (JFold ks) \<sigma> ps = (ks = cache \<sigma> \<and> list_all (\<lambda>q. \<not> is_fold (procs \<sigma> q)) ps)"

text \<open>Only the processes of \<open>ps\<close> are ever started.\<close>

fun exec ::
  "'w Store \<Rightarrow> ('w \<Rightarrow> string \<rightharpoonup> QuotaUsage) \<Rightarrow> string \<Rightarrow> UsageKey \<Rightarrow> nat \<Rightarrow> bool \<Rightarrow> nat list
     \<Rightarrow> action \<Rightarrow> 'w sys \<Rightarrow> 'w sys option" where
  "exec s stored n key Lim reuse ps (ABegin p j) \<sigma> =
     (if p \<in> set ps \<and> procs \<sigma> p = Idle \<and> begin_ok Lim j \<sigma> ps then Some (set_proc p (Start j) \<sigma>) else None)"
| "exec s stored n key Lim reuse ps (AGet p) \<sigma> =
     (case procs \<sigma> p of
        Start j \<Rightarrow> (case get_step (st_Client s) n (world \<sigma>) of
            (Got None, w') \<Rightarrow> Some (move_to w' p (Missing j) \<sigma>)
          | (Got (Some u), w') \<Rightarrow> Some (move_to w' p (Loaded j u) \<sigma>)
          | _ \<Rightarrow> None)
      | _ \<Rightarrow> None)"
| "exec s stored n key Lim reuse ps (ACreate p) \<sigma> =
     (case procs \<sigma> p of
        Missing j \<Rightarrow> (case create_step (st_Client s) (new_usage n key) (world \<sigma>) of
            (Got u, w') \<Rightarrow> Some (move_to w' p (Loaded j u) \<sigma>)
          | (Again, w') \<Rightarrow> Some (move_to w' p (Start j) \<sigma>)
          | _ \<Rightarrow> None)
      | _ \<Rightarrow> None)"
| "exec s stored n key Lim reuse ps (AMutate p) \<sigma> =
     (case procs \<sigma> p of
        Loaded j u \<Rightarrow> (case run_job s j (world \<sigma>) (qu_Status u) of
            (st', ok) \<Rightarrow> Some (set_proc p (Mutated j u st' ok) \<sigma>))
      | _ \<Rightarrow> None)"
| "exec s stored n key Lim reuse ps (AWrite p) \<sigma> =
     (case procs \<sigma> p of
        Mutated j u st' ok \<Rightarrow>
          (case write_usage (st_Client s) (qu_Status u) (u\<lparr>qu_Status := st'\<rparr>) (world \<sigma>) of
             (r, w') \<Rightarrow> Some (after_write stored n p j ok r w' \<sigma>))
      | _ \<Rightarrow> None)"
| "exec s stored n key Lim reuse ps (ALand k) \<sigma> =
     (if k \<in> admitted \<sigma> \<and> k \<notin> objects \<sigma> \<and> (reuse \<or> k \<notin> used_names \<sigma>) then
        Some (\<sigma>\<lparr>objects := insert k (objects \<sigma>), admitted := admitted \<sigma> - {k},
          used_names := insert k (used_names \<sigma>)\<rparr>)
      else None)"
| "exec s stored n key Lim reuse ps (ADelete k) \<sigma> = Some (\<sigma>\<lparr>objects := objects \<sigma> - {k}\<rparr>)"
| "exec s stored n key Lim reuse ps (ASync ks) \<sigma> =
     (if distinct ks \<and> set ks = objects \<sigma> then Some (\<sigma>\<lparr>cache := ks\<rparr>) else None)"

fun exec_all ::
  "'w Store \<Rightarrow> ('w \<Rightarrow> string \<rightharpoonup> QuotaUsage) \<Rightarrow> string \<Rightarrow> UsageKey \<Rightarrow> nat \<Rightarrow> bool \<Rightarrow> nat list
     \<Rightarrow> action list \<Rightarrow> 'w sys \<Rightarrow> 'w sys option" where
  "exec_all s stored n key Lim reuse ps [] \<sigma> = Some \<sigma>"
| "exec_all s stored n key Lim reuse ps (a # as) \<sigma> =
     (case exec s stored n key Lim reuse ps a \<sigma> of
        None \<Rightarrow> None
      | Some \<sigma>' \<Rightarrow> exec_all s stored n key Lim reuse ps as \<sigma>')"

text \<open>Processes outside \<open>ps\<close> stay idle, so the scheduler's test for other folds is enough.\<close>

definition others_idle :: "nat list \<Rightarrow> 'w sys \<Rightarrow> bool" where
  "others_idle ps \<sigma> \<longleftrightarrow> (\<forall>q. q \<notin> set ps \<longrightarrow> procs \<sigma> q = Idle)"

lemma exec_step:
  assumes "exec s stored n key Lim reuse ps a \<sigma> = Some \<sigma>'" and "others_idle ps \<sigma>"
  shows "sys_step s stored wire n key Lim reuse \<sigma> \<sigma>' \<and> others_idle ps \<sigma>'"
proof (cases a)
  case (ABegin p j)
  show ?thesis
  proof (cases j)
    case (JFold ks)
    have "\<not> is_fold (procs \<sigma> q)" for q
      using assms ABegin JFold
      by (cases "q \<in> set ps") (auto simp: list_all_iff others_idle_def is_fold_def split: if_splits)
    then show ?thesis
      using assms ABegin JFold by (auto simp: others_idle_def split: if_splits intro: begin_fold)
  qed (use assms ABegin in \<open>auto simp: others_idle_def split: if_splits intro: sys_step.intros\<close>)
next
  case (AGet p)
  then show ?thesis
    using assms by (auto simp: others_idle_def split: proc.splits prod.splits attempt.splits option.splits
        intro: get_found get_missing)
next
  case (ACreate p)
  then show ?thesis
    using assms by (auto simp: others_idle_def split: proc.splits prod.splits attempt.splits
        intro: create_ok create_lost)
next
  case (AMutate p)
  then show ?thesis
    using assms by (auto simp: others_idle_def split: proc.splits prod.splits intro: mutate)
next
  case (AWrite p)
  then show ?thesis
    using assms by (auto simp: others_idle_def after_write_def [of _ _ p] split: proc.splits prod.splits
        intro!: put_back [unfolded after_write_def])
next
  case (ALand k)
  then show ?thesis using assms by (auto simp: others_idle_def split: if_splits intro: land)
next
  case (ADelete k)
  then show ?thesis using assms by (auto simp: others_idle_def intro: delete)
next
  case (ASync ks)
  then show ?thesis using assms by (auto simp: others_idle_def split: if_splits intro: sync)
qed

lemma exec_all_reach:
  assumes "exec_all s stored n key Lim reuse ps as (sys_init w0) = Some \<sigma>"
  shows "sys_reach s stored wire n key Lim reuse w0 \<sigma>"
proof -
  have "(sys_step s stored wire n key Lim reuse)\<^sup>*\<^sup>* \<sigma>0 \<sigma>"
    if "exec_all s stored n key Lim reuse ps as \<sigma>0 = Some \<sigma>" "others_idle ps \<sigma>0" for \<sigma>0
    using that
  proof (induction as arbitrary: \<sigma>0)
    case (Cons a as)
    then obtain \<sigma>1 where e: "exec s stored n key Lim reuse ps a \<sigma>0 = Some \<sigma>1"
      by (auto split: option.splits)
    from exec_step [OF this Cons.prems(2)] Cons e show ?case
      by (auto intro: converse_rtranclp_into_rtranclp)
  qed simp
  then show ?thesis using assms by (simp add: sys_reach_def others_idle_def sys_init_def)
qed

end
