(* ===== verification/System_Invariant.thy ===== *)
theory System_Invariant
  imports System
begin

text \<open>
  The invariant of the interleaved system and its preservation by every step. Everything is
  stated over the ledger as stored and over the copies processes hold; the compare-and-swap
  turns what is known of a copy into what is known of the ledger.
\<close>

section \<open>The environment\<close>

text \<open>
  The documented API server with calls that take effect at one instant (time passes in ticks),
  stored times that are stable under storing again, and a TTL of at least a second.
\<close>

definition instant :: "'w Store \<Rightarrow> bool" where
  "instant s \<longleftrightarrow> (\<forall>n u w. Now s (snd (cl_Get (st_Client s) n w)) = Now s w \<and>
     Now s (snd (cl_Create (st_Client s) u w)) = Now s w \<and>
     Now s (snd (cl_StatusUpdate (st_Client s) u w)) = Now s w)"

definition sys_env :: "'w Store \<Rightarrow> ('w \<Rightarrow> string \<rightharpoonup> QuotaUsage) \<Rightarrow> (go_time \<Rightarrow> go_time) \<Rightarrow> bool" where
  "sys_env s stored wire \<longleftrightarrow> optimistic_client (st_Client s) stored wire \<and> instant s \<and>
     rfc3339_seconds wire \<and> (\<forall>t. wire (wire t) = wire t) \<and> second \<le> TTL s"

lemma sys_envD:
  assumes "sys_env s stored wire"
  shows "optimistic_client (st_Client s) stored wire" and "instant s" and "rfc3339_seconds wire"
    and "wire (wire t) = wire t" and "second \<le> TTL s"
  using assms by (auto simp: sys_env_def)

text \<open>A read changes at most an absent object into an empty one.\<close>

lemma get_step_stored:
  assumes env: "sys_env s stored wire" and step: "get_step (st_Client s) n w = (r, w')"
  shows "Now s w' = Now s w \<and> stored w' n = stored w n \<and> (\<forall>u. r = Got (Some u) \<longrightarrow> stored w' n = Some u \<and> qu_Name u = n)"
proof -
  note e = sys_envD [OF env]
  have "w' = snd (cl_Get (st_Client s) n w)" using step by (auto simp: get_step_def split: prod.splits sum.splits)
  then have "Now s w' = Now s w" using e(2) unfolding instant_def by simp
  with get_step_spec [OF e(1) step] client_named [OF e(1)] show ?thesis by metis
qed

lemma create_step_stored:
  assumes env: "sys_env s stored wire" and step: "create_step (st_Client s) (new_usage n key) w = (r, w')"
  shows "Now s w' = Now s w \<and> (stored w' n = stored w n \<or>
    (stored w n = None \<and> (\<exists>u. stored w' n = Some u \<and> qu_Status u = empty_status \<and> qu_Name u = n))) \<and>
    (\<forall>u. r = Got u \<longrightarrow> stored w' n = Some u \<and> qu_Name u = n)"
proof -
  note e = sys_envD [OF env]
  let ?u = "new_usage n key"
  obtain y where cr: "cl_Create (st_Client s) ?u w = (y, w')"
    using step by (auto simp: create_step_def split: prod.splits sum.splits)
  then have now: "Now s w' = Now s w" using e(2) unfolding instant_def by (metis snd_conv)
  have new: "qu_Status ?u = empty_status" "qu_Name ?u = n" by (simp_all add: new_usage_def)
  have got: "stored w' n = Some u \<and> qu_Name u = n" if "r = Got u" for u
    using create_step_spec(2) [OF e(1) step new(1) that] client_named [OF e(1)] new(2) by metis
  show ?thesis
    using e(1) cr
  proof (cases rule: client_create)
    case (applied u')
    then show ?thesis using now got new(2) by (auto simp: created_from_def)
  next
    case (refused err)
    then show ?thesis using now got by simp
  qed
qed

text \<open>A write leaves the object alone, or replaces the version its copy was read at.\<close>

lemma write_usage_stored:
  assumes env: "sys_env s stored wire" and nm: "qu_Name u = n"
    and step: "write_usage (st_Client s) (qu_Status u) (u\<lparr>qu_Status := st\<rparr>) w = (r, w')"
  obtains (skipped) "r = Inr True" "st = qu_Status u" "w' = w"
  | (refused) "Now s w' = Now s w" "stored w' n = stored w n" "r \<noteq> Inr True"
  | (swapped) old u' where "Now s w' = Now s w" "stored w n = Some old" "stored w' n = Some u'"
      "qu_ResourceVersion u = qu_ResourceVersion old" "qu_ResourceVersion old < qu_ResourceVersion u'"
      "qu_Status u' = wire_status wire st" "r \<noteq> Inr False" "st \<noteq> qu_Status u"
proof (cases "st = qu_Status u")
  case True
  with step show thesis by (intro skipped) (auto simp: write_usage_def)
next
  case False
  note e = sys_envD [OF env]
  let ?u = "u\<lparr>qu_Status := st\<rparr>"
  obtain x where up: "cl_StatusUpdate (st_Client s) ?u w = (x, w')"
    and r: "r = (case x of Inr _ \<Rightarrow> Inr True | Inl e \<Rightarrow> if e = Conflict then Inr False else Inl (ErrAPI e))"
    using False step by (auto simp: write_usage_def split: prod.splits sum.splits)
  have now: "Now s w' = Now s w" using e(2) up unfolding instant_def by (metis snd_conv)
  show thesis
    using e(1) up
  proof (cases rule: client_update)
    case (applied old u')
    then show thesis
      using now nm r False by (intro swapped [of old u']) (auto simp: updated_from_def)
  next
    case (refused e)
    then show thesis using now r that(2) by (auto split: if_splits)
  qed
qed

section \<open>The invariant\<close>

abbreviation cur :: "('w \<Rightarrow> string \<rightharpoonup> QuotaUsage) \<Rightarrow> string \<Rightarrow> 'w sys \<Rightarrow> QuotaUsageStatus" where
  "cur stored n \<sigma> \<equiv> ledger stored (world \<sigma>) n"

text \<open>
  What is known of the ledger as stored: it counts the folded objects, its live reservations
  have distinct keys, and its times are in stored form.
\<close>

definition ledger_inv :: "(go_time \<Rightarrow> go_time) \<Rightarrow> nat \<Rightarrow> go_time \<Rightarrow> string set \<Rightarrow> QuotaUsageStatus \<Rightarrow> bool" where
  "ledger_inv wire Lim t C st \<longleftrightarrow> finite C \<and> card C \<le> Lim \<and> sint (Confirmed st) = int (card C) \<and>
     distinct (map Key (live_rs st t)) \<and> card (live_keys st t) \<le> Lim \<and> stored_times wire st"

text \<open>
  What is known of a copy: it is not newer than the stored object, of the same version only with
  the same content, and a reservation live in it is live in the ledger unless its name landed.
\<close>

definition copy_inv ::
  "(go_time \<Rightarrow> go_time) \<Rightarrow> string \<Rightarrow> go_time \<Rightarrow> string set \<Rightarrow> QuotaUsage option \<Rightarrow> QuotaUsage \<Rightarrow> bool" where
  "copy_inv wire n t U stored_obj u \<longleftrightarrow> qu_Name u = n \<and> wf_ledger (qu_Status u) t \<and> stored_times wire (qu_Status u) \<and>
     (\<exists>c. stored_obj = Some c \<and> qu_ResourceVersion u \<le> qu_ResourceVersion c \<and>
        (qu_ResourceVersion u = qu_ResourceVersion c \<longrightarrow> qu_Status c = qu_Status u) \<and>
        (\<forall>r \<in> set (live_rs (qu_Status u) t). r \<in> set (live_rs (qu_Status c) t) \<or> Key r \<in> U))"

text \<open>What a mutation computed from a copy.\<close>

fun result_inv ::
  "(go_time \<Rightarrow> go_time) \<Rightarrow> nat \<Rightarrow> go_time \<Rightarrow> string set \<Rightarrow> job \<Rightarrow> QuotaUsage \<Rightarrow> QuotaUsageStatus \<Rightarrow> bool \<Rightarrow> bool" where
  "result_inv wire Lim t U (JReserve k limit) u st' ok \<longleftrightarrow>
     (st' = qu_Status u \<and> (ok \<longrightarrow> k \<notin> U \<longrightarrow> k \<in> live_keys (qu_Status u) t)) \<or>
     (ok \<and> k \<notin> live_keys (qu_Status u) t \<and>
      sint (Confirmed (qu_Status u)) + int (card (live_keys (qu_Status u) t)) < int Lim \<and>
      (\<exists>e. st' = (qu_Status u)\<lparr>Reservations := Reservations (qu_Status u) @ [\<lparr>Key = k, ExpiresAt = e\<rparr>]\<rparr> \<and>
         (k \<notin> U \<longrightarrow> t < wire e)))"
| "result_inv wire Lim t U JSweep u st' ok \<longleftrightarrow> (\<exists>t0 \<le> t. st' = Sweep (qu_Status u) t0)"
| "result_inv wire Lim t U (JFold ks) u st' ok \<longleftrightarrow> st' = ComputeConfirmed (qu_Status u) ks"

fun job_inv :: "nat \<Rightarrow> 'w sys \<Rightarrow> job \<Rightarrow> bool" where
  "job_inv Lim \<sigma> (JReserve k limit) \<longleftrightarrow> sint limit \<le> int Lim"
| "job_inv Lim \<sigma> JSweep \<longleftrightarrow> True"
| "job_inv Lim \<sigma> (JFold ks) \<longleftrightarrow> distinct ks \<and> length ks \<le> Lim \<and> set ks \<subseteq> used_names \<sigma> \<and>
     objects \<sigma> \<inter> counted \<sigma> \<subseteq> set ks \<and> objects \<sigma> \<inter> set ks \<subseteq> set (cache \<sigma>)"

fun proc_inv ::
  "('w \<Rightarrow> string \<rightharpoonup> QuotaUsage) \<Rightarrow> (go_time \<Rightarrow> go_time) \<Rightarrow> string \<Rightarrow> nat \<Rightarrow> go_time \<Rightarrow> 'w sys \<Rightarrow> proc \<Rightarrow> bool" where
  "proc_inv stored wire n Lim t \<sigma> Idle \<longleftrightarrow> True"
| "proc_inv stored wire n Lim t \<sigma> (Start j) \<longleftrightarrow> job_inv Lim \<sigma> j"
| "proc_inv stored wire n Lim t \<sigma> (Missing j) \<longleftrightarrow> job_inv Lim \<sigma> j"
| "proc_inv stored wire n Lim t \<sigma> (Loaded j u) \<longleftrightarrow> job_inv Lim \<sigma> j \<and>
     copy_inv wire n t (used_names \<sigma>) (stored (world \<sigma>) n) u"
| "proc_inv stored wire n Lim t \<sigma> (Mutated j u st' ok) \<longleftrightarrow> job_inv Lim \<sigma> j \<and>
     copy_inv wire n t (used_names \<sigma>) (stored (world \<sigma>) n) u \<and>
     result_inv wire Lim t (used_names \<sigma>) j u st' ok"

text \<open>Objects and admitted CREATEs against the ledger: each is counted or holds a slot.\<close>

definition cover_inv :: "nat \<Rightarrow> string set \<Rightarrow> 'w sys \<Rightarrow> bool" where
  "cover_inv Lim L \<sigma> \<longleftrightarrow> finite (objects \<sigma>) \<and> card (objects \<sigma> \<union> L) \<le> Lim \<and>
     admitted \<sigma> - used_names \<sigma> \<subseteq> L \<and> objects \<sigma> - counted \<sigma> \<subseteq> L"

definition names_inv :: "nat \<Rightarrow> 'w sys \<Rightarrow> bool" where
  "names_inv Lim \<sigma> \<longleftrightarrow> objects \<sigma> \<subseteq> used_names \<sigma> \<and> set (cache \<sigma>) \<subseteq> used_names \<sigma> \<and>
     counted \<sigma> \<subseteq> used_names \<sigma> \<and> objects \<sigma> \<inter> counted \<sigma> \<subseteq> set (cache \<sigma>) \<and>
     distinct (cache \<sigma>) \<and> length (cache \<sigma>) \<le> Lim"

definition one_fold :: "'w sys \<Rightarrow> bool" where
  "one_fold \<sigma> \<longleftrightarrow> (\<forall>p q. is_fold (procs \<sigma> p) \<longrightarrow> is_fold (procs \<sigma> q) \<longrightarrow> p = q)"

definition sys_inv ::
  "'w Store \<Rightarrow> ('w \<Rightarrow> string \<rightharpoonup> QuotaUsage) \<Rightarrow> (go_time \<Rightarrow> go_time) \<Rightarrow> string \<Rightarrow> nat \<Rightarrow> 'w sys \<Rightarrow> bool" where
  "sys_inv s stored wire n Lim \<sigma> \<longleftrightarrow>
     ledger_inv wire Lim (Now s (world \<sigma>)) (counted \<sigma>) (cur stored n \<sigma>) \<and>
     cover_inv Lim (live_keys (cur stored n \<sigma>) (Now s (world \<sigma>))) \<sigma> \<and>
     names_inv Lim \<sigma> \<and> one_fold \<sigma> \<and>
     (\<forall>p. proc_inv stored wire n Lim (Now s (world \<sigma>)) \<sigma> (procs \<sigma> p))"

lemmas sys_inv_parts = ledger_inv_def cover_inv_def names_inv_def

lemma sys_inv_init:
  assumes "ledger stored w n = empty_status"
  shows "sys_inv s stored wire n Lim (sys_init w)"
  using assms
  by (simp add: sys_inv_def sys_init_def sys_inv_parts one_fold_def is_fold_def empty_status_def
      live_rs_def live_keys_def stored_times_def)

section \<open>The ledger as stored\<close>

lemma ledger_inv_wf:
  assumes "ledger_inv wire Lim t C st" and "Lim < 2 ^ 30"
  shows "wf_ledger st t"
proof -
  have "length (live_rs st t) = card (live_keys st t)"
    using assms(1) unfolding ledger_inv_def live_keys_def by (metis distinct_card length_map set_map)
  with assms show ?thesis by (simp add: ledger_inv_def wf_ledger_def fits_def exact_used_def)
qed

lemma copy_of_stored:
  assumes "ledger_inv wire Lim t C (qu_Status u)" and "Lim < 2 ^ 30" and "qu_Name u = n"
  shows "copy_inv wire n t U (Some u) u"
  using assms ledger_inv_wf [OF assms(1,2)] by (auto simp: copy_inv_def ledger_inv_def)

text \<open>What time does.\<close>

lemma ledger_inv_later:
  assumes "ledger_inv wire Lim t C st" and "t \<le> t'"
  shows "ledger_inv wire Lim t' C st"
proof -
  have "card (live_keys st t') \<le> card (live_keys st t)"
    using live_keys_later [OF assms(2)] by (rule card_mono [rotated]) simp
  with assms show ?thesis by (simp add: ledger_inv_def live_rs_later distinct_map_filter)
qed

lemma live_rs_still: "t \<le> t' \<Longrightarrow> r \<in> set (live_rs st t) \<Longrightarrow> live_at t' r \<Longrightarrow> r \<in> set (live_rs st t')"
  by (simp add: live_rs_later)

lemma live_rs_before: "t \<le> t' \<Longrightarrow> r \<in> set (live_rs st t') \<Longrightarrow> r \<in> set (live_rs st t) \<and> live_at t' r"
  by (simp add: live_rs_later)

lemma copy_inv_later:
  assumes "copy_inv wire n t U c u" and "t \<le> t'"
  shows "copy_inv wire n t' U c u"
proof -
  have "r \<in> set (live_rs st t') \<or> Key r \<in> U"
    if "\<forall>r \<in> set (live_rs (qu_Status u) t). r \<in> set (live_rs st t) \<or> Key r \<in> U"
      "r \<in> set (live_rs (qu_Status u) t')" for r st
    using that live_rs_before [OF assms(2)] live_rs_still [OF assms(2)] by blast
  with assms wf_later [OF _ assms(2)] show ?thesis by (auto simp: copy_inv_def)
qed

lemma copy_inv_names: "copy_inv wire n t U c u \<Longrightarrow> U \<subseteq> U' \<Longrightarrow> copy_inv wire n t U' c u"
  by (auto simp: copy_inv_def)

text \<open>A live key of a copy is a live key of the ledger, unless its name landed.\<close>

lemma copy_inv_live:
  assumes "copy_inv wire n t U (Some c) u" and "k \<in> live_keys (qu_Status u) t" and "k \<notin> U"
  shows "k \<in> live_keys (qu_Status c) t"
  using assms by (fastforce simp: copy_inv_def live_keys_def)

text \<open>After another process replaced the ledger: only names that landed lost their reservations.\<close>

lemma copy_inv_swap:
  assumes "copy_inv wire n t U (Some c) u" and "qu_ResourceVersion c < qu_ResourceVersion c'"
    and "\<forall>r \<in> set (live_rs (qu_Status c) t). r \<in> set (live_rs (qu_Status c') t) \<or> Key r \<in> U"
  shows "copy_inv wire n t U (Some c') u"
  using assms by (fastforce simp: copy_inv_def)

section \<open>What a mutation computes\<close>

lemma result_of_job:
  assumes env: "sys_env s stored wire" and copy: "copy_inv wire n (Now s w) U c u"
    and job: "job_inv Lim \<sigma> j" and run: "run_job s j w (qu_Status u) = (st', ok)"
  shows "result_inv wire Lim (Now s w) U j u st' ok"
proof (cases j)
  case (JReserve k limit)
  note e = sys_envD [OF env]
  let ?st = "qu_Status u" and ?t = "Now s w"
  have wf: "wf_ledger ?st ?t" using copy by (simp add: copy_inv_def)
  have lim: "sint limit \<le> int Lim" using job JReserve by simp
  have r: "Reserve ?st k limit ?t (TTL s) = (st', ok)" using run JReserve by simp
  show ?thesis
  proof (cases "k \<in> live_keys ?st ?t \<or> sint limit \<le> sint (Used ?st ?t)")
    case True
    with r JReserve show ?thesis by (auto simp: Reserve_eq split: if_splits)
  next
    case False
    have "?t < wire (?t + TTL s)" using rfc3339_gt [OF e(3), of "?t + TTL s"] e(5) by simp
    with False r lim wf JReserve show ?thesis
      by (auto simp: Reserve_eq wf_ledger_used)
  qed
qed (use run in auto)

lemma wire_append:
  "stored_times wire st \<Longrightarrow>
     wire_status wire (st\<lparr>Reservations := Reservations st @ [\<lparr>Key = k, ExpiresAt = e\<rparr>]\<rparr>) =
       st\<lparr>Reservations := Reservations st @ [\<lparr>Key = k, ExpiresAt = wire e\<rparr>]\<rparr>"
  by (simp add: stored_times_def wire_status_def map_idI)

lemma result_inv_names: "result_inv wire Lim t U j u st' ok \<Longrightarrow> U \<subseteq> U' \<Longrightarrow> result_inv wire Lim t U' j u st' ok"
  by (cases j) auto

text \<open>Time passes under the TTL condition.\<close>

lemma result_inv_later:
  assumes res: "result_inv wire Lim t U j u st' ok" and le: "t \<le> t'" and times: "stored_times wire (qu_Status u)"
    and covers: "\<And>k limit. j = JReserve k limit \<Longrightarrow> ok \<Longrightarrow> k \<notin> U \<Longrightarrow> k \<in> live_keys (wire_status wire st') t'"
  shows "result_inv wire Lim t' U j u st' ok"
proof (cases j)
  case (JReserve k limit)
  let ?st = "qu_Status u"
  have sub: "live_keys ?st t' \<subseteq> live_keys ?st t" using le by (rule live_keys_later)
  then have card: "card (live_keys ?st t') \<le> card (live_keys ?st t)" by (simp add: card_mono)
  note cov = covers [OF JReserve]
  from res JReserve consider
      (same) "st' = ?st" "ok \<longrightarrow> k \<notin> U \<longrightarrow> k \<in> live_keys ?st t"
    | (new) e where "ok" "k \<notin> live_keys ?st t" "sint (Confirmed ?st) + int (card (live_keys ?st t)) < int Lim"
        "st' = ?st\<lparr>Reservations := Reservations ?st @ [\<lparr>Key = k, ExpiresAt = e\<rparr>]\<rparr>" "k \<notin> U \<longrightarrow> t < wire e"
    by auto
  then show ?thesis
  proof cases
    case same
    then show ?thesis using cov JReserve by (simp add: wire_stored_times [OF times])
  next
    case new
    have "k \<notin> live_keys ?st t'" using new(2) sub by blast
    moreover have "k \<notin> U \<longrightarrow> t' < wire e"
      using cov new(1,4) \<open>k \<notin> live_keys ?st t'\<close>
      by (auto simp: wire_append [OF times] live_keys_append split: if_splits)
    ultimately show ?thesis using new(1,3,4) card JReserve by auto
  qed
next
  case JSweep
  then show ?thesis using res le by (auto intro: order_trans)
qed (use res in simp)

section \<open>What a write does to the ledger\<close>

definition folded :: "job \<Rightarrow> string set \<Rightarrow> string set" where
  "folded j C = (case j of JFold ks \<Rightarrow> set ks | _ \<Rightarrow> C)"

text \<open>
  A write that replaces the ledger keeps its invariant, loses only reservations of names that
  landed, and covers objects and admissions again.
\<close>

lemma live_rs_Sweep_before: "t0 \<le> t \<Longrightarrow> live_rs (Sweep st t0) t = live_rs st t"
  by (simp add: live_rs_Sweep live_rs_later [symmetric])

lemma swap_reserve:
  assumes inv: "ledger_inv wire Lim t C st" and cover: "cover_inv Lim (live_keys st t) \<sigma>" and C: "counted \<sigma> = C"
    and idem: "wire (wire e) = wire e" and fresh: "k \<notin> live_keys st t"
    and room: "sint (Confirmed st) + int (card (live_keys st t)) < int Lim"
    and st': "st' = st\<lparr>Reservations := Reservations st @ [\<lparr>Key = k, ExpiresAt = wire e\<rparr>]\<rparr>"
  shows "ledger_inv wire Lim t C st' \<and> live_rs st' t = live_rs st t @ (if t < wire e then [\<lparr>Key = k, ExpiresAt = wire e\<rparr>] else []) \<and>
    cover_inv Lim (live_keys st' t) \<sigma> \<and> (t < wire e \<longrightarrow> k \<in> live_keys st' t)"
proof -
  let ?L = "live_keys st t"
  have live: "live_rs st' t = live_rs st t @ (if t < wire e then [\<lparr>Key = k, ExpiresAt = wire e\<rparr>] else [])"
    by (simp add: st' live_rs_append live_at_def)
  have L': "live_keys st' t = (if t < wire e then insert k ?L else ?L)"
    by (simp add: st' live_keys_append)
  have room': "card C + card ?L < Lim" using inv room by (simp add: ledger_inv_def)
  have "objects \<sigma> \<union> insert k ?L \<subseteq> C \<union> insert k ?L"
    using cover C by (auto simp: cover_inv_def)
  then have "card (objects \<sigma> \<union> insert k ?L) \<le> card (C \<union> insert k ?L)"
    using inv by (intro card_mono) (simp_all add: ledger_inv_def)
  also have "\<dots> \<le> card C + card (insert k ?L)" by (rule card_Un_le)
  also have "\<dots> \<le> card C + Suc (card ?L)" by (simp add: card_insert_if)
  finally have "card (objects \<sigma> \<union> insert k ?L) \<le> Lim" using room' by simp
  then have "cover_inv Lim (live_keys st' t) \<sigma>"
    using cover unfolding L' cover_inv_def by auto
  moreover have "ledger_inv wire Lim t C st'"
    using inv fresh room' idem unfolding ledger_inv_def live L'
    by (auto simp: st' stored_times_def live_keys_def card_insert_if)
  ultimately show ?thesis using live L' by simp
qed

lemma stored_times_Compute: "stored_times wire st \<Longrightarrow> stored_times wire (ComputeConfirmed st ks)"
  by (auto simp: stored_times_def ComputeConfirmed_def FoldConfirmed_eq)

lemma swap_fold:
  assumes inv: "ledger_inv wire Lim t C st" and cover: "cover_inv Lim (live_keys st t) \<sigma>" and C: "counted \<sigma> = C"
    and job: "job_inv Lim \<sigma> (JFold ks)" and Lim: "Lim < 2 ^ 30" and st': "st' = ComputeConfirmed st ks"
  shows "ledger_inv wire Lim t (set ks) st' \<and> live_rs st' t = filter (\<lambda>r. Key r \<notin> set ks) (live_rs st t) \<and>
    cover_inv Lim (live_keys st' t) (\<sigma>\<lparr>counted := set ks\<rparr>)"
proof -
  let ?L = "live_keys st t"
  have live: "live_rs st' t = filter (\<lambda>r. Key r \<notin> set ks) (live_rs st t)"
    by (simp add: st' ComputeConfirmed_def live_rs_Fold)
  have L': "live_keys st' t = ?L - set ks" by (simp add: st')
  have ks: "card (set ks) = length ks" "length ks \<le> Lim" "set ks \<subseteq> used_names \<sigma>"
    using job by (simp_all add: distinct_card)
  have "card (live_keys st' t) \<le> card ?L" unfolding L' by (rule card_mono) auto
  then have 1: "ledger_inv wire Lim t (set ks) st'"
    using inv ks Lim stored_times_Compute [of wire st ks] ComputeConfirmed_Confirmed [of ks st]
    unfolding ledger_inv_def live by (auto simp: st' distinct_map_filter)
  have "card (objects \<sigma> \<union> live_keys st' t) \<le> card (objects \<sigma> \<union> ?L)"
    using cover unfolding L' by (intro card_mono) (auto simp: cover_inv_def)
  moreover have "objects \<sigma> - set ks \<subseteq> ?L - set ks"
    using cover job C by (auto simp: cover_inv_def)
  ultimately have "cover_inv Lim (live_keys st' t) (\<sigma>\<lparr>counted := set ks\<rparr>)"
    using cover ks(3) unfolding L' by (auto simp: cover_inv_def)
  with 1 live show ?thesis by simp
qed

text \<open>The three jobs together.\<close>

lemma swap_effect:
  assumes env: "sys_env s stored wire" and Lim: "Lim < 2 ^ 30"
    and inv: "ledger_inv wire Lim t (counted \<sigma>) (qu_Status u)"
    and cover: "cover_inv Lim (live_keys (qu_Status u) t) \<sigma>"
    and job: "job_inv Lim \<sigma> j" and res: "result_inv wire Lim t (used_names \<sigma>) j u st' ok"
    and changed: "st' \<noteq> qu_Status u"
  shows "ledger_inv wire Lim t (folded j (counted \<sigma>)) (wire_status wire st') \<and>
    (\<forall>r \<in> set (live_rs (qu_Status u) t). r \<in> set (live_rs (wire_status wire st') t) \<or> Key r \<in> used_names \<sigma>) \<and>
    cover_inv Lim (live_keys (wire_status wire st') t) (\<sigma>\<lparr>counted := folded j (counted \<sigma>)\<rparr>) \<and>
    granted j ok - used_names \<sigma> \<subseteq> live_keys (wire_status wire st') t"
proof -
  let ?st = "qu_Status u"
  have times: "stored_times wire ?st" using inv by (simp add: ledger_inv_def)
  have idle: "\<sigma>\<lparr>counted := counted \<sigma>\<rparr> = \<sigma>" by simp
  show ?thesis
  proof (cases j)
    case (JReserve k limit)
    from res changed JReserve obtain e where new: "k \<notin> live_keys ?st t"
        "sint (Confirmed ?st) + int (card (live_keys ?st t)) < int Lim" "k \<notin> used_names \<sigma> \<longrightarrow> t < wire e"
      and st': "st' = ?st\<lparr>Reservations := Reservations ?st @ [\<lparr>Key = k, ExpiresAt = e\<rparr>]\<rparr>"
      by auto
    have w: "wire_status wire st' = ?st\<lparr>Reservations := Reservations ?st @ [\<lparr>Key = k, ExpiresAt = wire e\<rparr>]\<rparr>"
      using wire_append [OF times] st' by simp
    from swap_reserve [OF inv cover refl sys_envD(4) [OF env] new(1,2) w] new(3)
    show ?thesis by (auto simp: JReserve folded_def granted_def idle)
  next
    case JSweep
    then obtain t0 where t0: "t0 \<le> t" "st' = Sweep ?st t0" using res by auto
    then have w: "wire_status wire st' = Sweep ?st t0"
      using wire_stored_times [OF stored_times_Sweep [OF times]] by simp
    have L: "live_rs (Sweep ?st t0) t = live_rs ?st t" using t0(1) by (rule live_rs_Sweep_before)
    then have K: "live_keys (Sweep ?st t0) t = live_keys ?st t" by (simp add: live_keys_def)
    show ?thesis
      using inv cover stored_times_Sweep [OF times, of t0]
      unfolding w ledger_inv_def by (simp add: L K JSweep folded_def granted_def idle)
  next
    case (JFold ks)
    then have w: "wire_status wire st' = ComputeConfirmed ?st ks"
      using res wire_stored_times [OF stored_times_Compute [OF times]] by simp
    have "set ks \<subseteq> used_names \<sigma>" using job JFold by simp
    with swap_fold [OF inv cover refl _ Lim w] job JFold show ?thesis
      by (auto simp: folded_def granted_def)
  qed
qed

section \<open>Every step keeps the invariant\<close>

lemma job_inv_procs [simp]: "job_inv Lim (\<sigma>\<lparr>procs := x\<rparr>) j = job_inv Lim \<sigma> j"
  and job_inv_world [simp]: "job_inv Lim (\<sigma>\<lparr>world := w\<rparr>) j = job_inv Lim \<sigma> j"
  and job_inv_admitted [simp]: "job_inv Lim (\<sigma>\<lparr>admitted := a\<rparr>) j = job_inv Lim \<sigma> j"
  by (cases j; simp)+

lemma proc_inv_procs [simp]:
  "proc_inv stored wire n Lim t (\<sigma>\<lparr>procs := x\<rparr>) pr = proc_inv stored wire n Lim t \<sigma> pr"
  "proc_inv stored wire n Lim t (\<sigma>\<lparr>admitted := a\<rparr>) pr = proc_inv stored wire n Lim t \<sigma> pr"
  by (cases pr; simp)+

lemma cover_inv_frame [simp]:
  "cover_inv Lim L (\<sigma>\<lparr>procs := x\<rparr>) = cover_inv Lim L \<sigma>" "cover_inv Lim L (\<sigma>\<lparr>world := w\<rparr>) = cover_inv Lim L \<sigma>"
  "names_inv Lim (\<sigma>\<lparr>admitted := a\<rparr>) = names_inv Lim \<sigma>"
  "names_inv Lim (\<sigma>\<lparr>procs := x\<rparr>) = names_inv Lim \<sigma>" "names_inv Lim (\<sigma>\<lparr>world := w\<rparr>) = names_inv Lim \<sigma>"
  by (simp_all add: cover_inv_def names_inv_def)

lemma is_fold_simps [simp]:
  "\<not> is_fold Idle" "is_fold (Missing j) = is_fold (Start j)" "is_fold (Loaded j u) = is_fold (Start j)" "is_fold (Mutated j u st ok) = is_fold (Start j)"
  by (simp_all add: is_fold_def)

text \<open>What a process needs of the rest of the state.\<close>

lemma proc_inv_frame:
  assumes "proc_inv stored wire n Lim t \<sigma> pr"
    and "\<And>j. job_of pr = Some j \<Longrightarrow> job_inv Lim \<sigma> j \<Longrightarrow> job_inv Lim \<sigma>' j"
    and "\<And>u. copy_inv wire n t (used_names \<sigma>) (stored (world \<sigma>) n) u \<Longrightarrow>
      copy_inv wire n t' (used_names \<sigma>') (stored (world \<sigma>') n) u"
    and "\<And>j u st' ok. pr = Mutated j u st' ok \<Longrightarrow> copy_inv wire n t (used_names \<sigma>) (stored (world \<sigma>) n) u \<Longrightarrow>
      result_inv wire Lim t (used_names \<sigma>) j u st' ok \<Longrightarrow> result_inv wire Lim t' (used_names \<sigma>') j u st' ok"
  shows "proc_inv stored wire n Lim t' \<sigma>' pr"
  using assms by (cases pr) simp_all

lemma one_fold_upd:
  "one_fold \<sigma> \<Longrightarrow> is_fold pr \<longrightarrow> is_fold (procs \<sigma> p) \<or> (\<forall>q. \<not> is_fold (procs \<sigma> q)) \<Longrightarrow>
     one_fold (\<sigma>\<lparr>procs := (procs \<sigma>)(p := pr)\<rparr>)"
  by (auto simp: one_fold_def)

lemma one_fold_frame [simp]:
  "one_fold (\<sigma>\<lparr>world := w\<rparr>) = one_fold \<sigma>" "one_fold (\<sigma>\<lparr>admitted := a\<rparr>) = one_fold \<sigma>"
  "one_fold (\<sigma>\<lparr>counted := c\<rparr>) = one_fold \<sigma>" "one_fold (\<sigma>\<lparr>objects := b\<rparr>) = one_fold \<sigma>"
  "one_fold (\<sigma>\<lparr>used_names := u\<rparr>) = one_fold \<sigma>" "one_fold (\<sigma>\<lparr>cache := ks\<rparr>) = one_fold \<sigma>"
  by (simp_all add: one_fold_def)

lemma sys_inv_proc:
  assumes "sys_inv s stored wire n Lim \<sigma>"
    and "proc_inv stored wire n Lim (Now s (world \<sigma>)) \<sigma> pr"
    and "is_fold pr \<longrightarrow> is_fold (procs \<sigma> p) \<or> (\<forall>q. \<not> is_fold (procs \<sigma> q))"
  shows "sys_inv s stored wire n Lim (set_proc p pr \<sigma>)"
  using assms one_fold_upd [of \<sigma> pr p] by (simp add: sys_inv_def)

text \<open>The object a copy was read from, and the ledger as the copy's original.\<close>

lemma copy_stored: "copy_inv wire n t U c u \<Longrightarrow> c \<noteq> None"
  by (auto simp: copy_inv_def)

lemma sys_inv_read:
  assumes inv: "sys_inv s stored wire n Lim \<sigma>" and now: "Now s w' = Now s (world \<sigma>)"
    and st: "stored w' n = stored (world \<sigma>) n \<or>
      (stored (world \<sigma>) n = None \<and> (\<exists>u. stored w' n = Some u \<and> qu_Status u = empty_status \<and> qu_Name u = n))"
  shows "sys_inv s stored wire n Lim (\<sigma>\<lparr>world := w'\<rparr>)"
proof -
  have led: "ledger stored w' n = cur stored n \<sigma>"
    using st by (auto simp: ledger_def)
  have copy: "copy_inv wire n t U (stored w' n) u"
    if "copy_inv wire n t U (stored (world \<sigma>) n) u" for t U u
    using st that copy_stored [OF that] by auto
  have "proc_inv stored wire n Lim (Now s w') (\<sigma>\<lparr>world := w'\<rparr>) (procs \<sigma> p)" for p
    by (rule proc_inv_frame [where t = "Now s (world \<sigma>)" and \<sigma> = \<sigma>])
      (use inv now copy in \<open>auto simp: sys_inv_def\<close>)
  then show ?thesis using inv led now by (simp add: sys_inv_def)
qed

text \<open>A call that reads, and where it leaves its process.\<close>

lemma sys_inv_moved:
  assumes Lim: "Lim < 2 ^ 30" and inv: "sys_inv s stored wire n Lim \<sigma>" and now: "Now s w' = Now s (world \<sigma>)"
    and st: "stored w' n = stored (world \<sigma>) n \<or>
      (stored (world \<sigma>) n = None \<and> (\<exists>u. stored w' n = Some u \<and> qu_Status u = empty_status \<and> qu_Name u = n))"
    and pr: "job_of (procs \<sigma> p) = Some j"
    and to: "to = Idle \<or> to = Start j \<or> to = Missing j \<or> (\<exists>u. to = Loaded j u \<and> stored w' n = Some u \<and> qu_Name u = n)"
  shows "sys_inv s stored wire n Lim (move_to w' p to \<sigma>)"
proof -
  let ?\<sigma> = "\<sigma>\<lparr>world := w'\<rparr>"
  have inv': "sys_inv s stored wire n Lim ?\<sigma>" using inv now st by (rule sys_inv_read)
  have "proc_inv stored wire n Lim (Now s (world \<sigma>)) \<sigma> (procs \<sigma> p)" using inv by (simp add: sys_inv_def)
  then have job: "job_inv Lim \<sigma> j" using pr by (cases "procs \<sigma> p") auto
  have "proc_inv stored wire n Lim (Now s w') ?\<sigma> to"
    using to
  proof (elim disjE exE conjE)
    fix u assume u: "to = Loaded j u" "stored w' n = Some u" "qu_Name u = n"
    then have "ledger_inv wire Lim (Now s w') (counted \<sigma>) (qu_Status u)"
      using inv' by (simp add: sys_inv_def ledger_def)
    then have "copy_inv wire n (Now s w') (used_names \<sigma>) (Some u) u"
      using Lim u(3) by (rule copy_of_stored)
    then show ?thesis using u job by simp
  qed (use job in simp_all)
  moreover have "is_fold to \<longrightarrow> is_fold (procs \<sigma> p)" using to pr by (auto simp: is_fold_def)
  ultimately have "sys_inv s stored wire n Lim (set_proc p to ?\<sigma>)"
    using sys_inv_proc [OF inv', of to p] by simp
  then show ?thesis by simp
qed

text \<open>A finished write: skipped, refused, or swapped.\<close>

lemma after_write_eq:
  "after_write stored n p j ok r w' \<sigma> = \<sigma>\<lparr>world := w',
     procs := (procs \<sigma>)(p := if r = Inr False then Start j else Idle),
     admitted := admitted \<sigma> \<union> (if r = Inr True then granted j ok else {}),
     counted := (if version_at stored n w' = version_at stored n (world \<sigma>) then counted \<sigma> else folded j (counted \<sigma>))\<rparr>"
  by (cases j) (auto simp: after_write_def granted_def folded_def)

lemma sys_inv_unswapped:
  assumes inv: "sys_inv s stored wire n Lim \<sigma>" and pr: "procs \<sigma> p = Mutated j u st' ok"
    and st: "stored w' n = stored (world \<sigma>) n" and now: "Now s w' = Now s (world \<sigma>)"
    and skip: "r = Inr True \<Longrightarrow> st' = qu_Status u"
  shows "sys_inv s stored wire n Lim (after_write stored n p j ok r w' \<sigma>)"
proof -
  let ?t = "Now s (world \<sigma>)" and ?next = "if r = Inr False then Start j else Idle"
  let ?A = "admitted \<sigma> \<union> (if r = Inr True then granted j ok else {})"
  have pi: "proc_inv stored wire n Lim ?t \<sigma> (Mutated j u st' ok)"
    using inv pr unfolding sys_inv_def by metis
  have led: "ledger stored w' n = cur stored n \<sigma>" using st by (simp add: ledger_def)
  have granted: "granted j ok - used_names \<sigma> \<subseteq> live_keys (cur stored n \<sigma>) ?t" if "r = Inr True"
  proof (cases j)
    case (JReserve k limit)
    obtain c where c: "stored (world \<sigma>) n = Some c" using pi by (auto simp: copy_inv_def)
    have "k \<in> live_keys (qu_Status u) ?t" if "ok" "k \<notin> used_names \<sigma>"
      using pi that skip [OF \<open>r = Inr True\<close>] JReserve by (auto dest: arg_cong [where f = Reservations])
    then show ?thesis
      using copy_inv_live [of wire n ?t "used_names \<sigma>" c u k] pi JReserve c
      by (auto simp: granted_def ledger_def)
  qed (simp_all add: granted_def)
  have cover: "cover_inv Lim (live_keys (cur stored n \<sigma>) ?t) (\<sigma>\<lparr>admitted := ?A\<rparr>)"
    using inv granted by (auto simp: sys_inv_def cover_inv_def)
  have procs: "proc_inv stored wire n Lim ?t (\<sigma>\<lparr>world := w', admitted := ?A\<rparr>) pr" if "proc_inv stored wire n Lim ?t \<sigma> pr" for pr
    by (rule proc_inv_frame [OF that]) (simp_all add: st)
  have inv1: "sys_inv s stored wire n Lim (\<sigma>\<lparr>world := w', admitted := ?A\<rparr>)"
    using inv cover procs led now by (simp add: sys_inv_def names_inv_def cover_inv_def)
  have "proc_inv stored wire n Lim ?t \<sigma> ?next" using pi by simp
  then have "sys_inv s stored wire n Lim (set_proc p ?next (\<sigma>\<lparr>world := w', admitted := ?A\<rparr>))"
    by (intro sys_inv_proc [OF inv1]) (auto simp: now pr intro: procs)
  moreover have "after_write stored n p j ok r w' \<sigma> = set_proc p ?next (\<sigma>\<lparr>world := w', admitted := ?A\<rparr>)"
    by (simp add: after_write_eq version_at_def st)
  ultimately show ?thesis by simp
qed

lemma sys_inv_swapped:
  assumes env: "sys_env s stored wire" and Lim: "Lim < 2 ^ 30" and inv: "sys_inv s stored wire n Lim \<sigma>"
    and pr: "procs \<sigma> p = Mutated j u st' ok" and now: "Now s w' = Now s (world \<sigma>)"
    and old: "stored (world \<sigma>) n = Some old" and new: "stored w' n = Some u'"
    and ver: "qu_ResourceVersion u = qu_ResourceVersion old" "qu_ResourceVersion old < qu_ResourceVersion u'"
    and st: "qu_Status u' = wire_status wire st'" and changed: "st' \<noteq> qu_Status u" and r: "r \<noteq> Inr False"
  shows "sys_inv s stored wire n Lim (after_write stored n p j ok r w' \<sigma>)"
proof -
  let ?t = "Now s (world \<sigma>)" and ?C = "folded j (counted \<sigma>)"
  let ?A = "admitted \<sigma> \<union> (if r = Inr True then granted j ok else {})"
  let ?\<sigma> = "\<sigma>\<lparr>world := w', procs := (procs \<sigma>)(p := Idle), admitted := ?A, counted := ?C\<rparr>"
  have pi: "proc_inv stored wire n Lim ?t \<sigma> (Mutated j u st' ok)"
    using inv pr unfolding sys_inv_def by metis
  then have same: "qu_Status old = qu_Status u" using old ver(1) by (auto simp: copy_inv_def)
  have led: "cur stored n \<sigma> = qu_Status u" "ledger stored w' n = wire_status wire st'"
    using old new same st by (simp_all add: ledger_def)
  have li: "ledger_inv wire Lim ?t (counted \<sigma>) (qu_Status u)"
    and ci: "cover_inv Lim (live_keys (qu_Status u) ?t) \<sigma>"
    using inv led(1) by (simp_all add: sys_inv_def)
  have ji: "job_inv Lim \<sigma> j" and ri: "result_inv wire Lim ?t (used_names \<sigma>) j u st' ok"
    using pi by simp_all
  note eff = swap_effect [OF env Lim li ci ji ri changed]
  have names: "names_inv Lim ?\<sigma>"
    using inv ji by (cases j) (auto simp: sys_inv_def names_inv_def folded_def)
  have cover: "cover_inv Lim (live_keys (wire_status wire st') ?t) ?\<sigma>"
    using eff by (auto simp: cover_inv_def)
  have fold: "one_fold ?\<sigma>"
    using inv by (auto simp: sys_inv_def one_fold_def)
  have procs: "proc_inv stored wire n Lim ?t ?\<sigma> (procs ?\<sigma> q)" for q
  proof (cases "q = p")
    case False
    have qi: "proc_inv stored wire n Lim ?t \<sigma> (procs \<sigma> q)" using inv by (simp add: sys_inv_def)
    have nofold: "\<not> is_fold (procs \<sigma> q)" if "j = JFold ks" for ks
    proof -
      have "is_fold (procs \<sigma> p)" using pr that by (simp add: is_fold_def)
      with inv False show ?thesis by (auto simp: sys_inv_def one_fold_def)
    qed
    have "proc_inv stored wire n Lim ?t ?\<sigma> (procs \<sigma> q)"
    proof (rule proc_inv_frame [OF qi])
      fix j' assume "job_of (procs \<sigma> q) = Some j'" "job_inv Lim \<sigma> j'"
      then show "job_inv Lim ?\<sigma> j'"
        using nofold by (cases j'; cases j) (auto simp: folded_def is_fold_def)
    next
      fix v assume "copy_inv wire n ?t (used_names \<sigma>) (stored (world \<sigma>) n) v"
      then show "copy_inv wire n ?t (used_names ?\<sigma>) (stored (world ?\<sigma>) n) v"
        using copy_inv_swap [where c = old and c' = u'] eff old new ver(2) st same by simp
    qed simp
    with False show ?thesis by simp
  qed simp
  have "sys_inv s stored wire n Lim ?\<sigma>"
    using eff names cover fold procs led(2) now by (simp add: sys_inv_def)
  moreover have "after_write stored n p j ok r w' \<sigma> = ?\<sigma>"
    using r old new ver(2) by (simp add: after_write_eq version_at_def)
  ultimately show ?thesis by simp
qed

lemma sys_inv_write:
  assumes env: "sys_env s stored wire" and Lim: "Lim < 2 ^ 30" and inv: "sys_inv s stored wire n Lim \<sigma>"
    and pr: "procs \<sigma> p = Mutated j u st' ok"
    and wr: "write_usage (st_Client s) (qu_Status u) (u\<lparr>qu_Status := st'\<rparr>) (world \<sigma>) = (r, w')"
  shows "sys_inv s stored wire n Lim (after_write stored n p j ok r w' \<sigma>)"
proof -
  have "proc_inv stored wire n Lim (Now s (world \<sigma>)) \<sigma> (Mutated j u st' ok)"
    using inv pr unfolding sys_inv_def by metis
  then have nm: "qu_Name u = n" by (simp add: copy_inv_def)
  from env nm wr show ?thesis
  proof (cases rule: write_usage_stored)
    case skipped
    then show ?thesis using sys_inv_unswapped [OF inv pr] by simp
  next
    case refused
    then show ?thesis by (intro sys_inv_unswapped [OF inv pr]) simp_all
  next
    case (swapped old u')
    then show ?thesis using sys_inv_swapped [OF env Lim inv pr] by simp
  qed
qed

text \<open>The environment's own steps.\<close>

lemma sys_inv_tick:
  assumes inv: "sys_inv s stored wire n Lim \<sigma>" and st: "stored w' n = stored (world \<sigma>) n"
    and le: "Now s (world \<sigma>) \<le> Now s w'" and ttl: "ttl_covers s stored wire n \<sigma> (Now s w')"
  shows "sys_inv s stored wire n Lim (\<sigma>\<lparr>world := w'\<rparr>)"
proof -
  let ?t = "Now s (world \<sigma>)" and ?t' = "Now s w'" and ?L = "live_keys (cur stored n \<sigma>)"
  have led: "ledger stored w' n = cur stored n \<sigma>" using st by (simp add: ledger_def)
  have li: "ledger_inv wire Lim ?t (counted \<sigma>) (cur stored n \<sigma>)" and ci: "cover_inv Lim (?L ?t) \<sigma>"
    using inv by (simp_all add: sys_inv_def)
  have "card (objects \<sigma> \<union> ?L ?t') \<le> card (objects \<sigma> \<union> ?L ?t)"
    using ci live_keys_later [OF le] by (intro card_mono) (auto simp: cover_inv_def)
  then have cover: "cover_inv Lim (?L ?t') \<sigma>"
    using ci ttl by (auto simp: cover_inv_def ttl_covers_def)
  have procs: "proc_inv stored wire n Lim ?t' (\<sigma>\<lparr>world := w'\<rparr>) (procs \<sigma> p)" for p
  proof (rule proc_inv_frame [where t = ?t and \<sigma> = \<sigma>])
    show "proc_inv stored wire n Lim ?t \<sigma> (procs \<sigma> p)" using inv by (simp add: sys_inv_def)
  next
    fix u assume "copy_inv wire n ?t (used_names \<sigma>) (stored (world \<sigma>) n) u"
    from copy_inv_later [OF this le] st
    show "copy_inv wire n ?t' (used_names (\<sigma>\<lparr>world := w'\<rparr>)) (stored (world (\<sigma>\<lparr>world := w'\<rparr>)) n) u" by simp
  next
    fix j u st' ok
    assume pr: "procs \<sigma> p = Mutated j u st' ok"
      and copy: "copy_inv wire n ?t (used_names \<sigma>) (stored (world \<sigma>) n) u"
      and res: "result_inv wire Lim ?t (used_names \<sigma>) j u st' ok"
    have "k \<in> live_keys (wire_status wire st') ?t'" if "j = JReserve k limit" "ok" "k \<notin> used_names \<sigma>" for k limit
      using ttl pr that unfolding ttl_covers_def by simp
    with res le copy show "result_inv wire Lim ?t' (used_names (\<sigma>\<lparr>world := w'\<rparr>)) j u st' ok"
      by (simp add: copy_inv_def result_inv_later)
  qed simp
  show ?thesis using inv led ledger_inv_later [OF li le] cover procs by (simp add: sys_inv_def)
qed

lemma sys_inv_land:
  assumes inv: "sys_inv s stored wire n Lim \<sigma>" and k: "k \<in> admitted \<sigma>" and new: "k \<notin> used_names \<sigma>"
  shows "sys_inv s stored wire n Lim
    (\<sigma>\<lparr>objects := insert k (objects \<sigma>), admitted := admitted \<sigma> - {k}, used_names := insert k (used_names \<sigma>)\<rparr>)"
    (is "sys_inv _ _ _ _ _ ?\<sigma>")
proof -
  let ?t = "Now s (world \<sigma>)" and ?L = "live_keys (cur stored n \<sigma>)"
  have ni: "names_inv Lim \<sigma>" and ci: "cover_inv Lim (?L ?t) \<sigma>" using inv by (simp_all add: sys_inv_def)
  have slot: "k \<in> ?L ?t" using ci k new by (auto simp: cover_inv_def)
  then have cover: "cover_inv Lim (?L ?t) ?\<sigma>"
    using ci by (auto simp: cover_inv_def insert_absorb)
  have names: "names_inv Lim ?\<sigma>"
    using ni new by (auto simp: names_inv_def)
  have procs: "proc_inv stored wire n Lim ?t ?\<sigma> (procs \<sigma> p)" for p
  proof (rule proc_inv_frame [where t = ?t and \<sigma> = \<sigma>])
    show "proc_inv stored wire n Lim ?t \<sigma> (procs \<sigma> p)" using inv by (simp add: sys_inv_def)
  next
    fix j assume "job_inv Lim \<sigma> j"
    then show "job_inv Lim ?\<sigma> j"
      using new ni by (cases j) (auto simp: names_inv_def)
  next
    fix u assume "copy_inv wire n ?t (used_names \<sigma>) (stored (world \<sigma>) n) u"
    then show "copy_inv wire n ?t (used_names ?\<sigma>) (stored (world ?\<sigma>) n) u"
      by (simp add: copy_inv_names [OF _ subset_insertI])
  next
    fix j u st' ok assume "result_inv wire Lim ?t (used_names \<sigma>) j u st' ok"
    then show "result_inv wire Lim ?t (used_names ?\<sigma>) j u st' ok"
      by (simp add: result_inv_names [OF _ subset_insertI])
  qed
  show ?thesis using inv cover names procs by (simp add: sys_inv_def one_fold_def)
qed

lemma sys_inv_delete:
  assumes inv: "sys_inv s stored wire n Lim \<sigma>"
  shows "sys_inv s stored wire n Lim (\<sigma>\<lparr>objects := objects \<sigma> - {k}\<rparr>)" (is "sys_inv _ _ _ _ _ ?\<sigma>")
proof -
  let ?t = "Now s (world \<sigma>)" and ?L = "live_keys (cur stored n \<sigma>)"
  have ci: "cover_inv Lim (?L ?t) \<sigma>" using inv by (simp add: sys_inv_def)
  have "card (objects \<sigma> - {k} \<union> ?L ?t) \<le> card (objects \<sigma> \<union> ?L ?t)"
    using ci by (intro card_mono) (auto simp: cover_inv_def)
  then have "cover_inv Lim (?L ?t) ?\<sigma>" using ci by (auto simp: cover_inv_def)
  moreover have "names_inv Lim ?\<sigma>" using inv by (auto simp: sys_inv_def names_inv_def)
  moreover have "proc_inv stored wire n Lim ?t ?\<sigma> (procs \<sigma> p)" for p
  proof (rule proc_inv_frame [where t = ?t and \<sigma> = \<sigma>])
    fix j assume "job_inv Lim \<sigma> j"
    then show "job_inv Lim ?\<sigma> j" by (cases j) auto
  qed (use inv in \<open>simp_all add: sys_inv_def\<close>)
  ultimately show ?thesis using inv by (simp add: sys_inv_def one_fold_def)
qed

lemma sys_inv_sync:
  assumes inv: "sys_inv s stored wire n Lim \<sigma>" and ks: "distinct ks" "set ks = objects \<sigma>"
  shows "sys_inv s stored wire n Lim (\<sigma>\<lparr>cache := ks\<rparr>)" (is "sys_inv _ _ _ _ _ ?\<sigma>")
proof -
  let ?t = "Now s (world \<sigma>)" and ?L = "live_keys (cur stored n \<sigma>)"
  have ci: "cover_inv Lim (?L ?t) \<sigma>" using inv by (simp add: sys_inv_def)
  have "card (objects \<sigma>) \<le> card (objects \<sigma> \<union> ?L ?t)"
    using ci by (intro card_mono) (auto simp: cover_inv_def)
  then have "length ks \<le> Lim" using ci ks distinct_card [OF ks(1)] by (simp add: cover_inv_def)
  then have "names_inv Lim ?\<sigma>" using inv ks by (auto simp: sys_inv_def names_inv_def)
  moreover have "cover_inv Lim (?L ?t) ?\<sigma>" using ci by (simp add: cover_inv_def)
  moreover have "proc_inv stored wire n Lim ?t ?\<sigma> (procs \<sigma> p)" for p
  proof (rule proc_inv_frame [where t = ?t and \<sigma> = \<sigma>])
    fix j assume "job_inv Lim \<sigma> j"
    then show "job_inv Lim ?\<sigma> j" using ks by (cases j) auto
  qed (use inv in \<open>simp_all add: sys_inv_def\<close>)
  ultimately show ?thesis using inv by (simp add: sys_inv_def one_fold_def)
qed

text \<open>The invariant holds in every reachable state, when names are not used again.\<close>

lemma sys_step_inv:
  assumes env: "sys_env s stored wire" and Lim: "Lim < 2 ^ 30"
    and step: "sys_step s stored wire n key Lim False \<sigma> \<sigma>'" and inv: "sys_inv s stored wire n Lim \<sigma>"
  shows "sys_inv s stored wire n Lim \<sigma>'"
  using step inv
proof (induction rule: sys_step.induct)
  case (begin_reserve \<sigma> p limit k)
  then show ?case by (intro sys_inv_proc) (simp_all add: is_fold_def)
next
  case (begin_sweep \<sigma> p)
  then show ?case by (intro sys_inv_proc) (simp_all add: is_fold_def)
next
  case (begin_fold \<sigma> p)
  then show ?case by (intro sys_inv_proc) (auto simp: sys_inv_def names_inv_def)
next
  case (get_found \<sigma> p j u w')
  then show ?case using get_step_stored [OF env get_found(2)] by (intro sys_inv_moved [OF Lim, where j = j]) auto
next
  case (get_missing \<sigma> p j w')
  then show ?case using get_step_stored [OF env get_missing(2)] by (intro sys_inv_moved [OF Lim, where j = j]) auto
next
  case (get_broken \<sigma> p j e w')
  then show ?case using get_step_stored [OF env get_broken(2)] by (intro sys_inv_moved [OF Lim, where j = j]) auto
next
  case (create_ok \<sigma> p j u w')
  then show ?case using create_step_stored [OF env create_ok(2)] by (intro sys_inv_moved [OF Lim, where j = j]) auto
next
  case (create_lost \<sigma> p j w')
  then show ?case using create_step_stored [OF env create_lost(2)] by (intro sys_inv_moved [OF Lim, where j = j]) auto
next
  case (create_broken \<sigma> p j e w')
  then show ?case using create_step_stored [OF env create_broken(2)] by (intro sys_inv_moved [OF Lim, where j = j]) auto
next
  case (mutate \<sigma> p j u st' ok)
  then have pi: "proc_inv stored wire n Lim (Now s (world \<sigma>)) \<sigma> (Loaded j u)"
    unfolding sys_inv_def by metis
  then have copy: "copy_inv wire n (Now s (world \<sigma>)) (used_names \<sigma>) (stored (world \<sigma>) n) u"
    and job: "job_inv Lim \<sigma> j" by simp_all
  have "result_inv wire Lim (Now s (world \<sigma>)) (used_names \<sigma>) j u st' ok"
    by (rule result_of_job [OF env copy job mutate.hyps(2)])
  with pi mutate show ?case by (intro sys_inv_proc) simp_all
next
  case (put_back \<sigma> p j u st' ok r w')
  then show ?case using sys_inv_write [OF env Lim] by blast
next
  case (crash \<sigma> p)
  then show ?case by (intro sys_inv_proc) simp_all
next
  case (land k \<sigma>)
  then show ?case using sys_inv_land by blast
next
  case (abandon \<sigma> k)
  let ?\<sigma> = "\<sigma>\<lparr>admitted := admitted \<sigma> - {k}\<rparr>" and ?t = "Now s (world \<sigma>)"
  have "cover_inv Lim (live_keys (cur stored n \<sigma>) ?t) ?\<sigma>"
    using abandon unfolding sys_inv_def cover_inv_def by auto
  with abandon show ?case by (simp add: sys_inv_def)
next
  case (delete \<sigma> k)
  then show ?case by (rule sys_inv_delete)
next
  case (sync ks \<sigma>)
  then show ?case using sys_inv_sync by blast
next
  case (tick w' \<sigma>)
  from sys_inv_tick [OF tick(4,1-3)] show ?case .
qed

lemma sys_reach_inv:
  assumes env: "sys_env s stored wire" and Lim: "Lim < 2 ^ 30" and start: "ledger stored w0 n = empty_status"
    and reach: "sys_reach s stored wire n key Lim False w0 \<sigma>"
  shows "sys_inv s stored wire n Lim \<sigma>"
  using reach unfolding sys_reach_def
proof (induction rule: rtranclp_induct)
  case base
  from start show ?case by (rule sys_inv_init)
next
  case (step \<sigma> \<sigma>')
  from sys_step_inv [OF env Lim step.hyps(2) step.IH] show ?case .
qed

end
