(* ===== verification/System_Progress.thy ===== *)
theory System_Progress
  imports System
begin

text \<open>
  Progress under contention: in any interleaving of the system, how often one process can lose
  the compare-and-swap. Each conflict is charged to a version the ledger took in the meantime, so
  somebody else got on.
\<close>

section \<open>Conflicts and versions along a path\<close>

text \<open>A lost write sends the process back to the start of its next attempt.\<close>

fun lost :: "proc \<Rightarrow> proc \<Rightarrow> bool" where
  "lost (Mutated _ _ _ _) (Start _) = True"
| "lost _ _ = False"

fun conflicts :: "nat \<Rightarrow> 'w sys list \<Rightarrow> nat" where
  "conflicts p (a # b # path) = (if lost (procs a p) (procs b p) then 1 else 0) + conflicts p (b # path)"
| "conflicts p _ = 0"

definition overtaken :: "('w \<Rightarrow> string \<rightharpoonup> QuotaUsage) \<Rightarrow> string \<Rightarrow> 'w sys \<Rightarrow> 'w sys \<Rightarrow> bool" where
  "overtaken stored n a b \<longleftrightarrow>
     version_at stored n (world a) \<noteq> None \<and> version_at stored n (world b) \<noteq> version_at stored n (world a)"

fun versions :: "('w \<Rightarrow> string \<rightharpoonup> QuotaUsage) \<Rightarrow> string \<Rightarrow> 'w sys list \<Rightarrow> nat" where
  "versions stored n (a # b # path) = (if overtaken stored n a b then 1 else 0) + versions stored n (b # path)"
| "versions stored n _ = 0"

text \<open>Documented: a status update conflicts only when the object has another version.\<close>

definition conflict_law :: "'w Client \<Rightarrow> ('w \<Rightarrow> string \<rightharpoonup> QuotaUsage) \<Rightarrow> bool" where
  "conflict_law c stored \<longleftrightarrow> (\<forall>u w w'. cl_StatusUpdate c u w = (Inl Conflict, w') \<longrightarrow>
     version_at stored (qu_Name u) w \<noteq> Some (qu_ResourceVersion u))"

section \<open>The charge\<close>

text \<open>The object a process has read and not yet written.\<close>

fun held :: "proc \<Rightarrow> QuotaUsage option" where
  "held (Loaded j u) = Some u"
| "held (Mutated j u st ok) = Some u"
| "held _ = None"

text \<open>What the process holds is current, unless a version is left over to pay for its next conflict.\<close>

definition paid :: "('w \<Rightarrow> string \<rightharpoonup> QuotaUsage) \<Rightarrow> string \<Rightarrow> nat \<Rightarrow> nat \<Rightarrow> 'w sys \<Rightarrow> bool" where
  "paid stored n p spare a \<longleftrightarrow> (\<forall>u. held (procs a p) = Some u \<longrightarrow> qu_Name u = n \<and>
     (0 < spare \<or> version_at stored n (world a) = Some (qu_ResourceVersion u)))"

lemma paid_keep:
  assumes "paid stored n p spare a" and "held (procs b p) = held (procs a p) \<or> held (procs b p) = None"
  shows "paid stored n p (spare + (if overtaken stored n a b then 1 else 0)) b"
  unfolding paid_def
proof (intro allI impI)
  fix u
  assume "held (procs b p) = Some u"
  with assms have u: "qu_Name u = n" "0 < spare \<or> version_at stored n (world a) = Some (qu_ResourceVersion u)"
    by (auto simp: paid_def)
  then show "qu_Name u = n \<and> (0 < spare + (if overtaken stored n a b then 1 else 0) \<or>
      version_at stored n (world b) = Some (qu_ResourceVersion u))"
    by (cases "overtaken stored n a b") (auto simp: overtaken_def)
qed

lemma lost_same [simp]: "\<not> lost pr pr"
  by (cases pr) simp_all

lemma paid_step:
  assumes law: "optimistic_client (st_Client s) stored wire" and conf: "conflict_law (st_Client s) stored"
    and step: "sys_step s stored wire n key Lim reuse a b" and paid: "paid stored n p spare a"
  shows "\<exists>spare'. paid stored n p spare' b \<and>
    spare' + (if lost (procs a p) (procs b p) then 1 else 0) = spare + (if overtaken stored n a b then 1 else 0)"
proof (cases "(held (procs b p) = held (procs a p) \<or> held (procs b p) = None) \<and> \<not> lost (procs a p) (procs b p)")
  case True
  with paid_keep [OF paid] show ?thesis by auto
next
  case False
  from step False show ?thesis
  proof (cases rule: sys_step.cases)
    case (get_found q j u w')
    then have q: "q = p" using False by (cases "q = p") auto
    have cur: "stored w' n = Some u" using get_step_spec(1,2) [OF law get_found(3)] by simp
    then have "qu_Name u = n" by (rule client_named [OF law])
    with cur have "paid stored n p x b" for x using get_found q by (simp add: paid_def version_at_def)
    moreover have "\<not> lost (procs a p) (procs b p)" using get_found q by simp
    ultimately show ?thesis by (intro exI [of _ "spare + (if overtaken stored n a b then 1 else 0)"]) simp
  next
    case (create_ok q j u w')
    then have q: "q = p" using False by (cases "q = p") auto
    have cur: "stored w' n = Some u" using create_step_spec(2) [OF law create_ok(3)] by (simp add: new_usage_def)
    then have "qu_Name u = n" by (rule client_named [OF law])
    with cur have "paid stored n p x b" for x using create_ok q by (simp add: paid_def version_at_def)
    moreover have "\<not> lost (procs a p) (procs b p)" using create_ok q by simp
    ultimately show ?thesis by (intro exI [of _ "spare + (if overtaken stored n a b then 1 else 0)"]) simp
  next
    case (put_back q j u st' ok r w')
    then have q: "q = p" using False by (cases "q = p") (auto simp: after_write_def)
    have lost: "lost (procs a p) (procs b p)" and r: "r = Inr False" and free: "held (procs b p) = None"
      using False put_back q by (auto simp: after_write_def split: if_splits)
    have u: "qu_Name u = n" and cur: "0 < spare \<or> version_at stored n (world a) = Some (qu_ResourceVersion u)"
      using paid put_back q by (auto simp: paid_def)
    obtain x where "cl_StatusUpdate (st_Client s) (u\<lparr>qu_Status := st'\<rparr>) (world a) = (Inl Conflict, x)"
      using put_back r by (auto simp: write_usage_def split: if_splits prod.splits sum.splits)
    then have "version_at stored n (world a) \<noteq> Some (qu_ResourceVersion u)"
      using conf u unfolding conflict_law_def by fastforce
    with cur have "0 < spare" by simp
    then obtain m where m: "spare = Suc m" by (cases spare) auto
    show ?thesis using free lost m by (intro exI [of _ "m + (if overtaken stored n a b then 1 else 0)"]) (simp add: paid_def)
  qed (auto split: if_splits)
qed

lemma conflicts_bound:
  assumes law: "optimistic_client (st_Client s) stored wire" and conf: "conflict_law (st_Client s) stored"
  shows "successively (sys_step s stored wire n key Lim reuse) (a # path) \<Longrightarrow> paid stored n p spare a \<Longrightarrow>
    conflicts p (a # path) \<le> spare + versions stored n (a # path)"
proof (induction path arbitrary: a spare)
  case (Cons b path)
  then have step: "sys_step s stored wire n key Lim reuse a b"
    and rest: "successively (sys_step s stored wire n key Lim reuse) (b # path)" by simp_all
  obtain spare' where "paid stored n p spare' b"
    and eq: "spare' + (if lost (procs a p) (procs b p) then 1 else 0) = spare + (if overtaken stored n a b then 1 else 0)"
    using paid_step [OF law conf step Cons.prems(2)] by blast
  from Cons.IH [OF rest this(1)] eq show ?case by (auto split: if_splits)
qed simp

section \<open>The path of a schedule\<close>

fun exec_path ::
  "'w Store \<Rightarrow> ('w \<Rightarrow> string \<rightharpoonup> QuotaUsage) \<Rightarrow> string \<Rightarrow> UsageKey \<Rightarrow> nat \<Rightarrow> bool \<Rightarrow> nat list
     \<Rightarrow> action list \<Rightarrow> 'w sys \<Rightarrow> 'w sys list" where
  "exec_path s stored n key Lim reuse ps [] \<sigma> = []"
| "exec_path s stored n key Lim reuse ps (a # as) \<sigma> =
     (case exec s stored n key Lim reuse ps a \<sigma> of
        None \<Rightarrow> []
      | Some \<sigma>' \<Rightarrow> \<sigma>' # exec_path s stored n key Lim reuse ps as \<sigma>')"

lemma exec_path_steps:
  "others_idle ps \<sigma> \<Longrightarrow>
     successively (sys_step s stored wire n key Lim reuse) (\<sigma> # exec_path s stored n key Lim reuse ps as \<sigma>)"
proof (induction as arbitrary: \<sigma>)
  case (Cons a as)
  show ?case
  proof (cases "exec s stored n key Lim reuse ps a \<sigma>")
    case (Some \<sigma>')
    from exec_step [OF Some Cons.prems] Cons.IH show ?thesis by (simp add: Some)
  qed simp
qed simp

end
