(* ===== verification/System_Properties.thy ===== *)
theory System_Properties
  imports System_Invariant System_Progress
begin

text \<open>
  What the quota promises of the running system, over every interleaving of its processes, and
  the one situation in which it does not hold.
\<close>

lemma demo_sys_env: "second \<le> ttl \<Longrightarrow> sys_env (demo_store ttl) demo_stored demo_wire"
  using demo_optimistic demo_rfc3339
  by (auto simp: sys_env_def instant_def demo_store_def demo_client_def demo_get_def demo_create_def
      demo_update_def demo_wire_def Let_def split: option.split)

lemma demo_empty: "ledger demo_stored demo_world n = empty_status"
  by (simp add: ledger_def demo_stored_def demo_world_def)

definition demo_name :: string where
  "demo_name = ObjectName demo_sha demo_key"

definition admit_run :: "nat \<Rightarrow> string \<Rightarrow> action list" where
  "admit_run p k = [ABegin p (JReserve k 1), AGet p, AMutate p, AWrite p]"

text \<open>
  Two admissions race for the only slot: both find no ledger, one create loses, both read the
  empty ledger, one write loses.
\<close>

definition race_run :: "action list" where
  "race_run = [ABegin 0 (JReserve ''a'' 1), ABegin 1 (JReserve ''b'' 1), AGet 0, AGet 1, ACreate 0, ACreate 1, AGet 1,
     AMutate 0, AMutate 1, AWrite 1, AWrite 0, AGet 0, AMutate 0, AWrite 0, ALand ''b'']"

abbreviation demo_exec :: "bool \<Rightarrow> action list \<Rightarrow> demo sys option" where
  "demo_exec reuse as \<equiv>
     exec_all (demo_store (60 * second)) demo_stored demo_name demo_key 1 reuse [0, 1] as (sys_init demo_world)"

text \<open>
  C1. The quota is never exceeded: in every state of the system, whatever the interleaving of
  admissions, compare-and-swap retries, lost answers, crashes, landings, deletions, stale folds
  and sweeps, the objects in storage together with the admitted CREATEs that can still land are
  at most \<open>Lim\<close>, as long as no admission uses a limit above \<open>Lim\<close>, time passes only as far as the
  TTL covers what is not counted yet, and the name of a deleted object is not used again.
\<close>

theorem quota_never_exceeded:
  assumes env: "sys_env s stored wire" and Lim: "Lim < 2 ^ 30" and start: "ledger stored w0 n = empty_status"
    and reach: "sys_reach s stored wire n key Lim False w0 \<sigma>"
  shows "finite (objects \<sigma>) \<and> card (objects \<sigma> \<union> (admitted \<sigma> - used_names \<sigma>)) \<le> Lim"
proof -
  let ?L = "live_keys (cur stored n \<sigma>) (Now s (world \<sigma>))"
  have ci: "cover_inv Lim ?L \<sigma>"
    using sys_reach_inv [OF env Lim start reach] by (simp add: sys_inv_def)
  then have "card (objects \<sigma> \<union> (admitted \<sigma> - used_names \<sigma>)) \<le> card (objects \<sigma> \<union> ?L)"
    by (intro card_mono) (auto simp: cover_inv_def)
  with ci show ?thesis by (simp add: cover_inv_def)
qed

theorem quota_never_exceeded_witness:
  "\<exists>\<sigma>. demo_exec False race_run = Some \<sigma> \<and> ''b'' \<in> objects \<sigma> \<and> card (objects \<sigma>) \<le> 1"
proof -
  have run: "map_option (\<lambda>\<sigma>. (''b'' \<in> objects \<sigma>, admitted \<sigma> = {})) (demo_exec False race_run) = Some (True, True)"
    by code_simp
  then obtain \<sigma> where ex: "demo_exec False race_run = Some \<sigma>" and b: "''b'' \<in> objects \<sigma>" "admitted \<sigma> = {}"
    by auto
  have "sys_reach (demo_store (60 * second)) demo_stored demo_wire demo_name demo_key 1 False demo_world \<sigma>"
    using ex by (rule exec_all_reach)
  moreover have "second \<le> 60 * second" "(1 :: nat) < 2 ^ 30" by simp_all
  ultimately have "card (objects \<sigma> \<union> (admitted \<sigma> - used_names \<sigma>)) \<le> 1"
    using quota_never_exceeded [OF demo_sys_env _ demo_empty] by blast
  with ex b show ?thesis by simp
qed

text \<open>
  C2. The ledger accounts for everything: in every such state the confirmed count is the number
  of objects folded last, every object not among them and every admitted CREATE that can still
  land holds a live reservation, and \<open>Used\<close> is at least the number of objects in storage.
\<close>

theorem ledger_accounts_for_objects:
  assumes env: "sys_env s stored wire" and Lim: "Lim < 2 ^ 30" and start: "ledger stored w0 n = empty_status"
    and reach: "sys_reach s stored wire n key Lim False w0 \<sigma>"
  shows "sint (Confirmed (cur stored n \<sigma>)) = int (card (counted \<sigma>)) \<and>
    (objects \<sigma> - counted \<sigma>) \<union> (admitted \<sigma> - used_names \<sigma>) \<subseteq> live_keys (cur stored n \<sigma>) (Now s (world \<sigma>)) \<and>
    int (card (objects \<sigma> \<union> (admitted \<sigma> - used_names \<sigma>))) \<le> sint (Used (cur stored n \<sigma>) (Now s (world \<sigma>)))"
proof -
  let ?st = "cur stored n \<sigma>" and ?t = "Now s (world \<sigma>)"
  have li: "ledger_inv wire Lim ?t (counted \<sigma>) ?st" and ci: "cover_inv Lim (live_keys ?st ?t) \<sigma>"
    using sys_reach_inv [OF env Lim start reach] by (simp_all add: sys_inv_def)
  have conf: "sint (Confirmed ?st) = int (card (counted \<sigma>))" and fin: "finite (counted \<sigma>)"
    using li by (simp_all add: ledger_inv_def)
  have sub: "objects \<sigma> \<union> (admitted \<sigma> - used_names \<sigma>) \<subseteq> counted \<sigma> \<union> live_keys ?st ?t"
    using ci by (auto simp: cover_inv_def)
  then have "card (objects \<sigma> \<union> (admitted \<sigma> - used_names \<sigma>)) \<le> card (counted \<sigma> \<union> live_keys ?st ?t)"
    using fin by (intro card_mono) simp_all
  also have "\<dots> \<le> card (counted \<sigma>) + card (live_keys ?st ?t)" by (rule card_Un_le)
  finally have "int (card (objects \<sigma> \<union> (admitted \<sigma> - used_names \<sigma>))) \<le> sint (Used ?st ?t)"
    using conf wf_ledger_used [OF ledger_inv_wf [OF li Lim]] by simp
  with conf ci show ?thesis by (auto simp: cover_inv_def)
qed

theorem ledger_accounts_for_objects_witness:
  "\<exists>\<sigma>. demo_exec False race_run = Some \<sigma> \<and> counted \<sigma> = {} \<and>
     ''b'' \<in> live_keys (cur demo_stored demo_name \<sigma>) (clock (world \<sigma>))"
proof -
  have run: "map_option (\<lambda>\<sigma>. (''b'' \<in> objects \<sigma>, counted \<sigma> = {})) (demo_exec False race_run) = Some (True, True)"
    by code_simp
  then obtain \<sigma> where ex: "demo_exec False race_run = Some \<sigma>" and b: "''b'' \<in> objects \<sigma>" "counted \<sigma> = {}"
    by auto
  have "sys_reach (demo_store (60 * second)) demo_stored demo_wire demo_name demo_key 1 False demo_world \<sigma>"
    using ex by (rule exec_all_reach)
  moreover have "second \<le> 60 * second" "(1 :: nat) < 2 ^ 30" by simp_all
  ultimately have "(objects \<sigma> - counted \<sigma>) \<subseteq> live_keys (cur demo_stored demo_name \<sigma>) (Now (demo_store (60 * second)) (world \<sigma>))"
    using ledger_accounts_for_objects [OF demo_sys_env _ demo_empty] by blast
  then show ?thesis using ex b by (auto simp: demo_store_def)
qed

section \<open>Names used again\<close>

text \<open>
  The schedule: object a is created and listed for a fold; before the fold writes, a is deleted,
  the cache sees it gone, and a CREATE of the same name is admitted on the reservation that is
  still live. The fold then writes the old list, dropping that reservation; the next one
  lists the empty cache. The new a is neither counted nor reserved, and b is admitted beside it.
\<close>

definition reuse_run :: "action list" where
  "reuse_run = [ABegin 0 (JReserve ''a'' 1), AGet 0, ACreate 0, AMutate 0, AWrite 0, ALand ''a'', ASync [''a''], ABegin 1 (JFold [''a'']), ADelete ''a'', ASync []] @
     admit_run 0 ''a'' @ [ALand ''a'', AGet 1, AMutate 1, AWrite 1, ABegin 1 (JFold []), AGet 1, AMutate 1, AWrite 1] @
     admit_run 0 ''b'' @ [ALand ''b'']"

text \<open>
  C18. The condition on names is needed: with the documented API server, no time passing and every
  call succeeding, a schedule in which a deleted object's name is created again reaches a state
  with two objects under a limit of one, because a fold of a stale list releases the
  reservation of the new object.
\<close>

theorem reused_name_exceeds_quota:
  "sys_env (demo_store (60 * second)) demo_stored demo_wire \<and>
   (\<exists>\<sigma>. sys_reach (demo_store (60 * second)) demo_stored demo_wire demo_name demo_key 1 True demo_world \<sigma> \<and>
     objects \<sigma> = {''a'', ''b''})"
proof -
  have "map_option (\<lambda>\<sigma>. objects \<sigma> = {''a'', ''b''}) (demo_exec True reuse_run) = Some True"
    by code_simp
  then obtain \<sigma> where ex: "demo_exec True reuse_run = Some \<sigma>" and objs: "objects \<sigma> = {''a'', ''b''}"
    by auto
  have "sys_reach (demo_store (60 * second)) demo_stored demo_wire demo_name demo_key 1 True demo_world \<sigma>"
    using ex by (rule exec_all_reach)
  with objs demo_sys_env [of "60 * second"] show ?thesis by auto
qed

section \<open>The steps against the code\<close>

text \<open>
  The interleaved steps are the code's: whatever one call of the condition function does from a
  world, the steps of a process that is not interrupted reach the same world, with the process
  back at its start exactly when the call asks for another attempt, and a CREATE admitted exactly
  when the call finished without an error and granted it.
\<close>

lemma attempt_refines_steps:
  assumes "attempt (st_Client s) n key (run_job s j) (world \<sigma>, a) = (r, (w', a'))"
    and "procs \<sigma> p = Start j"
  shows "\<exists>\<sigma>'. (sys_step s stored wire n key Lim reuse)\<^sup>*\<^sup>* \<sigma> \<sigma>' \<and> world \<sigma>' = w' \<and>
    procs \<sigma>' p = (if r = Inr False then Start j else Idle) \<and>
    admitted \<sigma>' = admitted \<sigma> \<union> (if r = Inr True then granted j a' else {})"
  using attempt_as_steps [OF assms] unfolding attempt_done_def by blast

lemma attempt_refines_steps_witness:
  "\<exists>\<sigma>'. (sys_step (demo_store (60 * second)) demo_stored demo_wire demo_name demo_key 1 False)\<^sup>*\<^sup>*
      (set_proc 0 (Start (JReserve ''a'' 1)) (sys_init demo_world)) \<sigma>' \<and> procs \<sigma>' 0 = Idle \<and>
     admitted \<sigma>' = {''a''}"
proof -
  let ?\<sigma> = "set_proc 0 (Start (JReserve ''a'' 1)) (sys_init demo_world)"
  let ?s = "demo_store (60 * second)"
  let ?att = "attempt (st_Client ?s) demo_name demo_key (run_job ?s (JReserve ''a'' 1)) (world ?\<sigma>, False)"
  have "fst ?att = Inr True" "snd (snd ?att)" by code_simp+
  then have att: "?att = (Inr True, (fst (snd ?att), True))" by (simp only: prod_eq_iff fst_conv snd_conv simp_thms)
  have "procs ?\<sigma> 0 = Start (JReserve ''a'' 1)" by simp
  from attempt_refines_steps [OF att this, of demo_stored demo_wire 1 False] show ?thesis
    by (auto simp: granted_def sys_init_def)
qed

section \<open>Contention\<close>

text \<open>
  C16. Losing the compare-and-swap means somebody else won it: along any path of the system, from a
  state in which a process has read nothing yet, its writes conflict at most as often as the
  ledger took a new version, so contention alone cannot stop every process at once.
\<close>

theorem conflicts_are_overtakings:
  assumes "optimistic_client (st_Client s) stored wire" and "conflict_law (st_Client s) stored"
    and "successively (sys_step s stored wire n key Lim reuse) (a # path)" and "held (procs a p) = None"
  shows "conflicts p (a # path) \<le> versions stored n (a # path)"
proof -
  have "paid stored n p 0 a" using assms(4) by (simp add: paid_def)
  from conflicts_bound [OF assms(1-3) this] show ?thesis by simp
qed

abbreviation demo_path :: "demo sys list" where
  "demo_path \<equiv> exec_path (demo_store (60 * second)) demo_stored demo_name demo_key 1 False [0, 1] race_run (sys_init demo_world)"

lemma demo_conflict: "conflict_law (st_Client (demo_store ttl)) demo_stored"
  by (auto simp: conflict_law_def demo_store_def demo_client_def demo_update_def version_at_def Let_def
      split: option.splits if_splits)

theorem conflicts_are_overtakings_witness:
  "conflicts 0 (sys_init demo_world # demo_path) = 1 \<and> 1 \<le> versions demo_stored demo_name (sys_init demo_world # demo_path)"
proof -
  have one: "conflicts 0 (sys_init demo_world # demo_path) = 1" by code_simp
  have "optimistic_client (st_Client (demo_store (60 * second))) demo_stored demo_wire"
    using demo_optimistic by (simp add: demo_store_def)
  moreover have "successively (sys_step (demo_store (60 * second)) demo_stored demo_wire demo_name demo_key 1 False)
      (sys_init demo_world # demo_path)"
    by (rule exec_path_steps) (simp add: others_idle_def sys_init_def)
  moreover have "held (procs (sys_init demo_world) 0) = None" by (simp add: sys_init_def)
  ultimately show ?thesis using conflicts_are_overtakings [OF _ demo_conflict] one by metis
qed

section \<open>The schema of the ledgers\<close>

text \<open>
  Every write the code attempts passes the schema of \<open>QuotaUsage\<close>: the object it creates and,
  from an object that passes it, the result of every mutation keep a non-negative count and the
  immutable spec, as long as a fold lists fewer than \<open>2 ^ 31\<close> objects.
\<close>

lemma mutations_keep_schema:
  assumes "valid_QuotaUsage u" and "run_job s j w (qu_Status u) = (st', ok)"
    and "\<And>ks. j = JFold ks \<Longrightarrow> length ks < 2 ^ 31"
  shows "valid_QuotaUsage_update u (u\<lparr>qu_Status := st'\<rparr>) \<and> valid_QuotaUsage (new_usage n key)"
proof -
  have "0 \<le> sint (Confirmed st')"
  proof (cases j)
    case (JReserve k limit)
    then show ?thesis using assms(1,2) Confirmed_Reserve [of "qu_Status u" k limit "Now s w" "TTL s"]
      by (simp add: valid_QuotaUsage_def)
  next
    case JSweep
    then show ?thesis using assms(1,2) by (auto simp: valid_QuotaUsage_def)
  next
    case (JFold ks)
    then show ?thesis using assms(2) ComputeConfirmed_Confirmed [OF assms(3) [OF JFold], of "qu_Status u"] by auto
  qed
  then show ?thesis by (simp add: valid_QuotaUsage_update_def valid_QuotaUsage_def new_usage_def empty_status_def)
qed

lemma mutations_keep_schema_witness:
  "valid_QuotaUsage (new_usage ''n'' demo_key\<lparr>qu_Status :=
     ComputeConfirmed empty_status [''a'', ''b'']\<rparr>)"
proof -
  let ?u = "new_usage ''n'' demo_key"
  have u: "valid_QuotaUsage ?u" "qu_Status ?u = empty_status"
    by (simp_all add: valid_QuotaUsage_def new_usage_def empty_status_def)
  have run: "run_job (demo_store 1) (JFold [''a'', ''b'']) demo_world (qu_Status ?u) =
      (ComputeConfirmed empty_status [''a'', ''b''], True)" by (simp add: u(2))
  from mutations_keep_schema [OF u(1) run] show ?thesis by (simp add: valid_QuotaUsage_update_def)
qed

end
