(* ===== verification/Kcp.thy ===== *)
theory Kcp
  imports Go_Strings Prelude
begin

text \<open>
  The kcp discovery helpers (\<open>internal/kcp/vw.go\<close>, \<open>internal/kcp/kubeconfig.go\<close>): virtual
  workspace URLs and slice names from APIExportEndpointSlices, the Kind of a governed resource
  from its APIExport and schema, and the front-proxy base of a kubeconfig host. The reads of
  the API server are arguments.
\<close>

section \<open>kcp objects\<close>

record EndpointSlice =
  es_Name :: string
  es_APIExportName :: string
  es_URLs :: "string list"

record ExportedResource =
  xr_Group :: string
  xr_Name :: string
  xr_Schema :: string

record APIExport =
  ae_Resources :: "ExportedResource list"
  ae_IdentityHash :: string

record KcpReader =
  kr_ListSlices :: "api_error + EndpointSlice list"
  kr_GetExport :: "string \<Rightarrow> api_error + APIExport"
  kr_GetSchemaKind :: "string \<Rightarrow> api_error + string"

text \<open>The verb \<open>%q\<close> on a name, which holds nothing to escape.\<close>

definition quoted :: "string \<Rightarrow> string" where
  "quoted s = CHR 0x22 # s @ [CHR 0x22]"

section \<open>Endpoint slices\<close>

fun dedupe_loop :: "string list \<Rightarrow> string set \<Rightarrow> string list \<Rightarrow> string list" where
  "dedupe_loop [] seen urls = urls"
| "dedupe_loop (u # eps) seen urls =
     (if u \<in> seen then dedupe_loop eps seen urls else dedupe_loop eps (insert u seen) (urls @ [u]))"

fun vw_urls_loop :: "string \<Rightarrow> EndpointSlice list \<Rightarrow> go_error + string list" where
  "vw_urls_loop apiExportName [] =
     Inl (ErrMsg (''no APIExportEndpointSlice found for APIExport '' @ quoted apiExportName))"
| "vw_urls_loop apiExportName (item # items) =
     (if es_APIExportName item \<noteq> apiExportName then vw_urls_loop apiExportName items
      else if es_URLs item = [] then
        Inl (ErrMsg (''APIExportEndpointSlice for '' @ quoted apiExportName @ '' has no endpoints yet''))
      else Inr (dedupe_loop (es_URLs item) {} []))"

definition VirtualWorkspaceURLs :: "KcpReader \<Rightarrow> string \<Rightarrow> go_error + string list" where
  "VirtualWorkspaceURLs c apiExportName =
     (case kr_ListSlices c of
        Inl e \<Rightarrow> Inl (ErrWrap ''listing APIExportEndpointSlices'' (ErrAPI e))
      | Inr items \<Rightarrow> vw_urls_loop apiExportName items)"

text \<open>\<open>urls[0]\<close> of an empty slice would panic: the result \<open>None\<close>.\<close>

definition VirtualWorkspaceURL :: "KcpReader \<Rightarrow> string \<Rightarrow> (go_error + string) option" where
  "VirtualWorkspaceURL c apiExportName =
     (case VirtualWorkspaceURLs c apiExportName of
        Inl err \<Rightarrow> Some (Inl err)
      | Inr [] \<Rightarrow> None
      | Inr (url # _) \<Rightarrow> Some (Inr url))"

fun slice_name_loop :: "string \<Rightarrow> EndpointSlice list \<Rightarrow> go_error + string" where
  "slice_name_loop apiExportName [] =
     Inl (ErrMsg (''no APIExportEndpointSlice found for APIExport '' @ quoted apiExportName))"
| "slice_name_loop apiExportName (item # items) =
     (if es_APIExportName item = apiExportName then Inr (es_Name item)
      else slice_name_loop apiExportName items)"

definition EndpointSliceName :: "KcpReader \<Rightarrow> string \<Rightarrow> go_error + string" where
  "EndpointSliceName c apiExportName =
     (case kr_ListSlices c of
        Inl e \<Rightarrow> Inl (ErrWrap ''listing APIExportEndpointSlices'' (ErrAPI e))
      | Inr items \<Rightarrow> slice_name_loop apiExportName items)"

section \<open>Kinds\<close>

fun schema_loop :: "string \<Rightarrow> string \<Rightarrow> ExportedResource list \<Rightarrow> string" where
  "schema_loop g resource [] = []"
| "schema_loop g resource (r # rs) =
     (if xr_Group r = g \<and> xr_Name r = resource then xr_Schema r else schema_loop g resource rs)"

definition ResolveKind :: "KcpReader \<Rightarrow> string \<Rightarrow> string \<Rightarrow> string \<Rightarrow> go_error + string" where
  "ResolveKind c apiExportName g resource =
     (case kr_GetExport c apiExportName of
        Inl e \<Rightarrow> Inl (ErrWrap (''getting APIExport '' @ quoted apiExportName) (ErrAPI e))
      | Inr ex \<Rightarrow>
          let schemaName = schema_loop g resource (ae_Resources ex) in
          if schemaName = [] then
            Inl (ErrMsg (''APIExport '' @ quoted apiExportName @ '' does not export resource ''
              @ quoted resource @ '' in group '' @ quoted g))
          else case kr_GetSchemaKind c schemaName of
            Inl e \<Rightarrow> Inl (ErrWrap (''getting APIResourceSchema '' @ quoted schemaName) (ErrAPI e))
          | Inr kind \<Rightarrow>
              if kind = [] then
                Inl (ErrMsg (''APIResourceSchema '' @ quoted schemaName @ '' has empty spec.names.kind''))
              else Inr kind)"

section \<open>Hosts\<close>

record Config =
  cfg_Host :: string

definition clusters_path :: string where
  "clusters_path = ''/clusters/''"

text \<open>The dash of the error messages, in UTF-8.\<close>

definition em_dash :: string where
  "em_dash = [CHR 0xE2, CHR 0x80, CHR 0x94]"

definition ValidateKubeconfig :: "Config option \<Rightarrow> go_error option" where
  "ValidateKubeconfig cfg =
     (case cfg of
        None \<Rightarrow> Some (ErrMsg ''kubeconfig is nil'')
      | Some c \<Rightarrow>
          if \<not> Contains (cfg_Host c) clusters_path then
            Some (ErrMsg (''kubeconfig host does not contain a /clusters/ workspace path '' @ em_dash @
              '' ensure the kubeconfig points to a kcp workspace (e.g. https://host/clusters/root:cloud-api-system)''))
          else None)"

definition BaseConfig :: "Config \<Rightarrow> go_error + Config" where
  "BaseConfig cfg =
     (case Index (cfg_Host cfg) clusters_path of
        None \<Rightarrow> Inl (ErrMsg (''kubeconfig host does not contain a /clusters/ workspace path '' @ em_dash @
          '' cannot derive front-proxy base URL''))
      | Some idx \<Rightarrow> Inr (cfg\<lparr>cfg_Host := take idx (cfg_Host cfg)\<rparr>))"

text \<open>
  How the controller builds a workspace-scoped host from the base (the reconcile closure and
  the accounting manager do it alike).
\<close>

definition workspace_config :: "Config \<Rightarrow> string \<Rightarrow> Config" where
  "workspace_config base cluster = base\<lparr>cfg_Host := TrimRight (cfg_Host base) ''/'' @ ''/clusters/'' @ cluster\<rparr>"

section \<open>Lemmas\<close>

lemma dedupe_loop_spec:
  "distinct urls \<Longrightarrow> set urls = seen \<Longrightarrow>
     distinct (dedupe_loop eps seen urls) \<and> set (dedupe_loop eps seen urls) = seen \<union> set eps \<and>
     (\<exists>more. dedupe_loop eps seen urls = urls @ more)"
proof (induction eps seen urls rule: dedupe_loop.induct)
  case (2 u eps seen urls)
  show ?case
  proof (cases "u \<in> seen")
    case True
    with 2 show ?thesis by (auto simp: insert_absorb)
  next
    case False
    with "2.IH"(2) "2.prems" have "distinct (dedupe_loop eps (insert u seen) (urls @ [u])) \<and>
        set (dedupe_loop eps (insert u seen) (urls @ [u])) = insert u seen \<union> set eps \<and>
        (\<exists>more. dedupe_loop eps (insert u seen) (urls @ [u]) = (urls @ [u]) @ more)"
      by simp
    with False show ?thesis by auto
  qed
qed simp

lemma dedupe_first: "dedupe_loop (u # eps) {} [] \<noteq> [] \<and> hd (dedupe_loop (u # eps) {} []) = u"
  using dedupe_loop_spec [of "[u]" "{u}" eps] by auto

lemma vw_urls_loop_ok:
  "vw_urls_loop x items = Inr urls \<Longrightarrow>
     \<exists>pre item post. items = pre @ item # post \<and> x \<notin> es_APIExportName ` set pre \<and>
       es_APIExportName item = x \<and> es_URLs item \<noteq> [] \<and> urls = dedupe_loop (es_URLs item) {} []"
proof (induction x items rule: vw_urls_loop.induct)
  case (2 x item items)
  show ?case
  proof (cases "es_APIExportName item = x")
    case True
    with 2 show ?thesis by (intro exI [of _ "[]"]) (auto split: if_splits)
  next
    case False
    with 2 obtain pre it post where "items = pre @ it # post" "x \<notin> es_APIExportName ` set pre"
        "es_APIExportName it = x" "es_URLs it \<noteq> []" "urls = dedupe_loop (es_URLs it) {} []"
      by auto
    with False show ?thesis by (intro exI [of _ "item # pre"]) auto
  qed
qed simp

section \<open>Properties\<close>

text \<open>
  The virtual workspace URLs returned are those of the first slice of the export, each once
  and never none; so taking the first URL never runs past the end, and it is the first
  advertised endpoint.
\<close>

theorem vw_urls_complete:
  "(case VirtualWorkspaceURLs c x of
      Inl _ \<Rightarrow> True
    | Inr urls \<Rightarrow> distinct urls \<and> urls \<noteq> [] \<and>
        (\<exists>items item. kr_ListSlices c = Inr items \<and> item \<in> set items \<and> es_APIExportName item = x \<and>
           set urls = set (es_URLs item) \<and> VirtualWorkspaceURL c x = Some (Inr (hd (es_URLs item))))) \<and>
   VirtualWorkspaceURL c x \<noteq> None"
proof (cases "VirtualWorkspaceURLs c x")
  case (Inl e)
  then show ?thesis by (simp add: VirtualWorkspaceURL_def)
next
  case (Inr urls)
  then obtain items where l: "kr_ListSlices c = Inr items" and v: "vw_urls_loop x items = Inr urls"
    by (auto simp: VirtualWorkspaceURLs_def split: sum.splits)
  from vw_urls_loop_ok [OF v] obtain item u eps where item: "item \<in> set items" "es_APIExportName item = x"
      "es_URLs item = u # eps" "urls = dedupe_loop (u # eps) {} []"
    by (metis in_set_conv_decomp neq_Nil_conv)
  have "distinct urls \<and> set urls = set (es_URLs item) \<and> urls \<noteq> [] \<and> hd urls = u"
    using dedupe_loop_spec [of "[]" "{}" "u # eps"] dedupe_first [of u eps] item by simp
  moreover from this have "VirtualWorkspaceURL c x = Some (Inr u)"
    using Inr by (cases urls) (auto simp: VirtualWorkspaceURL_def)
  ultimately show ?thesis using Inr l item by auto
qed

text \<open>
  \<open>ResolveKind\<close> returns exactly the kind of the schema that the export names first for the
  group and resource, and never an empty kind; every other case is an error.
\<close>

theorem resolve_kind_exact:
  "ResolveKind c x g res = Inr kind \<longleftrightarrow>
     kind \<noteq> [] \<and> (\<exists>ex r. kr_GetExport c x = Inr ex \<and>
       find (\<lambda>r. xr_Group r = g \<and> xr_Name r = res) (ae_Resources ex) = Some r \<and>
       xr_Schema r \<noteq> [] \<and> kr_GetSchemaKind c (xr_Schema r) = Inr kind)"
proof -
  have loop: "schema_loop g res rs = (case find (\<lambda>r. xr_Group r = g \<and> xr_Name r = res) rs of None \<Rightarrow> [] | Some r \<Rightarrow> xr_Schema r)" for rs
    by (induction rs) auto
  show ?thesis
    by (auto simp: ResolveKind_def Let_def loop split: sum.splits option.splits if_splits)
qed

text \<open>
  A kubeconfig passes validation exactly when a base can be derived from it, and the base is
  the host up to its first workspace path; the workspace host built from that base for a
  cluster points below the base again.
\<close>

theorem base_config_splits_host:
  "(ValidateKubeconfig (Some cfg) = None \<longleftrightarrow> (\<exists>base. BaseConfig cfg = Inr base)) \<and>
   (case BaseConfig cfg of
      Inl _ \<Rightarrow> True
    | Inr base \<Rightarrow> (\<exists>ws. cfg_Host cfg = cfg_Host base @ clusters_path @ ws) \<and>
        (\<forall>j < length (cfg_Host base). \<not> HasPrefix (drop j (cfg_Host cfg)) clusters_path) \<and>
        Contains (cfg_Host (workspace_config base cluster)) clusters_path)"
proof -
  have contains: "Contains (a @ ''/clusters/'' @ b) clusters_path" for a b
  proof (induction a)
    case Nil
    show ?case by (simp add: Contains_def clusters_path_def HasPrefix_def)
  next
    case (Cons ch a)
    then show ?case by (auto simp: Contains_def split: option.splits)
  qed
  show ?thesis
  proof (cases "Index (cfg_Host cfg) clusters_path")
    case None
    then show ?thesis by (simp add: ValidateKubeconfig_def BaseConfig_def Contains_def)
  next
    case (Some idx)
    have "idx + length clusters_path \<le> length (cfg_Host cfg)" using Some by (rule Index_le)
    then have len: "length (take idx (cfg_Host cfg)) = idx" by simp
    from Index_Some [OF Some] Index_first [OF Some] show ?thesis
      using Some len contains
      by (auto simp: ValidateKubeconfig_def BaseConfig_def Contains_def workspace_config_def)
  qed
qed

end
