(* ===== verification/Accounting_Manager.thy ===== *)
theory Accounting_Manager
  imports Usage_Reconciler Kcp Registry Table
begin

text \<open>
  The accounting manager of \<open>cmd/controller/accounting.go\<close>: one running set per governed export,
  reference-counted by the quotas that name it, started by \<open>Ensure\<close>, torn down when the last
  reference goes and relaunched after an unexpected stop. Every section under the mutex is one
  function of the manager's state; Go's map iteration takes an order as an argument.
\<close>

section \<open>State\<close>

text \<open>
  A set is a fresh number (the pointer the goroutine compares). \<open>am_cancelled\<close> records whose
  cancel function was called.
\<close>

record accountingManager =
  am_sets :: "string \<rightharpoonup> nat"
  am_refs :: "string \<rightharpoonup> string set"
  am_starting :: "string set"
  am_cancelled :: "nat set"
  am_next :: nat

definition newAccountingManager :: accountingManager where
  "newAccountingManager = \<lparr>am_sets = Map.empty, am_refs = Map.empty, am_starting = {}, am_cancelled = {}, am_next = 0\<rparr>"

record governed =
  gv_group :: string
  gv_version :: string
  gv_resource :: string
  gv_identityHash :: string
  gv_apiExportName :: string

definition accountingKey :: "string \<Rightarrow> string \<Rightarrow> string \<Rightarrow> string" where
  "accountingKey g resource identityHash = g @ ''/'' @ resource @ ''/'' @ identityHash"

definition governedControllerName :: "governed \<Rightarrow> string" where
  "governedControllerName g =
     (let iden = truncate_to 8 (gv_identityHash g) in ''governed-usage-'' @ gv_resource g @ ''-'' @ iden)"

definition governed_of :: "ConsumptionQuota \<Rightarrow> governed" where
  "governed_of cq =
     (let s = cs_Governed (cq_Spec cq) in
      \<lparr>gv_group = gr_Group s, gv_version = gr_Version s, gv_resource = gr_Resource s,
       gv_identityHash = ct_IdentityHash (cq_Status cq), gv_apiExportName = gr_APIExportName s\<rparr>)"

definition quota_key :: "ConsumptionQuota \<Rightarrow> string" where
  "quota_key cq =
     accountingKey (gr_Group (cs_Governed (cq_Spec cq))) (gr_Resource (cs_Governed (cq_Spec cq)))
       (ct_IdentityHash (cq_Status cq))"

definition cq_ref :: "string \<Rightarrow> string \<Rightarrow> string" where
  "cq_ref providerCluster cqName = providerCluster @ ''/'' @ cqName"

section \<open>References\<close>

text \<open>\<open>a.refs[key]\<close>: a missing set has no elements.\<close>

definition refs_of :: "accountingManager \<Rightarrow> string \<Rightarrow> string set" where
  "refs_of a key = (case am_refs a key of None \<Rightarrow> {} | Some S \<Rightarrow> S)"

fun drop_loop :: "string \<Rightarrow> string \<Rightarrow> string list \<Rightarrow> accountingManager \<Rightarrow> accountingManager" where
  "drop_loop cqRef keepKey [] a = a"
| "drop_loop cqRef keepKey (key # keys) a =
     (if key = keepKey \<or> cqRef \<notin> refs_of a key then drop_loop cqRef keepKey keys a
      else
        let refs = refs_of a key - {cqRef} in
        if refs \<noteq> {} then drop_loop cqRef keepKey keys (a\<lparr>am_refs := (am_refs a)(key \<mapsto> refs)\<rparr>)
        else
          let a1 = a\<lparr>am_refs := (am_refs a)(key := None)\<rparr> in
          case am_sets a1 key of
            Some inst \<Rightarrow> drop_loop cqRef keepKey keys
              (a1\<lparr>am_sets := (am_sets a1)(key := None), am_cancelled := insert inst (am_cancelled a1)\<rparr>)
          | None \<Rightarrow> drop_loop cqRef keepKey keys a1)"

text \<open>The order in which Go ranges over a map, as a function of the map.\<close>

type_synonym map_range = "(string \<rightharpoonup> string set) \<Rightarrow> string list"

definition enumerates :: "map_range \<Rightarrow> bool" where
  "enumerates ord \<longleftrightarrow> (\<forall>m. finite (dom m) \<longrightarrow> map_order m (ord m))"

definition dropRefLocked :: "map_range \<Rightarrow> string \<Rightarrow> string \<Rightarrow> accountingManager \<Rightarrow> accountingManager" where
  "dropRefLocked ord cqRef keepKey a = drop_loop cqRef keepKey (ord (am_refs a)) a"

section \<open>Ensure and Remove\<close>

text \<open>
  \<open>Ensure\<close> up to the unlock before \<open>startFn\<close>: whether it goes on to start, and the section after
  \<open>startFn\<close> returned.
\<close>

definition Ensure_enter ::
  "map_range \<Rightarrow> string \<Rightarrow> ConsumptionQuota \<Rightarrow> accountingManager \<Rightarrow> bool \<times> accountingManager" where
  "Ensure_enter ord providerCluster cq a =
     (let key = quota_key cq; cqRef = cq_ref providerCluster (cq_Name cq);
          a1 = dropRefLocked ord cqRef key a;
          a2 = a1\<lparr>am_refs := (am_refs a1)(key \<mapsto> insert cqRef (refs_of a1 key))\<rparr>
      in if am_sets a2 key \<noteq> None \<or> key \<in> am_starting a2 then (False, a2)
         else (True, a2\<lparr>am_starting := insert key (am_starting a2)\<rparr>))"

definition Ensure_exit ::
  "map_range \<Rightarrow> go_error option \<Rightarrow> string \<Rightarrow> string \<Rightarrow> accountingManager \<Rightarrow> accountingManager" where
  "Ensure_exit ord err cqRef key a =
     (let a1 = a\<lparr>am_starting := am_starting a - {key}\<rparr> in
      case err of Some _ \<Rightarrow> dropRefLocked ord cqRef [] a1 | None \<Rightarrow> a1)"

type_synonym start_fn = "string \<Rightarrow> governed \<Rightarrow> string \<Rightarrow> accountingManager \<Rightarrow> go_error option \<times> accountingManager"

definition Ensure ::
  "map_range \<Rightarrow> start_fn \<Rightarrow> string \<Rightarrow> ConsumptionQuota \<Rightarrow> accountingManager \<Rightarrow> go_error option \<times> accountingManager" where
  "Ensure ord startFn providerCluster cq a =
     (case Ensure_enter ord providerCluster cq a of
        (False, a1) \<Rightarrow> (None, a1)
      | (True, a1) \<Rightarrow>
          (case startFn providerCluster (governed_of cq) (quota_key cq) a1 of
             (err, a2) \<Rightarrow> (err, Ensure_exit ord err (cq_ref providerCluster (cq_Name cq)) (quota_key cq) a2)))"

definition Remove :: "map_range \<Rightarrow> string \<Rightarrow> string \<Rightarrow> accountingManager \<Rightarrow> accountingManager" where
  "Remove ord providerCluster cqName a = dropRefLocked ord (cq_ref providerCluster cqName) [] a"

section \<open>Starting a set\<close>

text \<open>
  What \<open>start\<close> calls outside this repository: the direct client (whose reads are in \<open>Kcp\<close>), the
  provider, the manager, the controller builder and \<open>Add\<close>.
\<close>

record sub_manager_options =
  so_MetricsBindAddress :: string
  so_HealthProbeBindAddress :: string
  so_LeaderElection :: bool
  so_SkipNameValidation :: bool

text \<open>
  A sub-manager serves neither metrics nor probes, takes part in no leader election (its parent
  does), and its controller's name may have been used before in the process.
\<close>

definition accounting_manager_options :: sub_manager_options where
  "accounting_manager_options = \<lparr>so_MetricsBindAddress = ''0'', so_HealthProbeBindAddress = ''0'',
     so_LeaderElection = False, so_SkipNameValidation = True\<rparr>"

record start_deps =
  sd_newClient :: "Config \<Rightarrow> go_error + KcpReader"
  sd_newProvider :: "Config \<Rightarrow> string \<Rightarrow> go_error option"
  sd_newManager :: "Config \<Rightarrow> sub_manager_options \<Rightarrow> go_error option"
  sd_build :: "string \<Rightarrow> string \<times> string \<times> string \<Rightarrow> go_error option"
  sd_addSweep :: "go_error option"

text \<open>\<open>ListLiveKeys\<close>: the objects of the cluster's cache as ledger keys.\<close>

fun live_keys_loop :: "(string \<times> string) list \<Rightarrow> string list \<Rightarrow> string list" where
  "live_keys_loop [] keys = keys"
| "live_keys_loop ((ns, name) # items) keys = live_keys_loop items (keys @ [ObjectKey ns name])"

type_synonym 'w cache_list =
  "string \<Rightarrow> string \<times> string \<times> string \<Rightarrow> 'w \<Rightarrow> (go_error + (string \<times> string) list) \<times> 'w"

definition ListLiveKeys ::
  "'w cache_list \<Rightarrow> string \<times> string \<times> string \<Rightarrow> string \<Rightarrow> 'w \<Rightarrow> (go_error + string list) \<times> 'w" where
  "ListLiveKeys list_cache listGVK clusterName w =
     (case list_cache clusterName listGVK w of
        (Inl err, w') \<Rightarrow> (Inl err, w')
      | (Inr items, w') \<Rightarrow> (Inr (live_keys_loop items []), w'))"

definition require :: "string \<Rightarrow> go_error option \<Rightarrow> go_error + 'a \<Rightarrow> go_error + 'a" where
  "require msg e rest = (case e of Some err \<Rightarrow> Inl (ErrWrap msg err) | None \<Rightarrow> rest)"

definition start_prepare ::
  "start_deps \<Rightarrow> Config \<Rightarrow> 'w Store \<Rightarrow> 'w cache_list \<Rightarrow> string \<Rightarrow> governed \<Rightarrow> go_error + 'w UsageReconciler" where
  "start_prepare d baseCfg store list_cache providerCluster g =
     (let svcCfg = workspace_config baseCfg providerCluster; ex = gv_apiExportName g in
      case sd_newClient d svcCfg of
        Inl e \<Rightarrow> Inl (ErrWrap ''creating direct provider-workspace client'' e)
      | Inr directClient \<Rightarrow>
          (case ResolveKind directClient ex (gv_group g) (gv_resource g) of
             Inl e \<Rightarrow> Inl (ErrWrap (''resolving kind for '' @ gv_group g @ ''/'' @ gv_resource g) e)
           | Inr kind \<Rightarrow>
               (case EndpointSliceName directClient ex of
                  Inl e \<Rightarrow> Inl (ErrWrap (''resolving endpoint slice for '' @ ex) e)
                | Inr sliceName \<Rightarrow>
                    (case VirtualWorkspaceURL directClient ex of
                       Some (Inl e) \<Rightarrow> Inl (ErrWrap (''service export '' @ ex @ '' VW not ready'') e)
                     | _ \<Rightarrow>
                         require ''creating service apiexport provider'' (sd_newProvider d svcCfg sliceName)
                         (require ''creating accounting manager'' (sd_newManager d svcCfg accounting_manager_options)
                         (require ''building governed-usage controller''
                            (sd_build d (governedControllerName g) (gv_group g, gv_version g, kind))
                         (require ''adding sweep runnable'' (sd_addSweep d)
                         (Inr \<lparr>ur_Store = store, ur_Group = gv_group g, ur_Resource = gv_resource g,
                            ur_IdentityHash = gv_identityHash g,
                            ur_ListLiveKeys =
                              ListLiveKeys list_cache (gv_group g, gv_version g, kind @ ''List'')\<rparr>))))))))"

text \<open>The registration before the goroutine is spawned; the number is the new set.\<close>

definition register_set :: "string \<Rightarrow> accountingManager \<Rightarrow> nat \<times> accountingManager" where
  "register_set key a =
     (am_next a, a\<lparr>am_sets := (am_sets a)(key \<mapsto> am_next a), am_next := Suc (am_next a)\<rparr>)"

definition start ::
  "start_deps \<Rightarrow> Config \<Rightarrow> 'w Store \<Rightarrow> 'w cache_list \<Rightarrow> string \<Rightarrow> governed \<Rightarrow> string \<Rightarrow> accountingManager
     \<Rightarrow> (go_error + nat \<times> 'w UsageReconciler) \<times> accountingManager" where
  "start d baseCfg store list_cache providerCluster g key a =
     (case start_prepare d baseCfg store list_cache providerCluster g of
        Inl err \<Rightarrow> (Inl err, a)
      | Inr ur \<Rightarrow> (case register_set key a of (inst, a') \<Rightarrow> (Inr (inst, ur), a')))"

section \<open>The goroutine of a set and the retries\<close>

text \<open>After \<open>subMgr.Start\<close> returned: whether to schedule a retry.\<close>

definition runner_exit :: "nat \<Rightarrow> string \<Rightarrow> accountingManager \<Rightarrow> bool \<times> accountingManager" where
  "runner_exit inst key a =
     (let a1 = a\<lparr>am_cancelled := insert inst (am_cancelled a)\<rparr> in
      if am_sets a1 key \<noteq> Some inst then (False, a1)
      else
        let a2 = a1\<lparr>am_sets := (am_sets a1)(key := None)\<rparr> in
        if refs_of a2 key = {} then (False, a2) else (True, a2))"

text \<open>One round of \<open>retryStart\<close> after its delay: whether to start, and the section after a start.\<close>

definition retry_enter :: "string \<Rightarrow> accountingManager \<Rightarrow> bool \<times> accountingManager" where
  "retry_enter key a =
     (if refs_of a key = {} then (False, a)
      else if am_sets a key \<noteq> None \<or> key \<in> am_starting a then (False, a)
      else (True, a\<lparr>am_starting := insert key (am_starting a)\<rparr>))"

definition retry_exit :: "string \<Rightarrow> accountingManager \<Rightarrow> accountingManager" where
  "retry_exit key a = a\<lparr>am_starting := am_starting a - {key}\<rparr>"

section \<open>What dropping a reference does\<close>

lemma refs_of_upd [simp]:
  "refs_of (a\<lparr>am_refs := (am_refs a)(k := x)\<rparr>) k' = (if k' = k then (case x of None \<Rightarrow> {} | Some S \<Rightarrow> S) else refs_of a k')"
  by (simp add: refs_of_def)

lemma refs_of_frame [simp]:
  "refs_of (a\<lparr>am_sets := s\<rparr>) k = refs_of a k" "refs_of (a\<lparr>am_starting := b\<rparr>) k = refs_of a k"
  "refs_of (a\<lparr>am_cancelled := c\<rparr>) k = refs_of a k" "refs_of (a\<lparr>am_next := m\<rparr>) k = refs_of a k"
  by (simp_all add: refs_of_def)

text \<open>Which keys lose their last reference.\<close>

definition last_ref :: "accountingManager \<Rightarrow> string \<Rightarrow> string \<Rightarrow> string \<Rightarrow> bool" where
  "last_ref a cqRef keepKey k \<longleftrightarrow> k \<noteq> keepKey \<and> refs_of a k = {cqRef}"

lemma drop_loop_effect:
  assumes "distinct keys"
  shows "am_refs (drop_loop c keep keys a) k =
      (if k \<in> set keys \<and> k \<noteq> keep \<and> c \<in> refs_of a k then
         (if refs_of a k = {c} then None else Some (refs_of a k - {c})) else am_refs a k) \<and>
    am_sets (drop_loop c keep keys a) k = (if k \<in> set keys \<and> last_ref a c keep k then None else am_sets a k) \<and>
    am_cancelled (drop_loop c keep keys a) =
      am_cancelled a \<union> {s. \<exists>k \<in> set keys. last_ref a c keep k \<and> am_sets a k = Some s} \<and>
    am_starting (drop_loop c keep keys a) = am_starting a \<and> am_next (drop_loop c keep keys a) = am_next a"
  using assms
proof (induction keys arbitrary: a)
  case (Cons key keys)
  have keys: "key \<notin> set keys" "distinct keys" using Cons.prems by simp_all
  show ?case
  proof (cases "key = keep \<or> c \<notin> refs_of a key")
    case True
    then have "\<not> last_ref a c keep key" by (auto simp: last_ref_def)
    with True Cons.IH [OF keys(2), of a] keys show ?thesis by auto
  next
    case False
    show ?thesis
    proof (cases "refs_of a key = {c}")
      case False': False
      let ?a = "a\<lparr>am_refs := (am_refs a)(key \<mapsto> refs_of a key - {c})\<rparr>"
      have ne: "refs_of a key - {c} \<noteq> {}" using False False' by auto
      then have step: "drop_loop c keep (key # keys) a = drop_loop c keep keys ?a"
        using False by (simp add: Let_def)
      have other: "last_ref ?a c keep k' = last_ref a c keep k'" if "k' \<in> set keys" for k'
        using that keys by (auto simp: last_ref_def)
      have here: "\<not> last_ref a c keep key" using False' by (simp add: last_ref_def)
      show ?thesis
        using Cons.IH [OF keys(2), of ?a] other here keys False False'
        unfolding step by (auto split: if_splits)
    next
      case True
      then have here: "last_ref a c keep key" using False by (simp add: last_ref_def)
      let ?a1 = "a\<lparr>am_refs := (am_refs a)(key := None)\<rparr>"
      let ?a = "case am_sets a key of None \<Rightarrow> ?a1
        | Some s \<Rightarrow> ?a1\<lparr>am_sets := (am_sets a)(key := None), am_cancelled := insert s (am_cancelled a)\<rparr>"
      have step: "drop_loop c keep (key # keys) a = drop_loop c keep keys ?a"
        using False True by (auto simp: Let_def split: option.split)
      have refs: "refs_of ?a k' = (if k' = key then {} else refs_of a k')" for k'
        by (auto split: option.split)
      have other: "last_ref ?a c keep k' = last_ref a c keep k'" if "k' \<in> set keys" for k'
        using that keys refs by (auto simp: last_ref_def)
      have sets: "am_sets ?a k' = (if k' = key then None else am_sets a k')" for k'
        by (auto split: option.split)
      have canc: "am_cancelled ?a = am_cancelled a \<union> {s. am_sets a key = Some s}"
        and rest: "am_starting ?a = am_starting a" "am_next ?a = am_next a"
        by (auto split: option.split)
      have arefs: "am_refs ?a k' = (if k' = key then None else am_refs a k')" for k'
        by (auto split: option.split)
      note ih = Cons.IH [OF keys(2), of ?a, unfolded refs sets canc rest arefs]
      show ?thesis
        unfolding step using ih other here keys True False by auto
    qed
  qed
qed (simp add: last_ref_def)

text \<open>What a prepared set accounts for: the governed export it was started with, in the given store.\<close>

lemma require_Inr: "require msg e rest = Inr x \<longleftrightarrow> e = None \<and> rest = Inr x"
  by (cases e) (simp_all add: require_def)

lemma start_prepare_ledger:
  assumes "start_prepare d baseCfg store list_cache pc g = Inr ur"
  shows "ur_Store ur = store \<and> ur_Group ur = gv_group g \<and> ur_Resource ur = gv_resource g \<and>
    ur_IdentityHash ur = gv_identityHash g \<and>
    (\<exists>kind. ur_ListLiveKeys ur = ListLiveKeys list_cache (gv_group g, gv_version g, kind @ ''List''))"
  using assms by (auto simp: start_prepare_def Let_def require_Inr split: sum.splits option.splits)

lemma live_keys_loop_eq: "live_keys_loop items keys = keys @ map (\<lambda>(ns, n). ObjectKey ns n) items"
  by (induction items keys rule: live_keys_loop.induct) simp_all

end
