(* ===== verification/Lifecycle.thy ===== *)
theory Lifecycle
  imports Accounting_Manager
begin

text \<open>
  The concurrent life of the accounting manager: the reconcile worker that calls \<open>Ensure\<close> and
  \<open>Remove\<close> (one, on the elected leader), the goroutines of the running sets and those of
  \<open>retryStart\<close>, interleaved at the sections under the mutex. \<open>startFn\<close> runs between two
  sections: it registers its set at one instant, or fails.
\<close>

section \<open>Threads\<close>

text \<open>\<open>WStarting\<close>/\<open>RetryStarting\<close>: inside \<open>startFn\<close>; \<open>WStarted\<close>/\<open>RetryStarted\<close>: registered, not yet past it.\<close>

datatype worker = WIdle | WStarting string string | WStarted string string
datatype gor = GNone | Runner nat string | RetryWait string | RetryStarting string | RetryStarted string

record lifecycle =
  lc_am :: accountingManager
  lc_worker :: worker
  lc_gos :: "nat \<Rightarrow> gor"

abbreviation set_go :: "nat \<Rightarrow> gor \<Rightarrow> lifecycle \<Rightarrow> lifecycle" where
  "set_go i g \<sigma> \<equiv> \<sigma>\<lparr>lc_gos := (lc_gos \<sigma>)(i := g)\<rparr>"

inductive life_step :: "map_range \<Rightarrow> lifecycle \<Rightarrow> lifecycle \<Rightarrow> bool" for ord where
  ensure_joins: "lc_worker \<sigma> = WIdle \<Longrightarrow> Ensure_enter ord pc cq (lc_am \<sigma>) = (False, a) \<Longrightarrow>
    life_step ord \<sigma> (\<sigma>\<lparr>lc_am := a\<rparr>)"
| ensure_starts: "lc_worker \<sigma> = WIdle \<Longrightarrow> Ensure_enter ord pc cq (lc_am \<sigma>) = (True, a) \<Longrightarrow>
    life_step ord \<sigma> (\<sigma>\<lparr>lc_am := a, lc_worker := WStarting (cq_ref pc (cq_Name cq)) (quota_key cq)\<rparr>)"
| start_registers: "lc_worker \<sigma> = WStarting c k \<Longrightarrow> lc_gos \<sigma> i = GNone \<Longrightarrow> register_set k (lc_am \<sigma>) = (inst, a) \<Longrightarrow>
    life_step ord \<sigma> (\<sigma>\<lparr>lc_am := a, lc_worker := WStarted c k, lc_gos := (lc_gos \<sigma>)(i := Runner inst k)\<rparr>)"
| start_fails: "lc_worker \<sigma> = WStarting c k \<Longrightarrow>
    life_step ord \<sigma> (\<sigma>\<lparr>lc_am := Ensure_exit ord (Some err) c k (lc_am \<sigma>), lc_worker := WIdle\<rparr>)"
| start_returns: "lc_worker \<sigma> = WStarted c k \<Longrightarrow>
    life_step ord \<sigma> (\<sigma>\<lparr>lc_am := Ensure_exit ord None c k (lc_am \<sigma>), lc_worker := WIdle\<rparr>)"
| removes: "lc_worker \<sigma> = WIdle \<Longrightarrow>
    life_step ord \<sigma> (\<sigma>\<lparr>lc_am := Remove ord pc cqName (lc_am \<sigma>)\<rparr>)"
| runner_stops: "lc_gos \<sigma> i = Runner inst k \<Longrightarrow> runner_exit inst k (lc_am \<sigma>) = (again, a) \<Longrightarrow>
    life_step ord \<sigma> (\<sigma>\<lparr>lc_am := a, lc_gos := (lc_gos \<sigma>)(i := if again then RetryWait k else GNone)\<rparr>)"
| retry_wakes: "lc_gos \<sigma> i = RetryWait k \<Longrightarrow> retry_enter k (lc_am \<sigma>) = (go, a) \<Longrightarrow>
    life_step ord \<sigma> (\<sigma>\<lparr>lc_am := a, lc_gos := (lc_gos \<sigma>)(i := if go then RetryStarting k else GNone)\<rparr>)"
| retry_registers: "lc_gos \<sigma> i = RetryStarting k \<Longrightarrow> lc_gos \<sigma> j = GNone \<Longrightarrow> register_set k (lc_am \<sigma>) = (inst, a) \<Longrightarrow>
    life_step ord \<sigma> (\<sigma>\<lparr>lc_am := a, lc_gos := (lc_gos \<sigma>)(i := RetryStarted k, j := Runner inst k)\<rparr>)"
| retry_fails: "lc_gos \<sigma> i = RetryStarting k \<Longrightarrow>
    life_step ord \<sigma> (\<sigma>\<lparr>lc_am := retry_exit k (lc_am \<sigma>), lc_gos := (lc_gos \<sigma>)(i := RetryWait k)\<rparr>)"
| retry_returns: "lc_gos \<sigma> i = RetryStarted k \<Longrightarrow>
    life_step ord \<sigma> (\<sigma>\<lparr>lc_am := retry_exit k (lc_am \<sigma>), lc_gos := (lc_gos \<sigma>)(i := GNone)\<rparr>)"

definition life_init :: lifecycle where
  "life_init = \<lparr>lc_am = newAccountingManager, lc_worker = WIdle, lc_gos = (\<lambda>_. GNone)\<rparr>"

definition life_reach :: "map_range \<Rightarrow> lifecycle \<Rightarrow> bool" where
  "life_reach ord \<sigma> \<longleftrightarrow> (life_step ord)\<^sup>*\<^sup>* life_init \<sigma>"

section \<open>The invariant\<close>

text \<open>Who is inside a start of a key (the worker is \<open>None\<close>), and whether it has registered yet.\<close>

fun worker_starts :: "worker \<Rightarrow> string \<Rightarrow> bool" where
  "worker_starts WIdle k = False"
| "worker_starts (WStarting c k') k = (k' = k)"
| "worker_starts (WStarted c k') k = (k' = k)"

fun go_starts :: "gor \<Rightarrow> string \<Rightarrow> bool" where
  "go_starts (RetryStarting k') k = (k' = k)"
| "go_starts (RetryStarted k') k = (k' = k)"
| "go_starts _ k = False"

fun starts :: "worker \<Rightarrow> (nat \<Rightarrow> gor) \<Rightarrow> string \<Rightarrow> nat option \<Rightarrow> bool" where
  "starts w g k None = worker_starts w k"
| "starts w g k (Some i) = go_starts (g i) k"

definition before_registration :: "worker \<Rightarrow> (nat \<Rightarrow> gor) \<Rightarrow> string \<Rightarrow> bool" where
  "before_registration w g k \<longleftrightarrow> (\<exists>c. w = WStarting c k) \<or> (\<exists>i. g i = RetryStarting k)"

definition refs_inv :: "accountingManager \<Rightarrow> bool" where
  "refs_inv a \<longleftrightarrow> finite (dom (am_refs a)) \<and> (\<forall>k. am_refs a k \<noteq> Some {}) \<and>
     (\<forall>c k k'. c \<in> refs_of a k \<longrightarrow> c \<in> refs_of a k' \<longrightarrow> k = k')"

definition start_inv :: "accountingManager \<Rightarrow> worker \<Rightarrow> (nat \<Rightarrow> gor) \<Rightarrow> bool" where
  "start_inv a w g \<longleftrightarrow> (\<forall>k. (k \<in> am_starting a \<longleftrightarrow> (\<exists>x. starts w g k x)) \<and>
     (\<forall>x y. starts w g k x \<longrightarrow> starts w g k y \<longrightarrow> x = y) \<and>
     (before_registration w g k \<longrightarrow> am_sets a k = None))"

definition runner_inv :: "accountingManager \<Rightarrow> (nat \<Rightarrow> gor) \<Rightarrow> bool" where
  "runner_inv a g \<longleftrightarrow>
     (\<forall>i inst k. g i = Runner inst k \<longrightarrow> inst < am_next a \<and> (inst \<in> am_cancelled a \<or> am_sets a k = Some inst)) \<and>
     (\<forall>i j inst k k'. g i = Runner inst k \<longrightarrow> g j = Runner inst k' \<longrightarrow> i = j) \<and>
     (\<forall>k inst. am_sets a k = Some inst \<longrightarrow> inst \<notin> am_cancelled a \<and> (\<exists>i. g i = Runner inst k)) \<and>
     (\<forall>inst \<in> am_cancelled a. inst < am_next a)"

definition life_inv :: "lifecycle \<Rightarrow> bool" where
  "life_inv \<sigma> \<longleftrightarrow> refs_inv (lc_am \<sigma>) \<and> start_inv (lc_am \<sigma>) (lc_worker \<sigma>) (lc_gos \<sigma>) \<and>
     runner_inv (lc_am \<sigma>) (lc_gos \<sigma>)"

lemma starts_none: "\<not> starts WIdle (\<lambda>_. GNone) k x"
  by (cases x) simp_all

lemma life_inv_init: "life_inv life_init"
  by (simp add: life_inv_def life_init_def refs_inv_def start_inv_def runner_inv_def starts_none
      before_registration_def newAccountingManager_def refs_of_def)

section \<open>Dropping a reference\<close>

lemma dropRef_effect:
  assumes ord: "enumerates ord" and inv: "refs_inv a"
  shows "refs_of (dropRefLocked ord c keep a) k = (if k = keep then refs_of a k else refs_of a k - {c})"
    and "am_refs (dropRefLocked ord c keep a) k =
      (if last_ref a c keep k then None else if k = keep then am_refs a k else map_option (\<lambda>S. S - {c}) (am_refs a k))"
    and "am_sets (dropRefLocked ord c keep a) k = (if last_ref a c keep k then None else am_sets a k)"
    and "am_cancelled (dropRefLocked ord c keep a) =
      am_cancelled a \<union> {s. \<exists>k. last_ref a c keep k \<and> am_sets a k = Some s}"
    and "am_starting (dropRefLocked ord c keep a) = am_starting a"
    and "am_next (dropRefLocked ord c keep a) = am_next a"
proof -
  have range: "distinct (ord (am_refs a))" "set (ord (am_refs a)) = dom (am_refs a)"
    using ord inv by (auto simp: enumerates_def map_order_def refs_inv_def)
  have in_dom: "k \<in> dom (am_refs a)" if "c \<in> refs_of a k" for k
    using that by (auto simp: refs_of_def split: option.splits)
  then have last_dom: "k \<in> dom (am_refs a)" if "last_ref a c keep k" for k
    using that by (auto simp: last_ref_def)
  note eff = drop_loop_effect [OF range(1), of c keep a, folded dropRefLocked_def, unfolded range(2)]
  show refs: "am_refs (dropRefLocked ord c keep a) k =
      (if last_ref a c keep k then None else if k = keep then am_refs a k else map_option (\<lambda>S. S - {c}) (am_refs a k))"
    using eff [of k] in_dom [of k] by (auto simp: last_ref_def refs_of_def split: option.splits if_splits)
  show "refs_of (dropRefLocked ord c keep a) k = (if k = keep then refs_of a k else refs_of a k - {c})"
    using refs by (auto simp: refs_of_def last_ref_def split: option.splits if_splits)
  show "am_sets (dropRefLocked ord c keep a) k = (if last_ref a c keep k then None else am_sets a k)"
    using eff [of k] last_dom by auto
  show "am_cancelled (dropRefLocked ord c keep a) =
      am_cancelled a \<union> {s. \<exists>k. last_ref a c keep k \<and> am_sets a k = Some s}"
    using eff [of k] last_dom by auto
  show "am_starting (dropRefLocked ord c keep a) = am_starting a"
    "am_next (dropRefLocked ord c keep a) = am_next a"
    using eff [of k] by simp_all
qed

lemma dropRef_refs_inv:
  assumes ord: "enumerates ord" and inv: "refs_inv a"
  shows "refs_inv (dropRefLocked ord c keep a)"
proof -
  note eff = dropRef_effect [OF assms, of c keep]
  have "dom (am_refs (dropRefLocked ord c keep a)) \<subseteq> dom (am_refs a)"
    unfolding dom_def by (auto simp: eff(2) split: if_splits)
  then have fin: "finite (dom (am_refs (dropRefLocked ord c keep a)))"
    using inv finite_subset by (auto simp: refs_inv_def)
  have "am_refs (dropRefLocked ord c keep a) k \<noteq> Some {}" for k
  proof (cases "am_refs a k")
    case (Some S)
    then have "S \<noteq> {}" using inv by (auto simp: refs_inv_def)
    then show ?thesis
      using Some unfolding eff(2) by (auto simp: last_ref_def refs_of_def)
  qed (auto simp: eff(2))
  with fin inv show ?thesis by (auto simp: refs_inv_def eff(1) split: if_splits)
qed

text \<open>Dropping keeps what is known of starts and runners.\<close>

lemma start_active: "start_inv a w g \<Longrightarrow> k \<in> am_starting a \<longleftrightarrow> (\<exists>x. starts w g k x)"
  and start_unique: "start_inv a w g \<Longrightarrow> starts w g k x \<Longrightarrow> starts w g k y \<Longrightarrow> x = y"
  and start_unregistered: "start_inv a w g \<Longrightarrow> before_registration w g k \<Longrightarrow> am_sets a k = None"
  unfolding start_inv_def by simp_all

lemma start_invI:
  assumes "\<And>k. k \<in> am_starting a \<longleftrightarrow> (\<exists>x. starts w g k x)"
    and "\<And>k x y. starts w g k x \<Longrightarrow> starts w g k y \<Longrightarrow> x = y"
    and "\<And>k. before_registration w g k \<Longrightarrow> am_sets a k = None"
  shows "start_inv a w g"
  unfolding start_inv_def
proof (intro conjI allI impI)
  fix k show "k \<in> am_starting a \<longleftrightarrow> (\<exists>x. starts w g k x)" by (rule assms(1))
next
  fix k x y assume "starts w g k x" "starts w g k y" then show "x = y" by (rule assms(2))
next
  fix k assume "before_registration w g k" then show "am_sets a k = None" by (rule assms(3))
qed

lemma start_inv_drop:
  assumes "enumerates ord" and "refs_inv a" and "start_inv a w g"
  shows "start_inv (dropRefLocked ord c keep a) w g"
  using assms(3) by (simp add: start_inv_def dropRef_effect [OF assms(1,2)])

lemma runner_runs: "runner_inv a g \<Longrightarrow> g i = Runner inst k \<Longrightarrow>
    inst < am_next a \<and> (inst \<in> am_cancelled a \<or> am_sets a k = Some inst)"
  unfolding runner_inv_def by (elim conjE) simp

lemma runner_unique: "runner_inv a g \<Longrightarrow> g i = Runner inst k \<Longrightarrow> g j = Runner inst k' \<Longrightarrow> i = j"
  unfolding runner_inv_def by (elim conjE) meson

lemma runner_registered: "runner_inv a g \<Longrightarrow> am_sets a k = Some inst \<Longrightarrow>
    inst \<notin> am_cancelled a \<and> (\<exists>i. g i = Runner inst k)"
  unfolding runner_inv_def by (elim conjE) simp

lemma runner_cancelled: "runner_inv a g \<Longrightarrow> inst \<in> am_cancelled a \<Longrightarrow> inst < am_next a"
  unfolding runner_inv_def by (elim conjE) simp

lemma runner_invI:
  assumes "\<And>i inst k. g i = Runner inst k \<Longrightarrow> inst < am_next a \<and> (inst \<in> am_cancelled a \<or> am_sets a k = Some inst)"
    and "\<And>i j inst k k'. g i = Runner inst k \<Longrightarrow> g j = Runner inst k' \<Longrightarrow> i = j"
    and "\<And>k inst. am_sets a k = Some inst \<Longrightarrow> inst \<notin> am_cancelled a \<and> (\<exists>i. g i = Runner inst k)"
    and "\<And>inst. inst \<in> am_cancelled a \<Longrightarrow> inst < am_next a"
  shows "runner_inv a g"
  unfolding runner_inv_def
proof (intro conjI allI impI ballI)
  fix i inst k assume "g i = Runner inst k"
  from assms(1) [OF this] show "inst < am_next a" "inst \<in> am_cancelled a \<or> am_sets a k = Some inst" by simp_all
next
  fix i j inst k k' assume "g i = Runner inst k" "g j = Runner inst k'"
  then show "i = j" by (rule assms(2))
next
  fix k inst assume "am_sets a k = Some inst"
  from assms(3) [OF this] show "inst \<notin> am_cancelled a" "\<exists>i. g i = Runner inst k" by simp_all
next
  fix inst assume "inst \<in> am_cancelled a"
  then show "inst < am_next a" by (rule assms(4))
qed

lemma runner_inv_distinct:
  assumes inv: "runner_inv a g" and "am_sets a k = Some s" and "am_sets a k' = Some s"
  shows "k = k'"
proof -
  obtain i where i: "g i = Runner s k" using runner_registered [OF inv assms(2)] by blast
  obtain j where j: "g j = Runner s k'" using runner_registered [OF inv assms(3)] by blast
  from runner_unique [OF inv i j] i j show ?thesis by simp
qed

lemma runner_inv_drop:
  assumes "enumerates ord" and "refs_inv a" and inv: "runner_inv a g"
  shows "runner_inv (dropRefLocked ord c keep a) g"
proof (rule runner_invI)
  let ?a = "dropRefLocked ord c keep a"
  note eff = dropRef_effect [OF assms(1,2), of c keep]
  show "inst < am_next ?a \<and> (inst \<in> am_cancelled ?a \<or> am_sets ?a k = Some inst)" if "g i = Runner inst k" for i inst k
    using runner_runs [OF inv that] by (auto simp: eff(3,4,6))
  show "i = j" if "g i = Runner inst k" "g j = Runner inst k'" for i j inst k k'
    using runner_unique [OF inv that] .
  show "inst \<notin> am_cancelled ?a \<and> (\<exists>i. g i = Runner inst k)" if "am_sets ?a k = Some inst" for k inst
  proof -
    have k: "am_sets a k = Some inst" "\<not> last_ref a c keep k" using that by (auto simp: eff(3) split: if_splits)
    then have "\<not> (\<exists>k'. last_ref a c keep k' \<and> am_sets a k' = Some inst)"
      using runner_inv_distinct [OF inv k(1)] by blast
    with runner_registered [OF inv k(1)] show ?thesis by (simp add: eff(4))
  qed
  show "inst < am_next ?a" if "inst \<in> am_cancelled ?a" for inst
  proof -
    from that consider "inst \<in> am_cancelled a" | k where "am_sets a k = Some inst" by (auto simp: eff(4))
    then show ?thesis
    proof cases
      case 1
      then show ?thesis using runner_cancelled [OF inv] by (simp add: eff(6))
    next
      case 2
      then show ?thesis using runner_registered [OF inv 2] runner_runs [OF inv] by (auto simp: eff(6))
    qed
  qed
qed

section \<open>The sections keep the invariant\<close>

lemma refs_of_start [simp]: "refs_inv (a\<lparr>am_starting := x\<rparr>) = refs_inv a" "refs_inv (a\<lparr>am_cancelled := c\<rparr>) = refs_inv a"
  "refs_inv (a\<lparr>am_sets := s\<rparr>) = refs_inv a" "refs_inv (a\<lparr>am_next := n\<rparr>) = refs_inv a"
  by (simp_all add: refs_inv_def)

lemma runner_inv_frame [simp]: "runner_inv (a\<lparr>am_starting := x\<rparr>) g = runner_inv a g"
  "runner_inv (a\<lparr>am_refs := r\<rparr>) g = runner_inv a g"
  by (simp_all add: runner_inv_def)

lemma start_inv_refs [simp]: "start_inv (a\<lparr>am_refs := r\<rparr>) w g = start_inv a w g"
  "start_inv (a\<lparr>am_cancelled := c\<rparr>) w g = start_inv a w g"
  by (simp_all add: start_inv_def)

text \<open>The reference \<open>Ensure\<close> adds.\<close>

definition add_ref :: "string \<Rightarrow> string \<Rightarrow> accountingManager \<Rightarrow> accountingManager" where
  "add_ref key cqRef a = a\<lparr>am_refs := (am_refs a)(key \<mapsto> insert cqRef (refs_of a key))\<rparr>"

lemma add_ref_simps [simp]: "am_sets (add_ref key c a) = am_sets a" "am_starting (add_ref key c a) = am_starting a"
  "am_cancelled (add_ref key c a) = am_cancelled a" "am_next (add_ref key c a) = am_next a"
  "refs_of (add_ref key c a) k = (if k = key then insert c (refs_of a key) else refs_of a k)"
  by (simp_all add: add_ref_def)

lemma refs_inv_add:
  assumes ord: "enumerates ord" and inv: "refs_inv a"
  shows "refs_inv (add_ref key c (dropRefLocked ord c key a))"
proof -
  let ?a = "dropRefLocked ord c key a"
  have inv': "refs_inv ?a" using assms by (rule dropRef_refs_inv)
  have "finite (dom (am_refs (add_ref key c ?a)))" "am_refs (add_ref key c ?a) k \<noteq> Some {}" for k
    using inv' by (auto simp: add_ref_def refs_inv_def)
  moreover have "x \<in> refs_of (add_ref key c ?a) k \<longrightarrow> x \<in> refs_of (add_ref key c ?a) k' \<longrightarrow> k = k'" for x k k'
    using inv dropRef_effect(1) [OF assms, of c key] by (auto simp: refs_inv_def split: if_splits)
  ultimately show ?thesis unfolding refs_inv_def by blast
qed

lemma Ensure_enter_eq:
  "Ensure_enter ord pc cq a =
     (let key = quota_key cq; a2 = add_ref key (cq_ref pc (cq_Name cq)) (dropRefLocked ord (cq_ref pc (cq_Name cq)) key a) in
      if am_sets a2 key \<noteq> None \<or> key \<in> am_starting a2 then (False, a2)
      else (True, a2\<lparr>am_starting := insert key (am_starting a2)\<rparr>))"
  by (simp add: Ensure_enter_def Let_def add_ref_def)

lemma ensure_section:
  assumes ord: "enumerates ord" and inv: "refs_inv a" "start_inv a w g" "runner_inv a g"
  shows "refs_inv (snd (Ensure_enter ord pc cq a)) \<and> runner_inv (snd (Ensure_enter ord pc cq a)) g \<and>
    (\<not> fst (Ensure_enter ord pc cq a) \<longrightarrow> start_inv (snd (Ensure_enter ord pc cq a)) w g) \<and>
    (fst (Ensure_enter ord pc cq a) \<longrightarrow> w = WIdle \<longrightarrow>
       start_inv (snd (Ensure_enter ord pc cq a)) (WStarting c (quota_key cq)) g)"
proof -
  let ?key = "quota_key cq" and ?c = "cq_ref pc (cq_Name cq)"
  let ?a2 = "add_ref ?key ?c (dropRefLocked ord ?c ?key a)"
  have r: "refs_inv ?a2" using ord inv(1) by (rule refs_inv_add)
  have n: "runner_inv ?a2 g" using runner_inv_drop [OF ord inv(1,3)] by (simp add: add_ref_def)
  have s: "start_inv ?a2 w g" using start_inv_drop [OF ord inv(1,2)] by (simp add: add_ref_def)
  have "start_inv (?a2\<lparr>am_starting := insert ?key (am_starting ?a2)\<rparr>) (WStarting c ?key) g"
    if none: "am_sets ?a2 ?key = None" "?key \<notin> am_starting ?a2" and w: "w = WIdle"
  proof -
    have "starts (WStarting c ?key) g k x \<longleftrightarrow> (if k = ?key then x = None else starts w g k x)" for k x
    proof (cases x)
      case None
      then show ?thesis using w by auto
    next
      case (Some i)
      have "\<not> starts w g ?key (Some i)" using start_active [OF s, of ?key] none(2) by blast
      with Some show ?thesis by auto
    qed
    note new = this
    have "before_registration (WStarting c ?key) g k \<longrightarrow> am_sets ?a2 k = None" for k
      using s none(1) by (auto simp: start_inv_def before_registration_def)
    with start_active [OF s] start_unique [OF s] new show ?thesis
      by (intro start_invI) (auto split: if_splits)
  qed
  with r n s show ?thesis by (auto simp: Ensure_enter_eq Let_def)
qed

text \<open>A start ends: its key leaves \<open>starting\<close>.\<close>

lemma start_inv_finish:
  assumes inv: "start_inv a w g"
    and "\<And>k' y. starts w' g' k' y \<longleftrightarrow> k' \<noteq> k \<and> starts w g k' y"
    and "\<And>k'. before_registration w' g' k' \<Longrightarrow> before_registration w g k'"
  shows "start_inv (a\<lparr>am_starting := am_starting a - {k}\<rparr>) w' g'"
  using start_active [OF inv] start_unique [OF inv] start_unregistered [OF inv] assms(2,3)
  by (intro start_invI) auto

text \<open>Nothing about starts changes.\<close>

lemma start_inv_same:
  assumes inv: "start_inv a w g" and "\<And>k' y. starts w' g' k' y \<longleftrightarrow> starts w g k' y"
    and "\<And>k'. before_registration w' g' k' \<Longrightarrow> am_sets a' k' = None"
    and "am_starting a' = am_starting a"
  shows "start_inv a' w' g'"
  using start_active [OF inv] start_unique [OF inv] assms(2-4) by (intro start_invI) auto

lemma runner_inv_same:
  assumes inv: "runner_inv a g" and "\<And>l inst k'. g' l = Runner inst k' \<longleftrightarrow> g l = Runner inst k'"
  shows "runner_inv a g'"
  using runner_runs [OF inv] runner_unique [OF inv] runner_registered [OF inv] runner_cancelled [OF inv] assms(2)
  by (intro runner_invI) auto

lemma runner_inv_register:
  assumes inv: "runner_inv a g" and none: "am_sets a k = None"
    and gos: "\<And>l inst k'. g' l = Runner inst k' \<longleftrightarrow> (if l = j then inst = am_next a \<and> k' = k else g l = Runner inst k')"
    and free: "\<And>inst k'. g j \<noteq> Runner inst k'"
  shows "runner_inv (snd (register_set k a)) g'"
proof (rule runner_invI)
  let ?a = "snd (register_set k a)"
  have a: "am_sets ?a = (am_sets a)(k \<mapsto> am_next a)" "am_next ?a = Suc (am_next a)" "am_cancelled ?a = am_cancelled a"
    by (simp_all add: register_set_def)
  show "inst < am_next ?a \<and> (inst \<in> am_cancelled ?a \<or> am_sets ?a k' = Some inst)" if "g' i = Runner inst k'" for i inst k'
    using that runner_runs [OF inv, of i inst k'] none unfolding a gos by (auto split: if_splits)
  show "i = l" if "g' i = Runner inst k1" "g' l = Runner inst k2" for i l inst k1 k2
    using that runner_unique [OF inv, of i inst k1 l k2] runner_runs [OF inv, of i inst k1] runner_runs [OF inv, of l inst k2]
    unfolding gos by (auto split: if_splits)
  show "inst \<notin> am_cancelled ?a \<and> (\<exists>i. g' i = Runner inst k')" if "am_sets ?a k' = Some inst" for k' inst
  proof (cases "k' = k")
    case True
    then show ?thesis using that runner_cancelled [OF inv, of inst] unfolding a gos by auto
  next
    case False
    then have "am_sets a k' = Some inst" using that unfolding a by simp
    from runner_registered [OF inv this] obtain i where "g i = Runner inst k'" "inst \<notin> am_cancelled a"
      by blast
    moreover from this free have "i \<noteq> j" by metis
    ultimately show ?thesis unfolding a gos by auto
  qed
  show "inst < am_next ?a" if "inst \<in> am_cancelled ?a" for inst
    using that runner_cancelled [OF inv, of inst] unfolding a by simp
qed

lemma runner_inv_exit:
  assumes inv: "runner_inv a g" and run: "g i = Runner inst k"
    and gos: "\<And>l n k'. g' l = Runner n k' \<longleftrightarrow> l \<noteq> i \<and> g l = Runner n k'"
  shows "runner_inv (snd (runner_exit inst k a)) g'"
proof (rule runner_invI)
  let ?a = "snd (runner_exit inst k a)"
  have a: "am_sets ?a k' = (if k' = k \<and> am_sets a k = Some inst then None else am_sets a k')"
    "am_next ?a = am_next a" "am_cancelled ?a = insert inst (am_cancelled a)" for k'
    by (auto simp: runner_exit_def Let_def)
  show "n < am_next ?a \<and> (n \<in> am_cancelled ?a \<or> am_sets ?a k' = Some n)" if "g' l = Runner n k'" for l n k'
    using that runner_runs [OF inv, of l n k'] unfolding a gos by auto
  show "l = m" if "g' l = Runner n k1" "g' m = Runner n k2" for l m n k1 k2
    using that runner_unique [OF inv] unfolding gos by blast
  show "n \<notin> am_cancelled ?a \<and> (\<exists>l. g' l = Runner n k')" if "am_sets ?a k' = Some n" for k' n
  proof -
    have sk: "am_sets a k' = Some n" "\<not> (k' = k \<and> am_sets a k = Some inst)"
      using that unfolding a by (auto split: if_splits)
    obtain l where l: "g l = Runner n k'" and n: "n \<notin> am_cancelled a"
      using runner_registered [OF inv sk(1)] by blast
    have "l \<noteq> i" using l run sk by auto
    moreover from this have "n \<noteq> inst" using runner_unique [OF inv, of l n k' i k] l run by auto
    ultimately show ?thesis using l n unfolding a gos by auto
  qed
  show "n < am_next ?a" if "n \<in> am_cancelled ?a" for n
    using that runner_cancelled [OF inv, of n] runner_runs [OF inv run] unfolding a by auto
qed

section \<open>Every step keeps the invariant\<close>

lemma starts_upd_go: "starts w (g(i := x)) k y = (if y = Some i then go_starts x k else starts w g k y)"
  by (cases y) auto

lemma starts_worker: "starts w g k y = (case y of None \<Rightarrow> worker_starts w k | Some i \<Rightarrow> go_starts (g i) k)"
  by (cases y) auto

lemma refs_inv_register [simp]: "refs_inv (snd (register_set k a)) = refs_inv a"
  and refs_inv_exit [simp]: "refs_inv (snd (runner_exit inst k a)) = refs_inv a"
  by (simp_all add: register_set_def runner_exit_def Let_def)

lemma worker_finish:
  assumes inv: "start_inv a w g" and w: "w = WStarting c k \<or> w = WStarted c k"
  shows "start_inv (a\<lparr>am_starting := am_starting a - {k}\<rparr>) WIdle g"
proof (rule start_inv_finish [OF inv])
  have "\<not> go_starts (g i) k" for i
    using start_unique [OF inv, of k None "Some i"] w by auto
  then show "starts WIdle g k' y \<longleftrightarrow> k' \<noteq> k \<and> starts w g k' y" for k' y
    using w by (cases y) auto
  show "before_registration w g k'" if "before_registration WIdle g k'" for k'
    using that by (auto simp: before_registration_def)
qed

lemma retry_finish:
  assumes inv: "start_inv a w g" and gi: "g i = RetryStarting k \<or> g i = RetryStarted k"
    and x: "x = GNone \<or> x = RetryWait k"
  shows "start_inv (retry_exit k a) w (g(i := x))"
  unfolding retry_exit_def
proof (rule start_inv_finish [OF inv])
  have st: "starts w g k (Some i)" using gi by auto
  have "\<not> starts w g k y" if "y \<noteq> Some i" for y
    using start_unique [OF inv st, of y] that by blast
  then show "starts w (g(i := x)) k' y \<longleftrightarrow> k' \<noteq> k \<and> starts w g k' y" for k' y
    using gi x by (auto simp: starts_upd_go)
  show "before_registration w g k'" if "before_registration w (g(i := x)) k'" for k'
    using that x by (auto simp: before_registration_def split: if_splits)
qed

lemma life_step_inv:
  assumes ord: "enumerates ord" and step: "life_step ord \<sigma> \<sigma>'" and inv: "life_inv \<sigma>"
  shows "life_inv \<sigma>'"
  using step inv
proof (induction rule: life_step.induct)
  case (ensure_joins \<sigma> pc cq a)
  then show ?case using ensure_section [OF ord, of "lc_am \<sigma>" WIdle "lc_gos \<sigma>" pc cq] by (simp add: life_inv_def)
next
  case (ensure_starts \<sigma> pc cq a)
  then show ?case using ensure_section [OF ord, of "lc_am \<sigma>" WIdle "lc_gos \<sigma>" pc cq] by (simp add: life_inv_def)
next
  case (start_registers \<sigma> c k i inst a)
  let ?a = "lc_am \<sigma>" and ?g = "lc_gos \<sigma>"
  have a: "a = snd (register_set k ?a)" "inst = am_next ?a"
    using start_registers(3) by (auto simp: register_set_def)
  have si: "start_inv ?a (WStarting c k) ?g" and ri: "runner_inv ?a ?g" and fi: "refs_inv ?a"
    using start_registers by (simp_all add: life_inv_def)
  have none: "am_sets ?a k = None" by (rule start_unregistered [OF si]) (simp add: before_registration_def)
  have others: "\<not> go_starts (?g j) k" for j using start_unique [OF si, of k None "Some j"] by auto
  have "start_inv a (WStarted c k) (?g(i := Runner inst k))"
  proof (rule start_inv_same [OF si])
    show "starts (WStarted c k) (?g(i := Runner inst k)) k' y \<longleftrightarrow> starts (WStarting c k) ?g k' y" for k' y
      using start_registers(2) by (cases y) auto
    show "am_sets a k' = None" if "before_registration (WStarted c k) (?g(i := Runner inst k)) k'" for k'
    proof -
      from that obtain j where j: "?g j = RetryStarting k'" by (auto simp: before_registration_def split: if_splits)
      then have "k' \<noteq> k" using others [of j] by auto
      moreover have "am_sets ?a k' = None"
        using start_unregistered [OF si, of k'] j by (auto simp: before_registration_def)
      ultimately show ?thesis by (simp add: a register_set_def)
    qed
    show "am_starting a = am_starting ?a" by (simp add: a register_set_def)
  qed
  moreover have "runner_inv a (?g(i := Runner inst k))"
    unfolding a(1) by (rule runner_inv_register [OF ri none, where j = i]) (use start_registers(2) a(2) in auto)
  ultimately show ?case using fi by (simp add: life_inv_def a(1))
next
  case (start_fails \<sigma> c k err)
  let ?a1 = "(lc_am \<sigma>)\<lparr>am_starting := am_starting (lc_am \<sigma>) - {k}\<rparr>"
  have "start_inv ?a1 WIdle (lc_gos \<sigma>)" "refs_inv ?a1" "runner_inv ?a1 (lc_gos \<sigma>)"
    using start_fails worker_finish by (auto simp: life_inv_def)
  then show ?case
    using start_inv_drop [OF ord] runner_inv_drop [OF ord] dropRef_refs_inv [OF ord]
    by (simp add: life_inv_def Ensure_exit_def)
next
  case (start_returns \<sigma> c k)
  have "start_inv ((lc_am \<sigma>)\<lparr>am_starting := am_starting (lc_am \<sigma>) - {k}\<rparr>) WIdle (lc_gos \<sigma>)"
    using start_returns worker_finish by (auto simp: life_inv_def)
  then show ?case using start_returns by (simp add: life_inv_def Ensure_exit_def)
next
  case (removes \<sigma> pc cqName)
  then show ?case
    using start_inv_drop [OF ord] runner_inv_drop [OF ord] dropRef_refs_inv [OF ord]
    by (simp add: life_inv_def Remove_def)
next
  case (runner_stops \<sigma> i inst k again a)
  let ?a = "lc_am \<sigma>" and ?g = "lc_gos \<sigma>" and ?x = "if again then RetryWait k else GNone"
  have a: "a = snd (runner_exit inst k ?a)" using runner_stops(2) by simp
  have si: "start_inv ?a (lc_worker \<sigma>) ?g" and ri: "runner_inv ?a ?g" and fi: "refs_inv ?a"
    using runner_stops by (simp_all add: life_inv_def)
  have "start_inv a (lc_worker \<sigma>) (?g(i := ?x))"
  proof (rule start_inv_same [OF si])
    show "starts (lc_worker \<sigma>) (?g(i := ?x)) k' y \<longleftrightarrow> starts (lc_worker \<sigma>) ?g k' y" for k' y
      using runner_stops(1) by (cases y) auto
    show "am_sets a k' = None" if "before_registration (lc_worker \<sigma>) (?g(i := ?x)) k'" for k'
    proof -
      have "before_registration (lc_worker \<sigma>) ?g k'"
        using that by (auto simp: before_registration_def split: if_splits)
      from start_unregistered [OF si this] show ?thesis by (simp add: a runner_exit_def Let_def)
    qed
    show "am_starting a = am_starting ?a" by (simp add: a runner_exit_def Let_def)
  qed
  moreover have "runner_inv a (?g(i := ?x))"
    unfolding a by (rule runner_inv_exit [OF ri runner_stops(1)]) auto
  ultimately show ?case using fi by (simp add: life_inv_def a)
next
  case (retry_wakes \<sigma> i k go a)
  let ?a = "lc_am \<sigma>" and ?g = "lc_gos \<sigma>" and ?w = "lc_worker \<sigma>"
  have si: "start_inv ?a ?w ?g" and ri: "runner_inv ?a ?g" and fi: "refs_inv ?a"
    using retry_wakes by (simp_all add: life_inv_def)
  have run: "runner_inv ?a (?g(i := x))" if "\<And>n k'. x \<noteq> Runner n k'" for x
    by (rule runner_inv_same [OF ri]) (use that retry_wakes(1) in auto)
  show ?case
  proof (cases go)
    case False
    then have a: "a = ?a" using retry_wakes(2) by (auto simp: retry_enter_def split: if_splits)
    have "start_inv ?a ?w (?g(i := GNone))"
      by (rule start_inv_same [OF si])
        (use retry_wakes(1) start_unregistered [OF si] in
          \<open>auto simp: starts_upd_go starts_worker before_registration_def split: if_splits option.splits\<close>)
    then show ?thesis using False run [of GNone] fi by (simp add: life_inv_def a)
  next
    case True
    then have a: "a = ?a\<lparr>am_starting := insert k (am_starting ?a)\<rparr>" "am_sets ?a k = None" "k \<notin> am_starting ?a"
      using retry_wakes(2) by (auto simp: retry_enter_def split: if_splits)
    have none: "\<not> starts ?w ?g k y" for y using start_active [OF si, of k] a(3) by blast
    have new: "starts ?w (?g(i := RetryStarting k)) k' y \<longleftrightarrow> (if k' = k then y = Some i else starts ?w ?g k' y)" for k' y
      using none [of y] retry_wakes(1) by (auto simp: starts_upd_go)
    have "start_inv a ?w (?g(i := RetryStarting k))"
    proof (rule start_invI)
      show "k' \<in> am_starting a \<longleftrightarrow> (\<exists>x. starts ?w (?g(i := RetryStarting k)) k' x)" for k'
        unfolding new using start_active [OF si, of k'] by (auto simp: a(1))
      show "x = y" if "starts ?w (?g(i := RetryStarting k)) k' x" "starts ?w (?g(i := RetryStarting k)) k' y" for k' x y
        using that start_unique [OF si, of k' x y] unfolding new by (auto split: if_splits)
      show "am_sets a k' = None" if "before_registration ?w (?g(i := RetryStarting k)) k'" for k'
      proof (cases "k' = k")
        case False
        then have "before_registration ?w ?g k'" using that by (auto simp: before_registration_def split: if_splits)
        from start_unregistered [OF si this] show ?thesis by (simp add: a(1))
      qed (simp add: a)
    qed
    then show ?thesis using True run [of "RetryStarting k"] fi by (simp add: life_inv_def a(1))
  qed
next
  case (retry_registers \<sigma> i k j inst a)
  let ?a = "lc_am \<sigma>" and ?g = "lc_gos \<sigma>" and ?w = "lc_worker \<sigma>"
  let ?g' = "?g(i := RetryStarted k, j := Runner inst k)"
  have a: "a = snd (register_set k ?a)" "inst = am_next ?a"
    using retry_registers(3) by (auto simp: register_set_def)
  have ij: "i \<noteq> j" using retry_registers(1,2) by auto
  have si: "start_inv ?a ?w ?g" and ri: "runner_inv ?a ?g" and fi: "refs_inv ?a"
    using retry_registers by (simp_all add: life_inv_def)
  have none: "am_sets ?a k = None"
    by (rule start_unregistered [OF si]) (use retry_registers(1) in \<open>auto simp: before_registration_def\<close>)
  have me: "starts ?w ?g k (Some i)" using retry_registers(1) by simp
  have "start_inv a ?w ?g'"
  proof (rule start_inv_same [OF si])
    show "starts ?w ?g' k' y \<longleftrightarrow> starts ?w ?g k' y" for k' y
      using retry_registers(1,2) ij by (cases y) auto
    show "am_sets a k' = None" if "before_registration ?w ?g' k'" for k'
    proof -
      have old: "before_registration ?w ?g k'"
        using that by (auto simp: before_registration_def split: if_splits)
      from that have "(\<exists>c. ?w = WStarting c k') \<or> (\<exists>l. l \<noteq> i \<and> ?g l = RetryStarting k')"
        by (auto simp: before_registration_def split: if_splits)
      then obtain y where "starts ?w ?g k' y" "y \<noteq> Some i"
      proof (elim disjE exE conjE)
        fix c assume "?w = WStarting c k'"
        then show thesis by (intro that [of None]) simp_all
      next
        fix l assume "l \<noteq> i" "?g l = RetryStarting k'"
        then show thesis by (intro that [of "Some l"]) simp_all
      qed
      then have "k' \<noteq> k" using start_unique [OF si me] by blast
      with start_unregistered [OF si old] show ?thesis by (simp add: a register_set_def)
    qed
    show "am_starting a = am_starting ?a" by (simp add: a register_set_def)
  qed
  moreover have "runner_inv a ?g'"
    unfolding a(1) by (rule runner_inv_register [OF ri none, where j = j]) (use retry_registers(1,2) ij a(2) in auto)
  ultimately show ?case using fi by (simp add: life_inv_def a(1))
next
  case (retry_fails \<sigma> i k)
  have "start_inv (retry_exit k (lc_am \<sigma>)) (lc_worker \<sigma>) ((lc_gos \<sigma>)(i := RetryWait k))"
    by (rule retry_finish) (use retry_fails in \<open>auto simp: life_inv_def\<close>)
  moreover have "runner_inv (retry_exit k (lc_am \<sigma>)) ((lc_gos \<sigma>)(i := RetryWait k))"
    by (rule runner_inv_same [of _ "lc_gos \<sigma>"]) (use retry_fails in \<open>auto simp: life_inv_def retry_exit_def\<close>)
  ultimately show ?case using retry_fails by (simp add: life_inv_def) (simp add: retry_exit_def)
next
  case (retry_returns \<sigma> i k)
  have "start_inv (retry_exit k (lc_am \<sigma>)) (lc_worker \<sigma>) ((lc_gos \<sigma>)(i := GNone))"
    by (rule retry_finish) (use retry_returns in \<open>auto simp: life_inv_def\<close>)
  moreover have "runner_inv (retry_exit k (lc_am \<sigma>)) ((lc_gos \<sigma>)(i := GNone))"
    by (rule runner_inv_same [of _ "lc_gos \<sigma>"]) (use retry_returns in \<open>auto simp: life_inv_def retry_exit_def\<close>)
  ultimately show ?case using retry_returns by (simp add: life_inv_def) (simp add: retry_exit_def)
qed

lemma life_reach_inv:
  assumes ord: "enumerates ord" and reach: "life_reach ord \<sigma>"
  shows "life_inv \<sigma>"
  using reach unfolding life_reach_def
proof (induction rule: rtranclp_induct)
  case base
  show ?case by (rule life_inv_init)
next
  case (step \<sigma> \<sigma>')
  from life_step_inv [OF ord step.hyps(2) step.IH] show ?case .
qed

end
