(* ===== verification/Lifecycle_Properties.thy ===== *)
theory Lifecycle_Properties
  imports Lifecycle "HOL-Library.List_Lexorder" "HOL-Library.Char_ord"
begin

text \<open>
  The properties of the accounting manager: exact reference counting, at most one start and one
  running manager per governed export in every interleaving, and two schedules in which its
  bookkeeping and what runs come apart.
\<close>

section \<open>Reference counting\<close>

text \<open>An order for the range over a map, for the witnesses; which one does not matter.\<close>

definition sorted_range :: map_range where
  "sorted_range m = sorted_list_of_set (dom m)"

lemma sorted_range: "enumerates sorted_range"
  by (simp add: enumerates_def map_order_def sorted_range_def)

text \<open>The manager's own \<open>startFn\<close>.\<close>

definition code_start :: "start_deps \<Rightarrow> Config \<Rightarrow> 'w Store \<Rightarrow> 'w cache_list \<Rightarrow> start_fn" where
  "code_start d baseCfg store list_cache pc g key a =
     (case start d baseCfg store list_cache pc g key a of
        (Inl err, a') \<Rightarrow> (Some err, a')
      | (Inr _, a') \<Rightarrow> (None, a'))"

lemma code_start_effect:
  "code_start d b s l pc g key a = (err, a') \<Longrightarrow>
     a' = (if err = None then snd (register_set key a) else a)"
  by (auto simp: code_start_def start_def split: sum.splits prod.splits)

lemma Ensure_enter_refs:
  assumes ord: "enumerates ord" and inv: "refs_inv a"
  shows "refs_of (snd (Ensure_enter ord pc cq a)) k =
    (if k = quota_key cq then insert (cq_ref pc (cq_Name cq)) (refs_of a k) else refs_of a k - {cq_ref pc (cq_Name cq)})"
proof -
  let ?a2 = "add_ref (quota_key cq) (cq_ref pc (cq_Name cq))
    (dropRefLocked ord (cq_ref pc (cq_Name cq)) (quota_key cq) a)"
  have "refs_of (snd (Ensure_enter ord pc cq a)) k = refs_of ?a2 k"
    by (cases "am_sets ?a2 (quota_key cq) \<noteq> None \<or> quota_key cq \<in> am_starting ?a2")
      (simp_all only: Ensure_enter_eq Let_def if_True if_False snd_conv refs_of_frame)
  then show ?thesis using dropRef_effect(1) [OF ord inv] by simp
qed

lemma refs_of_register [simp]: "refs_of (snd (register_set key a)) k = refs_of a k"
  by (simp add: register_set_def refs_of_def)

lemma Ensure_effect:
  assumes ord: "enumerates ord" and inv: "refs_inv a"
    and res: "Ensure ord (code_start d baseCfg store list_cache) pc cq a = (err, a')"
  shows "case err of
      None \<Rightarrow> (\<forall>k. cq_ref pc (cq_Name cq) \<in> refs_of a' k \<longleftrightarrow> k = quota_key cq) \<and>
        (am_sets a' (quota_key cq) \<noteq> None \<or> quota_key cq \<in> am_starting a')
    | Some _ \<Rightarrow> \<forall>k. cq_ref pc (cq_Name cq) \<notin> refs_of a' k"
proof -
  let ?c = "cq_ref pc (cq_Name cq)" and ?key = "quota_key cq"
  obtain go a1 where en: "Ensure_enter ord pc cq a = (go, a1)" by fastforce
  have inv1: "refs_inv a1"
    using refs_inv_add [OF ord inv, of ?key ?c] en by (auto simp: Ensure_enter_eq Let_def split: if_splits)
  have refs: "?c \<in> refs_of a1 k \<longleftrightarrow> k = ?key" for k
    using Ensure_enter_refs [OF ord inv, of pc cq k] en by simp
  show ?thesis
  proof (cases go)
    case False
    then have "err = None" "a' = a1" using res en by (auto simp: Ensure_def)
    moreover have "am_sets a1 ?key \<noteq> None \<or> ?key \<in> am_starting a1"
      using en False by (auto simp: Ensure_enter_eq Let_def split: if_splits)
    ultimately show ?thesis using refs by simp
  next
    case True
    obtain e a2 where st: "code_start d baseCfg store list_cache pc (governed_of cq) ?key a1 = (e, a2)"
      by fastforce
    then have e: "err = e" and a': "a' = Ensure_exit ord e ?c ?key a2"
      using res en True by (auto simp: Ensure_def)
    note a2 = code_start_effect [OF st]
    show ?thesis
    proof (cases e)
      case None
      then have "am_sets a' ?key \<noteq> None" "\<And>k. refs_of a' k = refs_of a1 k"
        using a' a2 by (simp_all add: Ensure_exit_def register_set_def refs_of_def)
      then show ?thesis using e None refs by simp
    next
      case (Some x)
      have "?key \<noteq> []" by (simp add: quota_key_def accountingKey_def)
      moreover have "refs_inv (a1\<lparr>am_starting := am_starting a1 - {?key}\<rparr>)" using inv1 by simp
      ultimately have "?c \<notin> refs_of a' k" for k
        using a' a2 Some dropRef_effect(1) [OF ord, of "a1\<lparr>am_starting := am_starting a1 - {?key}\<rparr>" ?c "[]" k]
          refs by (auto simp: Ensure_exit_def)
      then show ?thesis using e Some by simp
    qed
  qed
qed

lemma Ensure_refs_inv:
  assumes ord: "enumerates ord" and inv: "refs_inv a"
  shows "refs_inv (snd (Ensure ord (code_start d baseCfg store list_cache) pc cq a))"
proof -
  let ?c = "cq_ref pc (cq_Name cq)" and ?key = "quota_key cq"
  obtain go a1 where en: "Ensure_enter ord pc cq a = (go, a1)" by fastforce
  have inv1: "refs_inv a1"
    using refs_inv_add [OF ord inv, of ?key ?c] en by (auto simp: Ensure_enter_eq Let_def split: if_splits)
  obtain e a2 where st: "code_start d baseCfg store list_cache pc (governed_of cq) ?key a1 = (e, a2)"
    by fastforce
  have "refs_inv (a2\<lparr>am_starting := am_starting a2 - {?key}\<rparr>)"
    using inv1 code_start_effect [OF st] by simp
  with en st inv1 show ?thesis
    by (auto simp: Ensure_def Ensure_exit_def Let_def dropRef_refs_inv [OF ord] split: bool.split option.split)
qed

text \<open>
  C32. \<open>Ensure\<close> moves the quota's reference: without an error the quota is counted under the key of
  its governed export and under no other, and that export is served or being started; after a
  failed start it is counted nowhere, so that its next reconcile starts again.
\<close>

theorem ensure_moves_reference:
  assumes ord: "enumerates ord" and inv: "refs_inv a"
    and res: "Ensure ord (code_start d baseCfg store list_cache) pc cq a = (err, a')"
  shows "case err of
      None \<Rightarrow> (\<forall>k. cq_ref pc (cq_Name cq) \<in> refs_of a' k \<longleftrightarrow> k = quota_key cq) \<and>
        (am_sets a' (quota_key cq) \<noteq> None \<or> quota_key cq \<in> am_starting a')
    | Some _ \<Rightarrow> \<forall>k. cq_ref pc (cq_Name cq) \<notin> refs_of a' k"
  using assms by (rule Ensure_effect)

definition demo_cq :: "string \<Rightarrow> ConsumptionQuota" where
  "demo_cq name =
     \<lparr>cq_Name = name, cq_Cluster = ''p'', cq_DeletionTimestamp = None, cq_Finalizers = [], cq_ResourceVersion = 1,
      cq_Spec = \<lparr>cs_Governed = \<lparr>gr_APIExportName = ''s3'', gr_Group = ''g'', gr_Version = ''v1'', gr_Resource = ''r''\<rparr>,
        cs_By = ''Count'', cs_DefaultLimit = 2, cs_AutoApproveCeiling = None\<rparr>,
      cq_Status = \<lparr>ct_IdentityHash = ''h''\<rparr>\<rparr>"

text \<open>An environment in which the direct client cannot be built.\<close>

definition failing_deps :: start_deps where
  "failing_deps = \<lparr>sd_newClient = (\<lambda>_. Inl (ErrMsg ''no route'')), sd_newProvider = (\<lambda>_ _. None),
     sd_newManager = (\<lambda>_ _. None), sd_build = (\<lambda>_ _. None), sd_addSweep = None\<rparr>"

theorem ensure_moves_reference_witness:
  "\<forall>k. cq_ref ''p'' ''q'' \<notin> refs_of (snd (Ensure sorted_range (code_start failing_deps \<lparr>cfg_Host = ''h''\<rparr>
      (undefined :: unit Store) (\<lambda>c g w. (Inr [], w))) ''p'' (demo_cq ''q'') newAccountingManager)) k"
proof -
  let ?start = "code_start failing_deps \<lparr>cfg_Host = ''h''\<rparr> (undefined :: unit Store) (\<lambda>c g w. (Inr [], w))"
  let ?r = "Ensure sorted_range ?start ''p'' (demo_cq ''q'') newAccountingManager"
  have inv: "refs_inv newAccountingManager" by (simp add: refs_inv_def newAccountingManager_def refs_of_def)
  have fails: "\<exists>e. fst (?start pc g key a) = Some e" for pc g key a
    by (simp add: code_start_def start_def start_prepare_def failing_deps_def Let_def)
  have "fst (Ensure_enter sorted_range ''p'' (demo_cq ''q'') newAccountingManager)"
    using dropRef_effect(3,5) [OF sorted_range inv]
    by (simp add: Ensure_enter_eq Let_def newAccountingManager_def)
  then have "\<exists>e. fst ?r = Some e"
    using fails by (auto simp: Ensure_def split: prod.splits bool.splits) (metis fst_conv)
  then obtain e where "?r = (Some e, snd ?r)" by (metis prod.collapse)
  from ensure_moves_reference [OF sorted_range inv this] show ?thesis by (simp add: demo_cq_def)
qed

section \<open>Every interleaving\<close>

text \<open>
  C17. One accounting manager per governed export: in every interleaving of reconciles, goroutines
  and retries, a registered set is running and not cancelled, and of the managers running for
  one key at most one is not cancelled, the registered one. So the confirmed count of a ledger
  has one writer.
\<close>

theorem one_manager_per_export:
  assumes "enumerates ord" and "life_reach ord \<sigma>"
  shows "(\<forall>i j inst inst' k. lc_gos \<sigma> i = Runner inst k \<and> inst \<notin> am_cancelled (lc_am \<sigma>) \<and>
      lc_gos \<sigma> j = Runner inst' k \<and> inst' \<notin> am_cancelled (lc_am \<sigma>) \<longrightarrow>
        i = j \<and> am_sets (lc_am \<sigma>) k = Some inst) \<and>
    (\<forall>k inst. am_sets (lc_am \<sigma>) k = Some inst \<longrightarrow>
      inst \<notin> am_cancelled (lc_am \<sigma>) \<and> (\<exists>i. lc_gos \<sigma> i = Runner inst k))"
proof -
  have inv: "runner_inv (lc_am \<sigma>) (lc_gos \<sigma>)" using life_reach_inv [OF assms] by (simp add: life_inv_def)
  have "i = j \<and> am_sets (lc_am \<sigma>) k = Some inst"
    if "lc_gos \<sigma> i = Runner inst k" "inst \<notin> am_cancelled (lc_am \<sigma>)"
      "lc_gos \<sigma> j = Runner inst' k" "inst' \<notin> am_cancelled (lc_am \<sigma>)" for i j inst inst' k
  proof -
    have "am_sets (lc_am \<sigma>) k = Some inst" "am_sets (lc_am \<sigma>) k = Some inst'"
      using runner_runs [OF inv that(1)] runner_runs [OF inv that(3)] that by simp_all
    then show ?thesis using runner_unique [OF inv that(1), of j k] that(3) by simp
  qed
  then show ?thesis using runner_registered [OF inv] by blast
qed

text \<open>
  Starts exclude each other: in every interleaving a key is in \<open>starting\<close> exactly while one
  thread, the reconcile worker or one retry, is inside a start of it, and no set is registered for
  the key until that start registers its own.
\<close>

theorem starts_exclusive:
  assumes "enumerates ord" and "life_reach ord \<sigma>"
  shows "(k \<in> am_starting (lc_am \<sigma>) \<longleftrightarrow> (\<exists>x. starts (lc_worker \<sigma>) (lc_gos \<sigma>) k x)) \<and>
    (\<forall>x y. starts (lc_worker \<sigma>) (lc_gos \<sigma>) k x \<and> starts (lc_worker \<sigma>) (lc_gos \<sigma>) k y \<longrightarrow> x = y) \<and>
    (before_registration (lc_worker \<sigma>) (lc_gos \<sigma>) k \<longrightarrow> am_sets (lc_am \<sigma>) k = None)"
proof -
  have inv: "start_inv (lc_am \<sigma>) (lc_worker \<sigma>) (lc_gos \<sigma>)"
    using life_reach_inv [OF assms] by (simp add: life_inv_def)
  show ?thesis
    using start_active [OF inv, of k] start_unique [OF inv, of k] start_unregistered [OF inv, of k] by blast
qed

section \<open>Concrete schedules\<close>

text \<open>States of a manager that knows one key.\<close>

definition one_key :: "nat option \<Rightarrow> string set \<Rightarrow> bool \<Rightarrow> nat set \<Rightarrow> nat \<Rightarrow> accountingManager" where
  "one_key inst refs busy cancelled n =
     \<lparr>am_sets = (\<lambda>k. if k = ''g/r/h'' then inst else None),
      am_refs = (\<lambda>k. if k = ''g/r/h'' \<and> refs \<noteq> {} then Some refs else None),
      am_starting = (if busy then {''g/r/h''} else {}), am_cancelled = cancelled, am_next = n\<rparr>"

lemma one_key_sel [simp]:
  "am_sets (one_key inst refs busy cancelled n) k = (if k = ''g/r/h'' then inst else None)"
  "refs_of (one_key inst refs busy cancelled n) k = (if k = ''g/r/h'' then refs else {})"
  "am_starting (one_key inst refs busy cancelled n) = (if busy then {''g/r/h''} else {})"
  "am_cancelled (one_key inst refs busy cancelled n) = cancelled"
  "am_next (one_key inst refs busy cancelled n) = n"
  by (simp_all add: one_key_def refs_of_def)

lemma demo_cq_key [simp]: "quota_key (demo_cq name) = ''g/r/h''" "cq_Name (demo_cq name) = name"
  by (simp_all add: quota_key_def demo_cq_def accountingKey_def)

lemma one_key_init: "newAccountingManager = one_key None {} False {} 0"
  by (simp add: newAccountingManager_def one_key_def fun_eq_iff)

lemma one_key_inv: "refs_inv (one_key inst refs busy cancelled n)"
proof -
  have "dom (am_refs (one_key inst refs busy cancelled n)) \<subseteq> {''g/r/h''}" by (auto simp: one_key_def split: if_splits)
  then have "finite (dom (am_refs (one_key inst refs busy cancelled n)))" using finite_subset by blast
  then show ?thesis by (auto simp: refs_inv_def) (auto simp: one_key_def split: if_splits)
qed

lemma accountingManager_eq:
  "a = a' \<longleftrightarrow> am_sets a = am_sets a' \<and> am_refs a = am_refs a' \<and> am_starting a = am_starting a' \<and>
     am_cancelled a = am_cancelled a' \<and> am_next a = am_next (a' :: accountingManager)"
  by (cases a; cases a') simp

lemma last_ref_keep [simp]: "\<not> last_ref a c k k"
  by (simp add: last_ref_def)

lemma one_key_drop:
  assumes "enumerates ord"
  shows "dropRefLocked ord c keep (one_key inst refs busy cancelled n) =
    (if keep = ''g/r/h'' then one_key inst refs busy cancelled n
     else if refs = {c} then one_key None {} busy (cancelled \<union> {s. inst = Some s}) n
     else one_key inst (refs - {c}) busy cancelled n)"
proof -
  let ?a = "one_key inst refs busy cancelled n"
  note eff = dropRef_effect [OF assms one_key_inv, of c keep inst refs busy cancelled n]
  have arefs: "am_refs (one_key inst refs busy cancelled n) k = (if k = ''g/r/h'' \<and> refs \<noteq> {} then Some refs else None)"
    for inst refs busy cancelled n k
    by (simp add: one_key_def)
  have last: "last_ref ?a c keep k \<longleftrightarrow> k = ''g/r/h'' \<and> keep \<noteq> ''g/r/h'' \<and> refs = {c}" for k
    by (auto simp: last_ref_def)
  show ?thesis
  proof (cases "keep \<noteq> ''g/r/h'' \<and> refs = {c}")
    case True
    then show ?thesis
      unfolding accountingManager_eq fun_eq_iff eff arefs last by (simp add: arefs)
  next
    case False
    then have no: "\<not> last_ref ?a c keep k" for k by (simp add: last)
    have "map_option (\<lambda>S. S - {c}) (am_refs ?a k) = am_refs (one_key inst (refs - {c}) busy cancelled n) k"
      if "keep \<noteq> ''g/r/h''" for k
      using False that by (auto simp: arefs)
    moreover have "am_refs ?a k = None" if "k = keep" "keep \<noteq> ''g/r/h''" for k
      using that by (simp add: arefs)
    moreover have "map_option (\<lambda>S. S - {c}) (am_refs ?a k) = am_refs ?a k" if "k \<noteq> ''g/r/h''" for k
      using that by (simp add: arefs)
    ultimately show ?thesis
      using False unfolding accountingManager_eq fun_eq_iff eff
      by (cases "keep = ''g/r/h''") (simp_all add: no, simp_all add: arefs)
  qed
qed

lemma one_key_enter:
  assumes "enumerates ord"
  shows "Ensure_enter ord pc (demo_cq name) (one_key inst refs busy cancelled n) =
    (if inst \<noteq> None \<or> busy then (False, one_key inst (insert (cq_ref pc name) refs) busy cancelled n)
     else (True, one_key None (insert (cq_ref pc name) refs) True cancelled n))"
  using one_key_drop [OF assms, of "cq_ref pc name" "''g/r/h''"]
  by (auto simp: Ensure_enter_eq Let_def) (auto simp: accountingManager_eq add_ref_def one_key_def refs_of_def fun_eq_iff)

lemma one_key_sections:
  "register_set ''g/r/h'' (one_key inst refs busy cancelled n) = (n, one_key (Some n) refs busy cancelled (Suc n))"
  "runner_exit s ''g/r/h'' (one_key (Some s) refs busy cancelled n) =
     (refs \<noteq> {}, one_key None refs busy (insert s cancelled) n)"
  "retry_exit ''g/r/h'' (one_key inst refs busy cancelled n) = one_key inst refs False cancelled n"
  "retry_enter ''g/r/h'' (one_key None refs busy cancelled n) =
     (if refs = {} \<or> busy then (False, one_key None refs busy cancelled n) else (True, one_key None refs True cancelled n))"
  "Ensure_exit ord None c ''g/r/h'' (one_key inst refs busy cancelled n) = one_key inst refs False cancelled n"
  by (auto simp: register_set_def runner_exit_def retry_exit_def retry_enter_def Ensure_exit_def Let_def
      accountingManager_eq) (auto simp: one_key_def fun_eq_iff)

lemma one_key_fail:
  "Ensure_exit ord (Some e) c ''g/r/h'' (one_key inst refs busy cancelled n) =
     dropRefLocked ord c [] (one_key inst refs False cancelled n)"
proof -
  have "(one_key inst refs busy cancelled n)\<lparr>am_starting := am_starting (one_key inst refs busy cancelled n) - {''g/r/h''}\<rparr>
      = one_key inst refs False cancelled n"
    by (simp add: accountingManager_eq) (simp add: one_key_def)
  then show ?thesis by (simp add: Ensure_exit_def Let_def)
qed

abbreviation life :: "accountingManager \<Rightarrow> worker \<Rightarrow> gor \<Rightarrow> gor \<Rightarrow> lifecycle" where
  "life a w g0 g1 \<equiv> \<lparr>lc_am = a, lc_worker = w, lc_gos = (\<lambda>_. GNone)(0 := g0, 1 := g1)\<rparr>"

lemma life_go: "life_step ord \<sigma>1 \<sigma>2 \<Longrightarrow> life_reach ord \<sigma>1 \<Longrightarrow> life_reach ord \<sigma>2"
  by (simp add: life_reach_def)

lemmas life_rules = one_key_enter [OF sorted_range] one_key_drop [OF sorted_range] one_key_sections one_key_fail

text \<open>Both schedules begin alike: a quota is ensured, and its set stops by itself.\<close>

lemma life_running:
  "life_reach sorted_range (life (one_key (Some 0) {cq_ref ''p'' ''q''} False {} 1) WIdle (Runner 0 ''g/r/h'') GNone)"
proof -
  let ?c = "cq_ref ''p'' ''q''" and ?k = "''g/r/h''"
  let ?s0 = "life (one_key None {} False {} 0) WIdle GNone GNone"
  let ?s1 = "life (one_key None {?c} True {} 0) (WStarting ?c ?k) GNone GNone"
  let ?s2 = "life (one_key (Some 0) {?c} True {} 1) (WStarted ?c ?k) (Runner 0 ?k) GNone"
  let ?s3 = "life (one_key (Some 0) {?c} False {} 1) WIdle (Runner 0 ?k) GNone"
  have s0: "life_reach sorted_range ?s0"
    by (simp add: life_reach_def life_init_def one_key_init fun_upd_idem)
  have "life_step sorted_range ?s0 ?s1"
    using ensure_starts [of ?s0 sorted_range "''p''" "demo_cq ''q''" "one_key None {?c} True {} 0"]
    by (simp add: life_rules)
  moreover have "life_step sorted_range ?s1 ?s2"
    using start_registers [of ?s1 ?c ?k 0 0 "one_key (Some 0) {?c} True {} 1" sorted_range]
    by (simp add: life_rules fun_upd_twist)
  moreover have "life_step sorted_range ?s2 ?s3"
    using start_returns [of ?s2 ?c ?k sorted_range] by (simp add: life_rules)
  ultimately show ?thesis using s0 life_go by blast
qed

lemma life_stopped:
  "life_reach sorted_range (life (one_key None {cq_ref ''p'' ''q''} False {0} 1) WIdle (RetryWait ''g/r/h'') GNone)"
proof -
  let ?c = "cq_ref ''p'' ''q''" and ?k = "''g/r/h''"
  let ?s3 = "life (one_key (Some 0) {?c} False {} 1) WIdle (Runner 0 ?k) GNone"
  let ?s4 = "life (one_key None {?c} False {0} 1) WIdle (RetryWait ?k) GNone"
  have "life_step sorted_range ?s3 ?s4"
    using runner_stops [of ?s3 0 0 ?k True "one_key None {?c} False {0} 1" sorted_range]
    by (simp add: life_rules fun_upd_twist)
  then show ?thesis using life_running by (rule life_go)
qed

text \<open>
  C40. A quota removed while a retry is inside \<open>startFn\<close> leaves an orphan: the retry registers its
  set after the last reference was dropped, and the manager then runs with no quota referencing
  it, and no thread is left that would cancel it.
\<close>

theorem remove_during_retry_orphans:
  "\<exists>\<sigma> k inst i. life_reach sorted_range \<sigma> \<and> lc_worker \<sigma> = WIdle \<and> am_starting (lc_am \<sigma>) = {} \<and>
     lc_gos \<sigma> = (\<lambda>_. GNone)(i := Runner inst k) \<and> inst \<notin> am_cancelled (lc_am \<sigma>) \<and>
     (\<forall>k. refs_of (lc_am \<sigma>) k = {})"
proof -
  let ?c = "cq_ref ''p'' ''q''" and ?k = "''g/r/h''"
  let ?s4 = "life (one_key None {?c} False {0} 1) WIdle (RetryWait ?k) GNone"
  let ?s5 = "life (one_key None {?c} True {0} 1) WIdle (RetryStarting ?k) GNone"
  let ?s6 = "life (one_key None {} True {0} 1) WIdle (RetryStarting ?k) GNone"
  let ?s7 = "life (one_key (Some 1) {} True {0} 2) WIdle (RetryStarted ?k) (Runner 1 ?k)"
  let ?s8 = "life (one_key (Some 1) {} False {0} 2) WIdle GNone (Runner 1 ?k)"
  have "life_step sorted_range ?s4 ?s5"
    using retry_wakes [of ?s4 0 ?k True "one_key None {?c} True {0} 1" sorted_range]
    by (simp add: life_rules fun_upd_twist)
  moreover have "life_step sorted_range ?s5 ?s6"
    using removes [of ?s5 sorted_range "''p''" "''q''"] by (simp add: Remove_def life_rules)
  moreover have "life_step sorted_range ?s6 ?s7"
    using retry_registers [of ?s6 0 ?k 1 1 "one_key (Some 1) {} True {0} 2" sorted_range]
    by (simp add: life_rules fun_upd_twist numeral_2_eq_2)
  moreover have "life_step sorted_range ?s7 ?s8"
    using retry_returns [of ?s7 0 ?k sorted_range] by (simp add: life_rules fun_upd_twist)
  ultimately have "life_reach sorted_range ?s8" using life_stopped life_go by blast
  then show ?thesis
    by (intro exI [of _ ?s8] exI [of _ ?k] exI [of _ 1]) (simp add: fun_upd_twist fun_eq_iff)
qed

text \<open>
  A retry that leaves the restart to a concurrent \<open>Ensure\<close> can lose it: when that start then
  fails, the other quota keeps its reference but no set is running, none is being started and no
  retry is pending.
\<close>

theorem retry_lost_to_failing_ensure:
  "\<exists>\<sigma> k. life_reach sorted_range \<sigma> \<and> refs_of (lc_am \<sigma>) k = {cq_ref ''p'' ''q''} \<and>
     am_sets (lc_am \<sigma>) k = None \<and> am_starting (lc_am \<sigma>) = {} \<and> lc_worker \<sigma> = WIdle \<and>
     (\<forall>i. lc_gos \<sigma> i = GNone)"
proof -
  let ?c = "cq_ref ''p'' ''q''" and ?d = "cq_ref ''p'' ''r''" and ?k = "''g/r/h''"
  have cd: "?c \<noteq> ?d" by (simp add: cq_ref_def)
  let ?s4 = "life (one_key None {?c} False {0} 1) WIdle (RetryWait ?k) GNone"
  let ?s5 = "life (one_key None {?d, ?c} True {0} 1) (WStarting ?d ?k) (RetryWait ?k) GNone"
  let ?s6 = "life (one_key None {?d, ?c} True {0} 1) (WStarting ?d ?k) GNone GNone"
  let ?s7 = "life (one_key None {?c} False {0} 1) WIdle GNone GNone"
  have "life_step sorted_range ?s4 ?s5"
    using ensure_starts [of ?s4 sorted_range "''p''" "demo_cq ''r''" "one_key None {?d, ?c} True {0} 1"]
    by (simp add: life_rules)
  moreover have "life_step sorted_range ?s5 ?s6"
    using retry_wakes [of ?s5 0 ?k False "one_key None {?d, ?c} True {0} 1" sorted_range]
    by (simp add: life_rules fun_upd_twist)
  moreover have "life_step sorted_range ?s6 ?s7"
    using start_fails [of ?s6 ?d ?k sorted_range ErrTimeout] cd by (simp add: life_rules insert_Diff_if)
  ultimately have "life_reach sorted_range ?s7" using life_stopped life_go by blast
  then show ?thesis by (intro exI [of _ ?s7] exI [of _ ?k]) simp
qed

theorem one_manager_per_export_witness:
  "0 \<notin> am_cancelled (one_key (Some 0) {cq_ref ''p'' ''q''} False {} 1) \<and>
    (\<exists>i. ((\<lambda>_. GNone)(0 := Runner 0 ''g/r/h'', 1 := GNone)) (i :: nat) = Runner 0 ''g/r/h'')"
  using one_manager_per_export [OF sorted_range life_running, THEN conjunct2, rule_format, of "''g/r/h''" 0]
  by simp

theorem starts_exclusive_witness:
  "\<not> (\<exists>x. starts WIdle ((\<lambda>_. GNone)(0 := RetryWait ''g/r/h'', 1 := GNone)) ''g/r/h'' x)"
  using starts_exclusive [OF sorted_range life_stopped, of "''g/r/h''"] by simp

end
