(* ===== verification/Watcher.thy ===== *)
theory Watcher
  imports Registry Api Kcp Backoff
begin

text \<open>
  The webhook's registry watcher (\<open>cmd/webhook/registry_watcher.go\<close>): it mirrors
  ConsumptionQuotas into the limit registry from watch events, and seeds the registry once from
  a list of every shard, which gates readiness. The manager's clients are arguments.
\<close>

section \<open>State\<close>

record registryWatcher =
  rw_reg :: Registry
  rw_known :: "string \<rightharpoonup> ResourceRef"

definition new_watcher :: registryWatcher where
  "new_watcher = \<lparr>rw_reg = New, rw_known = Map.empty\<rparr>"

definition cq_resource :: "ConsumptionQuota \<Rightarrow> ResourceRef" where
  "cq_resource cq =
     (let g = cs_Governed (cq_Spec cq) in
      \<lparr>rf_Group = gr_Group g, rf_Resource = gr_Resource g, rf_IdentityHash = ct_IdentityHash (cq_Status cq)\<rparr>)"

definition remember :: "string \<Rightarrow> ConsumptionQuota \<Rightarrow> registryWatcher \<Rightarrow> registryWatcher" where
  "remember cqRef cq w =
     (let ref = cq_resource cq; w1 = w\<lparr>rw_known := (rw_known w)(cqRef \<mapsto> ref)\<rparr> in
      w1\<lparr>rw_reg := Set_limit ref (cs_DefaultLimit (cq_Spec cq)) (rw_reg w1)\<rparr>)"

definition forget :: "string \<Rightarrow> registryWatcher \<Rightarrow> registryWatcher" where
  "forget cqRef w =
     (let w1 = w\<lparr>rw_known := (rw_known w)(cqRef := None)\<rparr> in
      case rw_known w cqRef of
        Some ref \<Rightarrow> w1\<lparr>rw_reg := Delete_limit ref (rw_reg w1)\<rparr>
      | None \<Rightarrow> w1)"

section \<open>Watch events\<close>

text \<open>
  \<open>Reconcile\<close> of one request: \<open>cluster_err\<close> is the answer of \<open>GetCluster\<close>, \<open>got\<close> that of the
  client's \<open>Get\<close>.
\<close>

definition Watcher_Reconcile ::
  "go_error option \<Rightarrow> api_error + ConsumptionQuota \<Rightarrow> string \<Rightarrow> string \<Rightarrow> registryWatcher
     \<Rightarrow> go_error option \<times> registryWatcher" where
  "Watcher_Reconcile cluster_err got clusterName name w =
     (case cluster_err of
        Some err \<Rightarrow> (Some err, w)
      | None \<Rightarrow>
          let cqRef = clusterName @ ''/'' @ name in
          case got of
            Inl e \<Rightarrow> if e = NotFound then (None, forget cqRef w) else (Some (ErrAPI e), w)
          | Inr cq \<Rightarrow>
              if cq_DeletionTimestamp cq \<noteq> None then (None, forget cqRef w)
              else if ct_IdentityHash (cq_Status cq) = [] then (None, w)
              else (None, remember cqRef cq w))"

section \<open>Populating\<close>

text \<open>One client per advertised shard, each at \<open>url/clusters/*\<close>.\<close>

fun vw_clients_loop ::
  "(string \<Rightarrow> go_error + 'c) \<Rightarrow> string list \<Rightarrow> 'c list \<Rightarrow> go_error + 'c list" where
  "vw_clients_loop newClient [] clients = Inr clients"
| "vw_clients_loop newClient (url # urls) clients =
     (case newClient (url @ ''/clusters/*'') of
        Inl err \<Rightarrow> Inl (ErrWrap (''creating VW client for '' @ url) err)
      | Inr c \<Rightarrow> vw_clients_loop newClient urls (clients @ [c]))"

definition virtualWorkspaceClients ::
  "(go_error + KcpReader) \<Rightarrow> (string \<Rightarrow> go_error + 'c) \<Rightarrow> string \<Rightarrow> go_error + 'c list" where
  "virtualWorkspaceClients direct newClient apiExportName =
     (case direct of
        Inl err \<Rightarrow> Inl (ErrWrap ''creating direct client'' err)
      | Inr c \<Rightarrow>
          (case VirtualWorkspaceURLs c apiExportName of
             Inl err \<Rightarrow> Inl (ErrWrap (''resolving virtual workspace URLs for '' @ apiExportName) err)
           | Inr urls \<Rightarrow> vw_clients_loop newClient urls []))"

fun seed_loop :: "ConsumptionQuota list \<Rightarrow> registryWatcher \<times> nat \<Rightarrow> registryWatcher \<times> nat" where
  "seed_loop [] s = s"
| "seed_loop (cq # cqs) (w, count) =
     (if ct_IdentityHash (cq_Status cq) = [] \<or> cq_DeletionTimestamp cq \<noteq> None then seed_loop cqs (w, count)
      else seed_loop cqs (remember (cq_Cluster cq @ ''/'' @ cq_Name cq) cq w, count + 1))"

text \<open>The shards in turn; an error stops the attempt with what was remembered so far.\<close>

type_synonym ('c, 'w) cq_lister = "'c \<Rightarrow> 'w \<Rightarrow> (go_error + ConsumptionQuota list) \<times> 'w"

fun shards_loop ::
  "('c, 'w) cq_lister \<Rightarrow> 'c list \<Rightarrow> 'w \<Rightarrow> registryWatcher \<times> nat
     \<Rightarrow> (go_error + nat) \<times> 'w \<times> registryWatcher" where
  "shards_loop list_cqs [] x (w, count) = (Inr count, x, w)"
| "shards_loop list_cqs (c # cs) x (w, count) =
     (case list_cqs c x of
        (Inl err, x') \<Rightarrow> (Inl err, x', w)
      | (Inr items, x') \<Rightarrow> shards_loop list_cqs cs x' (seed_loop items (w, count)))"

record 'w populate_state =
  ps_world :: 'w
  ps_watcher :: registryWatcher
  ps_lastErr :: "go_error option"
  ps_total :: nat
  ps_shards :: nat

definition populate_attempt ::
  "('w \<Rightarrow> (go_error + 'c list) \<times> 'w) \<Rightarrow> ('c, 'w) cq_lister \<Rightarrow> 'w populate_state condition" where
  "populate_attempt vw_clients list_cqs p =
     (case vw_clients (ps_world p) of
        (Inl err, x) \<Rightarrow> (Inr False, p\<lparr>ps_world := x, ps_lastErr := Some err\<rparr>)
      | (Inr clients, x) \<Rightarrow>
          (case shards_loop list_cqs clients x (ps_watcher p, 0) of
             (Inl err, x', w) \<Rightarrow> (Inr False, p\<lparr>ps_world := x', ps_watcher := w, ps_lastErr := Some err\<rparr>)
           | (Inr count, x', w) \<Rightarrow>
               (Inr True, p\<lparr>ps_world := x', ps_watcher := w, ps_total := count, ps_shards := length clients\<rparr>)))"

text \<open>
  \<open>wait.PollUntilContextTimeout\<close>, immediate, calls the condition like the retry helper of theory
  \<open>Backoff\<close>; the poller is an argument.
\<close>

definition PopulateRegistry ::
  "'w populate_state retrier \<Rightarrow> ('w \<Rightarrow> (go_error + 'c list) \<times> 'w) \<Rightarrow> ('c, 'w) cq_lister
     \<Rightarrow> registryWatcher \<Rightarrow> 'w \<Rightarrow> go_error option \<times> 'w \<times> registryWatcher" where
  "PopulateRegistry poll vw_clients list_cqs w x =
     (case poll (populate_attempt vw_clients list_cqs)
         \<lparr>ps_world = x, ps_watcher = w, ps_lastErr = None, ps_total = 0, ps_shards = 0\<rparr> of
        (None, p) \<Rightarrow> (None, ps_world p, ps_watcher p)
      | (Some waitErr, p) \<Rightarrow>
          (Some (ErrWrap ''waiting for quota-provider virtual workspace''
             (case ps_lastErr p of Some e \<Rightarrow> e | None \<Rightarrow> waitErr)), ps_world p, ps_watcher p))"

definition defaultVWReadyTimeout :: go_duration where
  "defaultVWReadyTimeout = 5 * (60 * second)"

definition populate_timeout :: "go_duration \<Rightarrow> go_duration" where
  "populate_timeout vwReadyTimeout = (if vwReadyTimeout \<le> 0 then defaultVWReadyTimeout else vwReadyTimeout)"

text \<open>
  The poller as it is called: every interval until the timeout, the first time at once. With the default
  that is a hundred intervals.
\<close>

definition vwReadyInterval :: go_duration where
  "vwReadyInterval = 3 * second"

definition populate_poll ::
  "(go_duration \<Rightarrow> go_duration \<Rightarrow> bool \<Rightarrow> 'w populate_state retrier) \<Rightarrow> go_duration \<Rightarrow> 'w populate_state retrier" where
  "populate_poll PollUntilContextTimeout vwReadyTimeout =
     PollUntilContextTimeout vwReadyInterval (populate_timeout vwReadyTimeout) True"

lemma populate_timeout_positive: "0 < populate_timeout x"
  by (simp add: populate_timeout_def defaultVWReadyTimeout_def)

lemma default_poll_intervals: "populate_timeout 0 div vwReadyInterval = 100"
  by (simp add: populate_timeout_def defaultVWReadyTimeout_def vwReadyInterval_def)

definition readyzCheck :: "bool \<Rightarrow> go_error option" where
  "readyzCheck initialized = (if initialized then None else Some (ErrMsg ''registry not yet populated''))"

section \<open>Lemmas\<close>

lemma remember_limit:
  "LimitFor (rw_reg (remember c cq w)) cl ref =
     (if ref = cq_resource cq then Some (cs_DefaultLimit (cq_Spec cq)) else LimitFor (rw_reg w) cl ref)"
  by (simp add: remember_def Let_def limits.laws)

lemma remember_known [simp]: "rw_known (remember c cq w) = (rw_known w)(c \<mapsto> cq_resource cq)"
  by (simp add: remember_def Let_def)

lemma forget_known [simp]: "rw_known (forget c w) = (rw_known w)(c := None)"
  by (simp add: forget_def Let_def split: option.split)

lemma forget_limit:
  "LimitFor (rw_reg (forget c w)) cl ref = (if rw_known w c = Some ref then None else LimitFor (rw_reg w) cl ref)"
  by (auto simp: forget_def Let_def limits.laws split: option.split)

text \<open>The quotas a list contributes.\<close>

definition enforceable :: "ConsumptionQuota \<Rightarrow> bool" where
  "enforceable cq \<longleftrightarrow> ct_IdentityHash (cq_Status cq) \<noteq> [] \<and> cq_DeletionTimestamp cq = None"

lemma seed_loop_eq:
  "seed_loop cqs (w, count) =
     (fold (\<lambda>cq. remember (cq_Cluster cq @ ''/'' @ cq_Name cq) cq) (filter enforceable cqs) w,
      count + length (filter enforceable cqs))"
  by (induction cqs arbitrary: w count) (auto simp: enforceable_def)

lemma fold_remember_keeps:
  "LimitFor (rw_reg w) cl ref \<noteq> None \<Longrightarrow> LimitFor (rw_reg (fold (\<lambda>cq. remember (f cq) cq) cqs w)) cl ref \<noteq> None"
  by (induction cqs arbitrary: w) (simp_all add: remember_limit)

lemma fold_remember_has:
  "cq \<in> set cqs \<Longrightarrow> LimitFor (rw_reg (fold (\<lambda>cq. remember (f cq) cq) cqs w)) cl (cq_resource cq) \<noteq> None"
proof (induction cqs arbitrary: w)
  case (Cons c cqs)
  then show ?case
    using fold_remember_keeps [of "remember (f c) c w" cl "cq_resource c" f cqs] by (auto simp: remember_limit)
qed simp

text \<open>A limit comes from the last quota of the list with that resource.\<close>

lemma fold_remember_limit:
  "LimitFor (rw_reg (fold (\<lambda>cq. remember (f cq) cq) cqs w)) cl ref =
     last_value ref (map (\<lambda>cq. Put (cq_resource cq) (cs_DefaultLimit (cq_Spec cq))) cqs) (LimitFor (rw_reg w) cl ref)"
  by (induction cqs arbitrary: w) (simp_all add: remember_limit eq_commute)

text \<open>What the shards answered, in turn.\<close>

inductive answered :: "('c, 'w) cq_lister \<Rightarrow> 'c list \<Rightarrow> 'w \<Rightarrow> ConsumptionQuota list list \<Rightarrow> 'w \<Rightarrow> bool"
  for list_cqs where
  "answered list_cqs [] x [] x"
| "list_cqs c x = (Inr items, x1) \<Longrightarrow> answered list_cqs cs x1 rest x2 \<Longrightarrow> answered list_cqs (c # cs) x (items # rest) x2"

lemma shards_loop_ok:
  "shards_loop list_cqs cs x (w, count) = (Inr tot, x', w') \<Longrightarrow>
     \<exists>lists. answered list_cqs cs x lists x' \<and>
       w' = fold (\<lambda>cq. remember (cq_Cluster cq @ ''/'' @ cq_Name cq) cq) (filter enforceable (concat lists)) w \<and>
       tot = count + length (filter enforceable (concat lists))"
proof (induction cs arbitrary: x w count)
  case Nil
  then show ?case by (auto intro: answered.intros)
next
  case (Cons c cs)
  then obtain items x1 where l: "list_cqs c x = (Inr items, x1)"
    by (auto split: prod.splits sum.splits)
  with Cons.prems have "shards_loop list_cqs cs x1
      (fold (\<lambda>cq. remember (cq_Cluster cq @ ''/'' @ cq_Name cq) cq) (filter enforceable items) w,
       count + length (filter enforceable items)) = (Inr tot, x', w')"
    by (simp add: seed_loop_eq)
  from Cons.IH [OF this] l show ?case
    by (auto intro: answered.intros)
qed

end
