(* ===== verification/Watcher_Properties.thy ===== *)
theory Watcher_Properties
  imports Watcher
begin

text \<open>
  The properties of the registry watcher: the initial list covers every shard, watch events are
  mirrored exactly while each quota governs a resource of its own, and what happens when that
  is not so or when the list races with events.
\<close>

definition quota_for :: "string \<Rightarrow> string \<Rightarrow> int32 \<Rightarrow> ConsumptionQuota" where
  "quota_for name iden limit =
     \<lparr>cq_Name = name, cq_Cluster = ''root:p'', cq_DeletionTimestamp = None, cq_Finalizers = [], cq_ResourceVersion = 1,
      cq_Spec = \<lparr>cs_Governed = \<lparr>gr_APIExportName = ''s3'', gr_Group = ''s3.example.com'', gr_Version = ''v1'', gr_Resource = ''buckets''\<rparr>,
        cs_By = ''Count'', cs_DefaultLimit = limit, cs_AutoApproveCeiling = None\<rparr>,
      cq_Status = \<lparr>ct_IdentityHash = iden\<rparr>\<rparr>"

section \<open>The initial list\<close>




section \<open>Watch events\<close>

datatype watch_event = Seen string string ConsumptionQuota | Gone string string

fun watch :: "watch_event \<Rightarrow> registryWatcher \<Rightarrow> registryWatcher" where
  "watch (Seen c name cq) w = snd (Watcher_Reconcile None (Inr cq) c name w)"
| "watch (Gone c name) w = snd (Watcher_Reconcile None (Inl NotFound) c name w)"

fun event_ref :: "watch_event \<Rightarrow> string" where
  "event_ref (Seen c name cq) = c @ ''/'' @ name"
| "event_ref (Gone c name) = c @ ''/'' @ name"

text \<open>What the event says of the limit, when it says anything: an unresolved quota is skipped.\<close>

fun limit_event :: "(string \<Rightarrow> ResourceRef) \<Rightarrow> watch_event \<Rightarrow> (ResourceRef, int32) table_event list" where
  "limit_event f (Seen c name cq) =
     (if cq_DeletionTimestamp cq \<noteq> None then [Del (f (c @ ''/'' @ name))]
      else if ct_IdentityHash (cq_Status cq) = [] then []
      else [Put (f (c @ ''/'' @ name)) (cs_DefaultLimit (cq_Spec cq))])"
| "limit_event f (Gone c name) = [Del (f (c @ ''/'' @ name))]"

text \<open>Each quota governs one resource of its own: \<open>f\<close> names it.\<close>

definition own_resource :: "(string \<Rightarrow> ResourceRef) \<Rightarrow> watch_event \<Rightarrow> bool" where
  "own_resource f e \<longleftrightarrow> (case e of
     Seen c name cq \<Rightarrow> ct_IdentityHash (cq_Status cq) \<noteq> [] \<longrightarrow> cq_resource cq = f (c @ ''/'' @ name)
   | Gone _ _ \<Rightarrow> True)"

text \<open>The registry and the index of known quotas agree.\<close>

definition mirrored :: "(string \<Rightarrow> ResourceRef) \<Rightarrow> registryWatcher \<Rightarrow> bool" where
  "mirrored f w \<longleftrightarrow> (\<forall>c. rw_known w c = (if LimitFor (rw_reg w) [] (f c) = None then None else Some (f c)))"

lemma last_value_append: "last_value k (xs @ ys) d = last_value k ys (last_value k xs d)"
  by (induction xs arbitrary: d) auto

lemma forget_mirrored:
  assumes "inj f" and "mirrored f w"
  shows "mirrored f (forget c w) \<and> LimitFor (rw_reg (forget c w)) [] ref = (if ref = f c then None else LimitFor (rw_reg w) [] ref)"
proof -
  have "rw_known w c = (if LimitFor (rw_reg w) [] (f c) = None then None else Some (f c))"
    using assms(2) by (simp add: mirrored_def)
  with assms show ?thesis by (auto simp: mirrored_def forget_limit inj_eq)
qed

lemma watch_step:
  assumes inj: "inj f" and own: "own_resource f e" and m: "mirrored f w"
  shows "mirrored f (watch e w) \<and>
    LimitFor (rw_reg (watch e w)) [] ref = last_value ref (limit_event f e) (LimitFor (rw_reg w) [] ref)"
proof (cases e)
  case (Gone c name)
  then show ?thesis using forget_mirrored [OF inj m] by (auto simp: Watcher_Reconcile_def Let_def)
next
  case (Seen c name cq)
  show ?thesis
  proof (cases "cq_DeletionTimestamp cq \<noteq> None")
    case True
    then show ?thesis using Seen forget_mirrored [OF inj m] by (auto simp: Watcher_Reconcile_def Let_def)
  next
    case False
    show ?thesis
    proof (cases "ct_IdentityHash (cq_Status cq) = []")
      case True
      then show ?thesis using Seen False m by (simp add: Watcher_Reconcile_def Let_def)
    next
      case hash: False
      let ?c = "c @ ''/'' @ name"
      have ref: "cq_resource cq = f ?c" using own hash Seen by (simp add: own_resource_def)
      have "watch e w = remember ?c cq w" using Seen False hash by (simp add: Watcher_Reconcile_def Let_def)
      moreover have "mirrored f (remember ?c cq w)"
        using m by (auto simp: mirrored_def remember_limit ref inj_eq [OF inj])
      ultimately show ?thesis using Seen False hash by (simp add: remember_limit ref eq_commute)
    qed
  qed
qed

text \<open>
  While each quota governs a resource of its own, the watcher mirrors exactly: after any
  sequence of watch events the registry holds for every quota the limit of its last event, or
  none when that was a deletion, and no other limits.
\<close>

theorem watcher_mirrors_events:
  assumes "inj f" and "\<forall>e \<in> set es. own_resource f e"
  shows "LimitFor (rw_reg (fold watch es new_watcher)) cl ref = last_value ref (concat (map (limit_event f) es)) None"
proof -
  have "mirrored f (fold watch es w) \<and>
      LimitFor (rw_reg (fold watch es w)) [] ref = last_value ref (concat (map (limit_event f) es)) (LimitFor (rw_reg w) [] ref)"
    if "mirrored f w" for w
    using that assms(2)
  proof (induction es arbitrary: w)
    case (Cons e es)
    then show ?case using watch_step [OF assms(1), of e w] by (simp add: last_value_append)
  qed simp
  moreover have "mirrored f new_watcher" by (simp add: mirrored_def new_watcher_def)
  ultimately show ?thesis
    using LimitFor_any_cluster [of _ cl ref "[]"] by (simp add: new_watcher_def)
qed

theorem watcher_mirrors_events_witness:
  "LimitFor (rw_reg (fold watch [Seen ''p'' ''q'' (quota_for ''q'' ''h'' 5), Seen ''p'' ''q'' (quota_for ''q'' ''h'' 3)] new_watcher)) []
     (cq_resource (quota_for ''q'' ''h'' 5)) = Some 3"
proof -
  let ?ref = "cq_resource (quota_for ''q'' ''h'' 5)"
  let ?f = "\<lambda>c. if c = ''p/q'' then ?ref else \<lparr>rf_Group = ''*'' @ c, rf_Resource = [], rf_IdentityHash = []\<rparr>"
  let ?es = "[Seen ''p'' ''q'' (quota_for ''q'' ''h'' 5), Seen ''p'' ''q'' (quota_for ''q'' ''h'' 3)]"
  have inj: "inj ?f" by (rule injI) (auto simp: cq_resource_def quota_for_def Let_def split: if_splits)
  have own: "\<forall>e \<in> set ?es. own_resource ?f e" by (simp add: own_resource_def cq_resource_def quota_for_def Let_def)
  show ?thesis
    using watcher_mirrors_events [OF inj own, of "[]" ?ref] by (simp add: quota_for_def)
qed

section \<open>Shared and changed identities\<close>

text \<open>
  When two quotas govern one identity the watcher loses the limit of the one that is left: the
  deletion of either removes the shared registry entry, although the other still exists.
\<close>

theorem shared_identity_forgotten:
  assumes "cq_resource cq = cq_resource cq'" and "enforceable cq" and "enforceable cq'" and "c \<noteq> c'"
  shows "LimitFor (rw_reg (forget c (remember c' cq' (remember c cq w)))) cl (cq_resource cq') = None \<and>
    rw_known (forget c (remember c' cq' (remember c cq w))) c' = Some (cq_resource cq')"
  using assms by (simp add: forget_limit)

theorem shared_identity_forgotten_witness:
  "LimitFor (rw_reg (forget ''p/q'' (remember ''p/r'' (quota_for ''r'' ''h'' 3) (remember ''p/q'' (quota_for ''q'' ''h'' 5) new_watcher))))
     [] (cq_resource (quota_for ''r'' ''h'' 3)) = None"
proof -
  have "cq_resource (quota_for ''q'' ''h'' 5) = cq_resource (quota_for ''r'' ''h'' 3)"
    "enforceable (quota_for ''q'' ''h'' 5)" "enforceable (quota_for ''r'' ''h'' 3)" "''p/q'' \<noteq> ''p/r''"
    by (simp_all add: cq_resource_def quota_for_def enforceable_def)
  from shared_identity_forgotten [OF this] show ?thesis by blast
qed

text \<open>
  A quota whose identity or governed resource changes leaves its former limit behind: the index
  forgets the old entry, so no later event of the quota removes it from the registry.
\<close>

theorem changed_identity_leaks_limit:
  assumes "cq_resource cq \<noteq> cq_resource cq'"
  shows "LimitFor (rw_reg (forget c (remember c cq' (remember c cq w)))) cl (cq_resource cq) =
    Some (cs_DefaultLimit (cq_Spec cq))"
  using assms by (simp add: forget_limit remember_limit)

theorem changed_identity_leaks_limit_witness:
  "LimitFor (rw_reg (forget ''p/q'' (remember ''p/q'' (quota_for ''q'' ''h2'' 5) (remember ''p/q'' (quota_for ''q'' ''h1'' 5) new_watcher))))
     [] (cq_resource (quota_for ''q'' ''h1'' 5)) = Some 5"
proof -
  have "cq_resource (quota_for ''q'' ''h1'' 5) \<noteq> cq_resource (quota_for ''q'' ''h2'' 5)"
    by (simp add: cq_resource_def quota_for_def)
  from changed_identity_leaks_limit [OF this, of "''p/q''" new_watcher "[]"] show ?thesis by (simp add: quota_for_def)
qed

text \<open>
  The initial list can overwrite a newer limit: a watch event handled between the list call and
  the loop over its items is undone, and the registry keeps the older limit.
\<close>

theorem populate_overwrites_newer_limit:
  assumes "enforceable old" and "cq_resource new = cq_resource old"
  shows "LimitFor (rw_reg (fst (seed_loop [old] (remember c new w, 0)))) cl (cq_resource old) =
    Some (cs_DefaultLimit (cq_Spec old))"
  using assms by (simp add: seed_loop_eq remember_limit)

theorem populate_overwrites_newer_limit_witness:
  "LimitFor (rw_reg (fst (seed_loop [quota_for ''q'' ''h'' 5] (remember ''root:p/q'' (quota_for ''q'' ''h'' 3) new_watcher, 0)))) []
     (cq_resource (quota_for ''q'' ''h'' 5)) = Some 5"
proof -
  have "enforceable (quota_for ''q'' ''h'' 5)" "cq_resource (quota_for ''q'' ''h'' 3) = cq_resource (quota_for ''q'' ''h'' 5)"
    by (simp_all add: enforceable_def cq_resource_def quota_for_def)
  from populate_overwrites_newer_limit [OF this, of "''root:p/q''" new_watcher "[]"] show ?thesis
    by (simp add: quota_for_def)
qed

end
