(* ===== verification/Quota_Reconciler.thy ===== *)
theory Quota_Reconciler
  imports Installer Watcher Accounting_Manager
begin

text \<open>
  The ConsumptionQuota reconciler of \<open>internal/controller/consumptionquota_controller.go\<close> and the
  reconcile closure of \<open>cmd/controller/main.go\<close> that runs it and then drives the accounting
  manager. The API server, the finalizer helpers of controller-runtime and the manager's clients
  are arguments.
\<close>

section \<open>Clients\<close>

record 'w CQClient =
  qc_Get :: "string \<Rightarrow> 'w \<Rightarrow> (api_error + ConsumptionQuota) \<times> 'w"
  qc_Update :: "ConsumptionQuota \<Rightarrow> 'w \<Rightarrow> (api_error + ConsumptionQuota) \<times> 'w"
  qc_StatusUpdate :: "ConsumptionQuota \<Rightarrow> 'w \<Rightarrow> (api_error + ConsumptionQuota) \<times> 'w"

record Finalizers =
  fl_Contains :: "ConsumptionQuota \<Rightarrow> string \<Rightarrow> bool"
  fl_Add :: "ConsumptionQuota \<Rightarrow> string \<Rightarrow> ConsumptionQuota"
  fl_Remove :: "ConsumptionQuota \<Rightarrow> string \<Rightarrow> ConsumptionQuota"

text \<open>
  The reconciler: the virtual workspace's client for quotas and webhook configurations, the direct
  workspace client for the governed export alone (the virtual workspace does not serve exports),
  and the installer when a webhook URL is configured.
\<close>

record 'w ConsumptionQuotaReconciler =
  cr_Client :: "'w CQClient"
  cr_APIExportReader :: "string \<Rightarrow> 'w \<Rightarrow> (api_error + APIExport) \<times> 'w"
  cr_VWC :: "'w VWCClient"
  cr_Finalizers :: Finalizers
  cr_Installer :: "WebhookInstaller option"

definition webhookFinalizer :: string where
  "webhookFinalizer = ''quota.opendefense.cloud/webhook''"

definition identityHashRequeueInterval :: go_duration where
  "identityHashRequeueInterval = 5 * second"

record Result =
  rs_RequeueAfter :: go_duration

abbreviation done_result :: Result where
  "done_result \<equiv> \<lparr>rs_RequeueAfter = 0\<rparr>"

section \<open>Reconcile and deletion\<close>

definition handleDeletion ::
  "'w ConsumptionQuotaReconciler \<Rightarrow> ConsumptionQuota \<Rightarrow> 'w \<Rightarrow> Registry \<Rightarrow> go_error option \<times> 'w \<times> Registry" where
  "handleDeletion r cq w reg =
     (case (case cr_Installer r of None \<Rightarrow> (None, w) | Some _ \<Rightarrow> Installer_Remove (cr_VWC r) cq w) of
        (Some err, w1) \<Rightarrow> (Some err, w1, reg)
      | (None, w1) \<Rightarrow>
          let reg1 = Delete_limit (cq_resource cq) reg in
          if fl_Contains (cr_Finalizers r) cq webhookFinalizer then
            (case qc_Update (cr_Client r) (fl_Remove (cr_Finalizers r) cq webhookFinalizer) w1 of
               (Inl e, w2) \<Rightarrow> (Some (ErrAPI e), w2, reg1)
             | (Inr _, w2) \<Rightarrow> (None, w2, reg1))
          else (None, w1, reg1))"

text \<open>Stamping the identity: skipped when it is there already; the object is the one answered.\<close>

definition stamp_identity ::
  "'w CQClient \<Rightarrow> string \<Rightarrow> ConsumptionQuota \<Rightarrow> 'w \<Rightarrow> (api_error + ConsumptionQuota) \<times> 'w" where
  "stamp_identity c iden cq w =
     (if ct_IdentityHash (cq_Status cq) \<noteq> iden then
        qc_StatusUpdate c (cq\<lparr>cq_Status := (cq_Status cq)\<lparr>ct_IdentityHash := iden\<rparr>\<rparr>) w
      else (Inr cq, w))"

definition governed_ref :: "ConsumptionQuota \<Rightarrow> string \<Rightarrow> ResourceRef" where
  "governed_ref cq iden =
     \<lparr>rf_Group = gr_Group (cs_Governed (cq_Spec cq)), rf_Resource = gr_Resource (cs_Governed (cq_Spec cq)),
      rf_IdentityHash = iden\<rparr>"

definition CQ_Reconcile ::
  "'w ConsumptionQuotaReconciler \<Rightarrow> string \<Rightarrow> 'w \<Rightarrow> Registry \<Rightarrow> (Result \<times> go_error option) \<times> 'w \<times> Registry" where
  "CQ_Reconcile r name w reg =
     (case qc_Get (cr_Client r) name w of
        (Inl e, w1) \<Rightarrow> ((done_result, if e = NotFound then None else Some (ErrAPI e)), w1, reg)
      | (Inr cq, w1) \<Rightarrow>
          if cq_DeletionTimestamp cq \<noteq> None then
            (case handleDeletion r cq w1 reg of (err, w2, reg2) \<Rightarrow> ((done_result, err), w2, reg2))
          else if \<not> fl_Contains (cr_Finalizers r) cq webhookFinalizer then
            (case qc_Update (cr_Client r) (fl_Add (cr_Finalizers r) cq webhookFinalizer) w1 of
               (Inl e, w2) \<Rightarrow> ((done_result, Some (ErrAPI e)), w2, reg)
             | (Inr _, w2) \<Rightarrow> ((done_result, None), w2, reg))
          else
            (case cr_APIExportReader r (gr_APIExportName (cs_Governed (cq_Spec cq))) w1 of
               (Inl e, w2) \<Rightarrow> ((done_result, Some (ErrAPI e)), w2, reg)
             | (Inr ex, w2) \<Rightarrow>
                 let iden = ae_IdentityHash ex in
                 if iden = [] then ((\<lparr>rs_RequeueAfter = identityHashRequeueInterval\<rparr>, None), w2, reg)
                 else
                   (case stamp_identity (cr_Client r) iden cq w2 of
                      (Inl e, w3) \<Rightarrow> ((done_result, Some (ErrAPI e)), w3, reg)
                    | (Inr cq3, w3) \<Rightarrow>
                        let reg3 = Set_limit (governed_ref cq3 iden) (cs_DefaultLimit (cq_Spec cq3)) reg in
                        (case cr_Installer r of
                           None \<Rightarrow> ((done_result, None), w3, reg3)
                         | Some i \<Rightarrow>
                             (case Installer_Reconcile (cr_VWC r) i cq3 w3 of
                                (err, w4) \<Rightarrow> ((done_result, err), w4, reg3))))))"

section \<open>The controller's reconcile closure\<close>

record 'w controller_state =
  ct_world :: 'w
  ct_reg :: Registry
  ct_acct :: accountingManager

text \<open>
  \<open>reconciler\<close> builds the reconciler of a workspace from the manager's cluster and a direct
  client, or fails; \<open>startFn\<close> is the accounting manager's.
\<close>

definition controller_reconcile ::
  "(string \<Rightarrow> go_error + 'w ConsumptionQuotaReconciler) \<Rightarrow> map_range \<Rightarrow> start_fn \<Rightarrow> string \<Rightarrow> string
     \<Rightarrow> 'w controller_state \<Rightarrow> (Result \<times> go_error option) \<times> 'w controller_state" where
  "controller_reconcile reconciler ord startFn clusterName name \<sigma> =
     (case reconciler clusterName of
        Inl err \<Rightarrow> ((done_result, Some err), \<sigma>)
      | Inr r \<Rightarrow>
          (case CQ_Reconcile r name (ct_world \<sigma>) (ct_reg \<sigma>) of
             ((res, Some err), w1, reg1) \<Rightarrow> ((res, Some err), \<sigma>\<lparr>ct_world := w1, ct_reg := reg1\<rparr>)
           | ((res, None), w1, reg1) \<Rightarrow>
               (case qc_Get (cr_Client r) name w1 of
                  (Inl e, w2) \<Rightarrow>
                    if e = NotFound then
                      ((res, None), \<sigma>\<lparr>ct_world := w2, ct_reg := reg1, ct_acct := Remove ord clusterName name (ct_acct \<sigma>)\<rparr>)
                    else ((res, Some (ErrAPI e)), \<sigma>\<lparr>ct_world := w2, ct_reg := reg1\<rparr>)
                | (Inr cq, w2) \<Rightarrow>
                    if cq_DeletionTimestamp cq \<noteq> None then
                      ((res, None), \<sigma>\<lparr>ct_world := w2, ct_reg := reg1, ct_acct := Remove ord clusterName name (ct_acct \<sigma>)\<rparr>)
                    else if ct_IdentityHash (cq_Status cq) = [] then
                      ((res, None), \<sigma>\<lparr>ct_world := w2, ct_reg := reg1\<rparr>)
                    else
                      (case Ensure ord startFn clusterName cq (ct_acct \<sigma>) of
                         (err, acct) \<Rightarrow>
                           ((res, err), \<sigma>\<lparr>ct_world := w2, ct_reg := reg1, ct_acct := acct\<rparr>)))))"

definition new_controller_state :: "'w \<Rightarrow> 'w controller_state" where
  "new_controller_state w = \<lparr>ct_world = w, ct_reg = New, ct_acct = newAccountingManager\<rparr>"

text \<open>
  The reconciler as the closure builds it: the cluster's client \<open>pcClient\<close> serves the quotas and the
  webhook configurations, the client of the workspace's direct host only reads the export.
\<close>

definition workspace_reconciler ::
  "Config \<Rightarrow> string \<Rightarrow> string \<Rightarrow> (string \<Rightarrow> go_error + 'w CQClient \<times> 'w VWCClient)
     \<Rightarrow> (Config \<Rightarrow> go_error + (string \<Rightarrow> 'w \<Rightarrow> (api_error + APIExport) \<times> 'w)) \<Rightarrow> Finalizers \<Rightarrow> string \<Rightarrow> go_error + 'w ConsumptionQuotaReconciler" where
  "workspace_reconciler baseCfg webhookBaseURL caBundle getCluster newClient fin clusterName =
     (case getCluster clusterName of
        Inl err \<Rightarrow> Inl err
      | Inr (pcClient, pcVWC) \<Rightarrow>
          (case newClient (workspace_config baseCfg clusterName) of
             Inl err \<Rightarrow> Inl err
           | Inr directWSClient \<Rightarrow>
               Inr \<lparr>cr_Client = pcClient, cr_APIExportReader = directWSClient, cr_VWC = pcVWC, cr_Finalizers = fin,
                 cr_Installer = if webhookBaseURL \<noteq> [] then Some (NewWebhookInstaller webhookBaseURL caBundle) else None\<rparr>))"

section \<open>What the API server and the helpers document\<close>

text \<open>
  An accepted status update answers the object as sent, up to its version; writes to quotas do
  not touch the webhook configuration.
\<close>

definition cq_laws :: "'w CQClient \<Rightarrow> ('w \<Rightarrow> VWC option) \<Rightarrow> bool" where
  "cq_laws c stored \<longleftrightarrow>
     (\<forall>cq w cq' w'. qc_StatusUpdate c cq w = (Inr cq', w') \<longrightarrow> cq_Spec cq' = cq_Spec cq \<and> cq_Status cq' = cq_Status cq) \<and>
     (\<forall>cq w. stored (snd (qc_Update c cq w)) = stored w)"

definition finalizer_laws :: "Finalizers \<Rightarrow> bool" where
  "finalizer_laws f \<longleftrightarrow> (\<forall>cq n. fl_Contains f (fl_Add f cq n) n \<and> \<not> fl_Contains f (fl_Remove f cq n) n)"

lemma governed_ref_key: "ct_IdentityHash (cq_Status cq) = iden \<Longrightarrow> key_ref (rule_key cq) = governed_ref cq iden"
  by (simp add: key_ref_def rule_key_def governed_ref_def Let_def)

lemma stamp_identity_ok:
  assumes "cq_laws c stored" and "stamp_identity c iden cq w = (Inr cq', w')"
  shows "cq_Spec cq' = cq_Spec cq \<and> ct_IdentityHash (cq_Status cq') = iden"
proof (cases "ct_IdentityHash (cq_Status cq) = iden")
  case True
  with assms(2) show ?thesis by (simp add: stamp_identity_def)
next
  case False
  then have "qc_StatusUpdate c (cq\<lparr>cq_Status := (cq_Status cq)\<lparr>ct_IdentityHash := iden\<rparr>\<rparr>) w = (Inr cq', w')"
    using assms(2) by (simp add: stamp_identity_def)
  with assms(1) have "cq_Spec cq' = cq_Spec (cq\<lparr>cq_Status := (cq_Status cq)\<lparr>ct_IdentityHash := iden\<rparr>\<rparr>) \<and>
      cq_Status cq' = cq_Status (cq\<lparr>cq_Status := (cq_Status cq)\<lparr>ct_IdentityHash := iden\<rparr>\<rparr>)"
    unfolding cq_laws_def by blast
  then show ?thesis by simp
qed

text \<open>The whole of \<open>Reconcile\<close> on a live quota with its finalizer.\<close>

lemma CQ_Reconcile_live:
  assumes laws: "vwc_laws (cr_VWC r) stored" "cq_laws (cr_Client r) stored" and inst: "cr_Installer r = Some i"
    and got: "qc_Get (cr_Client r) name w = (Inr cq, w1)" "cq_DeletionTimestamp cq = None"
      "fl_Contains (cr_Finalizers r) cq webhookFinalizer"
    and res: "CQ_Reconcile r name w reg = ((done_result, None), w', reg')"
  obtains ex iden where "fst (cr_APIExportReader r (gr_APIExportName (cs_Governed (cq_Spec cq))) w1) = Inr ex"
    and "iden = ae_IdentityHash ex" and "iden \<noteq> []"
    and "LimitFor reg' cl (governed_ref cq iden) = Some (cs_DefaultLimit (cq_Spec cq))"
    and "get_entry (webhookEntryName ((rule_key cq)\<lparr>wk_IdentityHash := iden\<rparr>)) (installed stored w') =
      Some (buildWebhookEntry i ((rule_key cq)\<lparr>wk_IdentityHash := iden\<rparr>))"
proof -
  obtain x w2 where ex: "cr_APIExportReader r (gr_APIExportName (cs_Governed (cq_Spec cq))) w1 = (x, w2)"
    by fastforce
  obtain ex where x: "x = Inr ex" using res got ex by (cases x) (auto simp: CQ_Reconcile_def)
  let ?id = "ae_IdentityHash ex"
  have id: "?id \<noteq> []" using res got ex x
    by (auto simp: CQ_Reconcile_def Let_def identityHashRequeueInterval_def)
  obtain y w3 where st: "stamp_identity (cr_Client r) ?id cq w2 = (y, w3)" by fastforce
  obtain cq3 where y: "y = Inr cq3" using res got ex x id st by (cases y) (auto simp: CQ_Reconcile_def Let_def)
  note stamped = stamp_identity_ok [OF laws(2) st [unfolded y]]
  have ir: "Installer_Reconcile (cr_VWC r) i cq3 w3 = (None, w')"
    and reg': "reg' = Set_limit (governed_ref cq3 ?id) (cs_DefaultLimit (cq_Spec cq3)) reg"
    using res got ex x id st y inst by (auto simp: CQ_Reconcile_def Let_def split: prod.splits)
  have key: "rule_key cq3 = (rule_key cq)\<lparr>wk_IdentityHash := ?id\<rparr>"
    using stamped by (simp add: rule_key_def Let_def)
  have "get_entry (webhookEntryName (rule_key cq3)) (installed stored w') = Some (buildWebhookEntry i (rule_key cq3))"
    using Installer_Reconcile_spec [OF laws(1) _ ir] stamped id by (simp add: get_upsert)
  moreover have "LimitFor reg' cl (governed_ref cq ?id) = Some (cs_DefaultLimit (cq_Spec cq))"
    using stamped by (simp add: reg' limits.laws governed_ref_def)
  ultimately show thesis using that [of ex ?id] id key ex x by simp
qed

end
