(* ===== verification/Quota_Reconciler_Properties.thy ===== *)
theory Quota_Reconciler_Properties
  imports Quota_Reconciler Installer_Properties Lifecycle_Properties
begin

text \<open>
  The properties of the quota's reconcile: what a success guarantees, in which order a deletion
  takes enforcement away, and that fault-free reconciles bring a new quota to enforcement.
\<close>

section \<open>A concrete provider workspace with one quota\<close>

type_synonym demo_ws = "ConsumptionQuota option \<times> VWC option"

definition demo_cq_client :: "demo_ws CQClient" where
  "demo_cq_client =
     \<lparr>qc_Get = (\<lambda>n w. (case fst w of None \<Rightarrow> Inl NotFound | Some q \<Rightarrow> if cq_Name q = n then Inr q else Inl NotFound, w)),
      qc_Update = (\<lambda>q w. (Inr q, (Some q, snd w))),
      qc_StatusUpdate = (\<lambda>q w. (Inr q, (Some q, snd w)))\<rparr>"

definition demo_exports :: "string \<Rightarrow> demo_ws \<Rightarrow> (api_error + APIExport) \<times> demo_ws" where
  "demo_exports n w = (Inr \<lparr>ae_Resources = [], ae_IdentityHash = ''h1''\<rparr>, w)"

definition demo_ws_vwc :: "demo_ws VWCClient" where
  "demo_ws_vwc =
     \<lparr>vc_Get = (\<lambda>w. case vc_Get demo_vwc (snd w) of (x, v) \<Rightarrow> (x, (fst w, v))),
      vc_Update = (\<lambda>c w. case vc_Update demo_vwc c (snd w) of (x, v) \<Rightarrow> (x, (fst w, v))),
      vc_Delete = (\<lambda>c w. case vc_Delete demo_vwc c (snd w) of (x, v) \<Rightarrow> (x, (fst w, v))),
      vc_CreateOrUpdate = (\<lambda>c f w. case vc_CreateOrUpdate demo_vwc c f (snd w) of (x, v) \<Rightarrow> (x, (fst w, v)))\<rparr>"

definition demo_finalizers :: Finalizers where
  "demo_finalizers =
     \<lparr>fl_Contains = (\<lambda>q n. n \<in> set (cq_Finalizers q)),
      fl_Add = (\<lambda>q n. q\<lparr>cq_Finalizers := cq_Finalizers q @ [n]\<rparr>),
      fl_Remove = (\<lambda>q n. q\<lparr>cq_Finalizers := removeAll n (cq_Finalizers q)\<rparr>)\<rparr>"

definition demo_reconciler :: "demo_ws ConsumptionQuotaReconciler" where
  "demo_reconciler = \<lparr>cr_Client = demo_cq_client, cr_APIExportReader = demo_exports, cr_VWC = demo_ws_vwc, cr_Finalizers = demo_finalizers,
     cr_Installer = Some demo_installer\<rparr>"

lemma demo_ws_laws: "vwc_laws demo_ws_vwc snd" "cq_laws demo_cq_client snd"
  by (auto simp: vwc_laws_def vwc_get_law_def vwc_update_law_def vwc_delete_law_def vwc_upsert_law_def
      demo_ws_vwc_def demo_vwc_def cq_laws_def demo_cq_client_def split: option.splits if_splits)

abbreviation finalized :: "ConsumptionQuota \<Rightarrow> ConsumptionQuota" where
  "finalized q \<equiv> q\<lparr>cq_Finalizers := [webhookFinalizer]\<rparr>"

section \<open>Reconcile\<close>

text \<open>
  A \<open>Reconcile\<close> of a live quota that returns neither an error nor a requeue (and has its
  finalizer) leaves it enforced under the identity its export has: its limit is registered, and a
  fail-closed entry intercepts CREATE of the governed resource in every version and calls the
  webhook at the path of exactly that identity.
\<close>

theorem reconcile_enforces:
  assumes "vwc_laws (cr_VWC r) stored" and "cq_laws (cr_Client r) stored" and "cr_Installer r = Some i"
    and "qc_Get (cr_Client r) name w = (Inr cq, w1)" and "cq_DeletionTimestamp cq = None"
    and "fl_Contains (cr_Finalizers r) cq webhookFinalizer"
    and "CQ_Reconcile r name w reg = ((done_result, None), w', reg')"
  shows "\<exists>ex wh. fst (cr_APIExportReader r (gr_APIExportName (cs_Governed (cq_Spec cq))) w1) = Inr ex \<and>
    ae_IdentityHash ex \<noteq> [] \<and>
    LimitFor reg' cluster (governed_ref cq (ae_IdentityHash ex)) = Some (cs_DefaultLimit (cq_Spec cq)) \<and>
    intercepts (installed stored w') (gr_Group (cs_Governed (cq_Spec cq))) version
      (gr_Resource (cs_Governed (cq_Spec cq))) wh \<and>
    wh_FailurePolicy wh = ''Fail'' \<and>
    wh_URL wh = wi_WebhookBaseURL i @ validate_path (governed_ref cq (ae_IdentityHash ex))"
proof (rule CQ_Reconcile_live [OF assms(1-7)])
  fix ex iden
  let ?k = "(rule_key cq)\<lparr>wk_IdentityHash := iden\<rparr>"
  assume ex: "fst (cr_APIExportReader r (gr_APIExportName (cs_Governed (cq_Spec cq))) w1) = Inr ex"
    "iden = ae_IdentityHash ex" "iden \<noteq> []"
    "LimitFor reg' cluster (governed_ref cq iden) = Some (cs_DefaultLimit (cq_Spec cq))"
    and entry: "get_entry (webhookEntryName ?k) (installed stored w') = Some (buildWebhookEntry i ?k)"
  from get_entry_intercepts [OF entry, of version]
  have "intercepts (installed stored w') (gr_Group (cs_Governed (cq_Spec cq))) version
      (gr_Resource (cs_Governed (cq_Spec cq))) (buildWebhookEntry i ?k)"
    by (simp add: rule_key_def Let_def)
  moreover have "key_ref ?k = governed_ref cq iden"
    by (simp add: key_ref_def rule_key_def governed_ref_def Let_def)
  ultimately show ?thesis using ex by (auto simp: buildWebhookEntry_def webhookURL_path)
qed

theorem reconcile_enforces_witness:
  "\<exists>wh. intercepts (installed snd (fst (snd (CQ_Reconcile demo_reconciler ''q''
     (Some (finalized (demo_quota ''g'')), None) New)))) ''g'' ''v1'' ''buckets'' wh \<and> wh_FailurePolicy wh = ''Fail''"
proof -
  let ?w = "(Some (finalized (demo_quota ''g'')), None) :: demo_ws"
  let ?r = "CQ_Reconcile demo_reconciler ''q'' ?w New"
  have "fst ?r = (done_result, None)" by code_simp
  then have r: "?r = ((done_result, None), fst (snd ?r), snd (snd ?r))" by (metis prod.collapse)
  have "vwc_laws (cr_VWC demo_reconciler) snd" "cq_laws (cr_Client demo_reconciler) snd"
    "cr_Installer demo_reconciler = Some demo_installer"
    by (simp_all add: demo_reconciler_def demo_ws_laws)
  moreover have "qc_Get (cr_Client demo_reconciler) ''q'' ?w = (Inr (finalized (demo_quota ''g'')), ?w)"
    "cq_DeletionTimestamp (finalized (demo_quota ''g'')) = None"
    "fl_Contains (cr_Finalizers demo_reconciler) (finalized (demo_quota ''g'')) webhookFinalizer"
    by (simp_all add: demo_reconciler_def demo_cq_client_def demo_finalizers_def demo_quota_def)
  ultimately show ?thesis
    using reconcile_enforces [OF _ _ _ _ _ _ r, of snd demo_installer "finalized (demo_quota ''g'')" ?w "[]" "''v1''"]
    by (auto simp: demo_quota_def)
qed

section \<open>Deletion\<close>

lemma handleDeletion_cases:
  assumes laws: "vwc_laws (cr_VWC r) stored" "cq_laws (cr_Client r) stored" and inst: "cr_Installer r = Some i"
    and res: "handleDeletion r cq w reg = (err, w', reg')"
  shows "(\<exists>e. Installer_Remove (cr_VWC r) cq w = (Some e, w') \<and> err = Some e \<and> reg' = reg) \<or>
    reg' = Delete_limit (cq_resource cq) reg \<and> get_entry (webhookEntryName (rule_key cq)) (installed stored w') = None"
proof -
  obtain e w1 where rm: "Installer_Remove (cr_VWC r) cq w = (e, w1)" by fastforce
  show ?thesis
  proof (cases e)
    case (Some x)
    then show ?thesis using res rm inst by (auto simp: handleDeletion_def)
  next
    case None
    then have gone: "installed stored w1 = remove_entry (webhookEntryName (rule_key cq)) (installed stored w)"
      using Installer_Remove_spec [OF laws(1) rm] by simp
    have frame: "stored (snd (qc_Update (cr_Client r) q w1)) = stored w1" for q
      using laws(2) by (simp add: cq_laws_def)
    have "stored w' = stored w1 \<and> reg' = Delete_limit (cq_resource cq) reg"
      using res rm inst None frame [of "fl_Remove (cr_Finalizers r) cq webhookFinalizer"]
      by (auto simp: handleDeletion_def Let_def split: if_splits prod.splits sum.splits)
    then show ?thesis using gone by (simp add: installed_def get_remove del: remove_entry_eq)
  qed
qed

text \<open>
  C33. Deleting a quota takes enforcement away in the safe order, whatever answers come and wherever
  it stops: its limit is dropped only after its webhook entry is gone, a removal that fails keeps
  limit and finalizer and returns its error, and no answer without an error leaves either behind.
\<close>

theorem deletion_order:
  assumes "vwc_laws (cr_VWC r) stored" and "cq_laws (cr_Client r) stored" and "cr_Installer r = Some i"
    and "handleDeletion r cq w reg = (err, w', reg')"
  shows "(get_entry (webhookEntryName (rule_key cq)) (installed stored w') \<noteq> None \<longrightarrow>
      err \<noteq> None \<and> reg' = reg \<and> w' = snd (Installer_Remove (cr_VWC r) cq w)) \<and>
    (err = None \<longrightarrow> LimitFor reg' cluster (cq_resource cq) = None \<and>
      get_entry (webhookEntryName (rule_key cq)) (installed stored w') = None)"
  using handleDeletion_cases [OF assms] by (auto simp: limits.laws)

text \<open>The workspace after the quota was enforced, and its deletion.\<close>

definition demo_enforced :: "demo_ws \<times> Registry" where
  "demo_enforced = snd (CQ_Reconcile demo_reconciler ''q'' (Some (finalized (demo_quota ''g'')), None) New)"

abbreviation demo_deletion :: "go_error option \<times> demo_ws \<times> Registry" where
  "demo_deletion \<equiv> handleDeletion demo_reconciler (finalized (demo_quota ''g'')) (fst demo_enforced) (snd demo_enforced)"

lemma demo_deletion_ok: "demo_deletion = (None, fst (snd demo_deletion), snd (snd demo_deletion))"
proof -
  have "fst demo_deletion = None" by code_simp
  then show ?thesis by (metis prod.collapse)
qed

lemma demo_reconciler_laws:
  "vwc_laws (cr_VWC demo_reconciler) snd" "cq_laws (cr_Client demo_reconciler) snd"
  "cr_Installer demo_reconciler = Some demo_installer"
  by (simp_all add: demo_reconciler_def demo_ws_laws)

theorem deletion_order_witness:
  "get_entry (webhookEntryName (rule_key (demo_quota ''g''))) (installed snd (fst (snd demo_deletion))) = None"
  using deletion_order [OF demo_reconciler_laws demo_deletion_ok] by (simp add: rule_key_def Let_def)

section \<open>Accounting during a deletion\<close>

lemma quota_key_nonempty: "quota_key q \<noteq> []"
  by (simp add: quota_key_def accountingKey_def)

text \<open>
  C21. The accounting of a quota can end before its webhook does: when a quota is deleted between the read
  at the start of \<open>Reconcile\<close> and the one the closure makes after it, the same event that installs the
  entry and the limit drops the quota's reference from every accounting set, and the CREATEs of the
  governed resource go on being intercepted, fail-closed, under that limit.
\<close>

theorem accounting_leaves_before_webhook:
  assumes ord: "enumerates ord" and inv: "refs_inv (ct_acct \<sigma>)"
    and laws: "vwc_laws (cr_VWC r) stored" "cq_laws (cr_Client r) stored" and inst: "cr_Installer r = Some i"
    and r: "reconciler cluster = Inr r"
    and got: "qc_Get (cr_Client r) name (ct_world \<sigma>) = (Inr cq, w1)" "cq_DeletionTimestamp cq = None"
      "fl_Contains (cr_Finalizers r) cq webhookFinalizer"
    and res: "CQ_Reconcile r name (ct_world \<sigma>) (ct_reg \<sigma>) = ((done_result, None), w', reg')"
    and again: "qc_Get (cr_Client r) name w' = (Inr cq', w'')" "cq_DeletionTimestamp cq' \<noteq> None" "stored w'' = stored w'"
    and run: "controller_reconcile reconciler ord startFn cluster name \<sigma> = (out, \<sigma>')"
  shows "out = (done_result, None) \<and> (\<forall>q. cq_ref cluster name \<notin> refs_of (ct_acct \<sigma>') (quota_key q)) \<and>
    (\<exists>iden wh. LimitFor (ct_reg \<sigma>') cl (governed_ref cq iden) = Some (cs_DefaultLimit (cq_Spec cq)) \<and>
       intercepts (installed stored (ct_world \<sigma>')) (gr_Group (cs_Governed (cq_Spec cq))) version
         (gr_Resource (cs_Governed (cq_Spec cq))) wh \<and> wh_FailurePolicy wh = ''Fail'')"
proof (rule CQ_Reconcile_live [OF laws inst got res, of cl])
  fix ex iden
  let ?k = "(rule_key cq)\<lparr>wk_IdentityHash := iden\<rparr>"
  assume lim: "LimitFor reg' cl (governed_ref cq iden) = Some (cs_DefaultLimit (cq_Spec cq))"
    and entry: "get_entry (webhookEntryName ?k) (installed stored w') = Some (buildWebhookEntry i ?k)"
  have out: "out = (done_result, None)" "\<sigma>' = \<sigma>\<lparr>ct_world := w'', ct_reg := reg', ct_acct := Remove ord cluster name (ct_acct \<sigma>)\<rparr>"
    using run r res again by (auto simp: controller_reconcile_def)
  have "cq_ref cluster name \<notin> refs_of (ct_acct \<sigma>') (quota_key q)" for q
    by (simp add: out Remove_def dropRef_effect(1) [OF ord inv] quota_key_nonempty)
  moreover from get_entry_intercepts [OF entry, of version]
  have "intercepts (installed stored (ct_world \<sigma>')) (gr_Group (cs_Governed (cq_Spec cq))) version
      (gr_Resource (cs_Governed (cq_Spec cq))) (buildWebhookEntry i ?k)"
    by (simp add: out installed_def again(3) rule_key_def Let_def)
  moreover have "wh_FailurePolicy (buildWebhookEntry i ?k) = ''Fail''" by (simp add: buildWebhookEntry_def)
  ultimately show ?thesis using out lim by fastforce
qed

text \<open>A workspace where the quota is deleted as soon as its status has been stamped.\<close>

definition hasty_reconciler :: "demo_ws ConsumptionQuotaReconciler" where
  "hasty_reconciler = demo_reconciler\<lparr>cr_Client := demo_cq_client\<lparr>qc_StatusUpdate :=
     (\<lambda>q w. (Inr q, (Some (q\<lparr>cq_DeletionTimestamp := Some 0\<rparr>), snd w)))\<rparr>\<rparr>"

definition hasty_quota :: ConsumptionQuota where
  "hasty_quota = (finalized (demo_quota ''g''))\<lparr>cq_Status := \<lparr>ct_IdentityHash = []\<rparr>\<rparr>"

definition hasty_state :: "demo_ws controller_state" where
  "hasty_state = new_controller_state (Some hasty_quota, None)"

abbreviation hasty_run :: "(Result \<times> go_error option) \<times> demo_ws controller_state" where
  "hasty_run \<equiv> controller_reconcile (\<lambda>_. Inr hasty_reconciler) sorted_range (\<lambda>c g k a. (None, a)) ''p'' ''q'' hasty_state"

theorem accounting_leaves_before_webhook_witness:
  "\<exists>wh. intercepts (installed snd (ct_world (snd hasty_run))) ''g'' ''v1'' ''buckets'' wh \<and>
    cq_ref ''p'' ''q'' \<notin> refs_of (ct_acct (snd hasty_run)) (quota_key (demo_quota ''g''))"
proof -
  let ?r = "CQ_Reconcile hasty_reconciler ''q'' (ct_world hasty_state) (ct_reg hasty_state)"
  have "fst ?r = (done_result, None)" by code_simp
  then have res: "?r = ((done_result, None), fst (snd ?r), snd (snd ?r))" by (metis prod.collapse)
  have laws: "vwc_laws (cr_VWC hasty_reconciler) snd" "cq_laws (cr_Client hasty_reconciler) snd"
    "cr_Installer hasty_reconciler = Some demo_installer"
    using demo_ws_laws by (simp_all add: hasty_reconciler_def demo_reconciler_def cq_laws_def)
  have got: "qc_Get (cr_Client hasty_reconciler) ''q'' (ct_world hasty_state) = (Inr hasty_quota, ct_world hasty_state)"
    "cq_DeletionTimestamp hasty_quota = None" "fl_Contains (cr_Finalizers hasty_reconciler) hasty_quota webhookFinalizer"
    by (simp_all add: hasty_reconciler_def demo_reconciler_def demo_cq_client_def hasty_state_def new_controller_state_def hasty_quota_def
        demo_finalizers_def demo_quota_def)
  let ?g = "qc_Get (cr_Client hasty_reconciler) ''q'' (fst (snd ?r))"
  let ?del = "(finalized (demo_quota ''g''))\<lparr>cq_DeletionTimestamp := Some 0\<rparr>"
  have "fst ?g = Inr ?del" by code_simp
  moreover have "snd ?g = fst (snd ?r)" by (simp add: hasty_reconciler_def demo_cq_client_def)
  ultimately have again: "?g = (Inr ?del, fst (snd ?r))" by (metis prod.collapse)
  have inv: "refs_inv (ct_acct hasty_state)"
    by (simp add: refs_inv_def hasty_state_def new_controller_state_def newAccountingManager_def refs_of_def)
  have run: "hasty_run = (fst hasty_run, snd hasty_run)" by simp
  from accounting_leaves_before_webhook [where reconciler = "\<lambda>_. Inr hasty_reconciler" and cluster = "''p''",
      OF sorted_range inv laws refl got res again _ refl run, of "[]" "''v1''"]
  show ?thesis by (auto simp: hasty_quota_def demo_quota_def)
qed

section \<open>Fault-free reconciles\<close>

text \<open>
  A workspace whose API server accepts every fresh write and serves an export that has an identity:
  \<open>quota w\<close> are its quotas.
\<close>

definition write_accepted ::
  "(ConsumptionQuota \<Rightarrow> 'w \<Rightarrow> (api_error + ConsumptionQuota) \<times> 'w) \<Rightarrow> ('w \<Rightarrow> string \<Rightarrow> ConsumptionQuota option)
     \<Rightarrow> ('w \<Rightarrow> VWC option) \<Rightarrow> ConsumptionQuota \<Rightarrow> 'w \<Rightarrow> bool" where
  "write_accepted upd quota stored q w \<longleftrightarrow>
     (\<exists>v w'. upd q w = (Inr (q\<lparr>cq_ResourceVersion := v\<rparr>), w') \<and>
        quota w' = (quota w)(cq_Name q \<mapsto> q\<lparr>cq_ResourceVersion := v\<rparr>) \<and> stored w' = stored w)"

definition faultless_quotas ::
  "'w CQClient \<Rightarrow> ('w \<Rightarrow> string \<Rightarrow> ConsumptionQuota option) \<Rightarrow> ('w \<Rightarrow> VWC option) \<Rightarrow> bool" where
  "faultless_quotas c quota stored \<longleftrightarrow>
     (\<forall>n w. qc_Get c n w = (case quota w n of None \<Rightarrow> Inl NotFound | Some q \<Rightarrow> Inr q, w)) \<and>
     (\<forall>n w q. quota w n = Some q \<longrightarrow> cq_Name q = n) \<and>
     (\<forall>w q fs. quota w (cq_Name q) = Some q \<longrightarrow> cq_DeletionTimestamp q = None \<longrightarrow>
        write_accepted (qc_Update c) quota stored (q\<lparr>cq_Finalizers := fs\<rparr>) w) \<and>
     (\<forall>w q st. quota w (cq_Name q) = Some q \<longrightarrow>
        write_accepted (qc_StatusUpdate c) quota stored (q\<lparr>cq_Status := st\<rparr>) w)"

definition faultless_exports ::
  "(string \<Rightarrow> 'w \<Rightarrow> (api_error + APIExport) \<times> 'w) \<Rightarrow> (string \<Rightarrow> string) \<Rightarrow> bool" where
  "faultless_exports reader iden \<longleftrightarrow>
     (\<forall>e w. \<exists>ex. reader e w = (Inr ex, w) \<and> ae_IdentityHash ex = iden e \<and> iden e \<noteq> [])"

definition faultless_vwc ::
  "'w VWCClient \<Rightarrow> ('w \<Rightarrow> string \<Rightarrow> ConsumptionQuota option) \<Rightarrow> bool" where
  "faultless_vwc c quota \<longleftrightarrow> (\<forall>v f w. \<exists>w'. vc_CreateOrUpdate c v f w = (None, w') \<and> quota w' = quota w)"

definition finalizers_honest :: "Finalizers \<Rightarrow> bool" where
  "finalizers_honest f \<longleftrightarrow>
     (\<forall>q n. fl_Contains f (fl_Add f q n) n \<and> (\<exists>fs. fl_Add f q n = q\<lparr>cq_Finalizers := fs\<rparr>)) \<and>
     (\<forall>q n st v. fl_Contains f (q\<lparr>cq_ResourceVersion := v\<rparr>) n = fl_Contains f q n \<and>
        fl_Contains f (q\<lparr>cq_Status := st\<rparr>) n = fl_Contains f q n)"

definition faultless ::
  "'w ConsumptionQuotaReconciler \<Rightarrow> ('w \<Rightarrow> string \<Rightarrow> ConsumptionQuota option) \<Rightarrow> ('w \<Rightarrow> VWC option)
     \<Rightarrow> (string \<Rightarrow> string) \<Rightarrow> bool" where
  "faultless r quota stored iden \<longleftrightarrow>
     vwc_laws (cr_VWC r) stored \<and> faultless_vwc (cr_VWC r) quota \<and>
     faultless_quotas (cr_Client r) quota stored \<and> faultless_exports (cr_APIExportReader r) iden \<and>
     finalizers_honest (cr_Finalizers r) \<and> cr_Installer r \<noteq> None"

text \<open>Enforced: limit, interception under the current identity, and accounting.\<close>

definition enforced ::
  "('w \<Rightarrow> VWC option) \<Rightarrow> WebhookInstaller \<Rightarrow> string \<Rightarrow> ConsumptionQuota \<Rightarrow> 'w controller_state \<Rightarrow> bool" where
  "enforced stored i cluster q \<sigma> \<longleftrightarrow>
     LimitFor (ct_reg \<sigma>) cluster (cq_resource q) = Some (cs_DefaultLimit (cq_Spec q)) \<and>
     get_entry (webhookEntryName (rule_key q)) (installed stored (ct_world \<sigma>)) = Some (buildWebhookEntry i (rule_key q)) \<and>
     cq_ref cluster (cq_Name q) \<in> refs_of (ct_acct \<sigma>) (quota_key q) \<and>
     (am_sets (ct_acct \<sigma>) (quota_key q) \<noteq> None \<or> quota_key q \<in> am_starting (ct_acct \<sigma>))"

text \<open>The quota as it is once its identity is stamped, up to the version.\<close>

definition stamped :: "(string \<Rightarrow> string) \<Rightarrow> ConsumptionQuota \<Rightarrow> ConsumptionQuota" where
  "stamped iden q =
     q\<lparr>cq_Status := (cq_Status q)\<lparr>ct_IdentityHash := iden (gr_APIExportName (cs_Governed (cq_Spec q)))\<rparr>\<rparr>"

lemma enforced_version [simp]:
  "enforced stored i cl (q\<lparr>cq_ResourceVersion := v\<rparr>) \<sigma> = enforced stored i cl q \<sigma>"
  "enforced stored i cl (q\<lparr>cq_Finalizers := fs\<rparr>) \<sigma> = enforced stored i cl q \<sigma>"
  by (simp_all add: enforced_def rule_key_def cq_resource_def quota_key_def Let_def)

lemma same_version: "\<exists>v. q = q\<lparr>cq_ResourceVersion := v\<rparr>" for q :: ConsumptionQuota
  by (rule exI [of _ "cq_ResourceVersion q"]) simp

lemma stamp_faultless:
  assumes f: "faultless_quotas c quota stored" and q: "quota w n = Some q"
  shows "\<exists>q' w'. stamp_identity c (iden (gr_APIExportName (cs_Governed (cq_Spec q)))) q w = (Inr q', w') \<and>
    quota w' = (quota w)(n \<mapsto> q') \<and> stored w' = stored w \<and>
    (\<exists>v. q' = (stamped iden q)\<lparr>cq_ResourceVersion := v\<rparr>)"
proof (cases "ct_IdentityHash (cq_Status q) = iden (gr_APIExportName (cs_Governed (cq_Spec q)))")
  case True
  have "stamped iden q = q" using True by (simp add: stamped_def)
  moreover have "quota w = (quota w)(n \<mapsto> q)" using q by auto
  ultimately show ?thesis using True same_version [of q] by (simp add: stamp_identity_def)
next
  case False
  have n: "cq_Name q = n" using f q by (simp add: faultless_quotas_def)
  let ?q = "stamped iden q"
  have "write_accepted (qc_StatusUpdate c) quota stored ?q w"
    using f q n unfolding faultless_quotas_def stamped_def by blast
  moreover have "cq_Name ?q = n" using n by (simp add: stamped_def)
  ultimately show ?thesis using False by (auto simp: write_accepted_def stamp_identity_def stamped_def)
qed

text \<open>One reconcile of a quota that has its finalizer enforces it.\<close>

lemma reconcile_finalized:
  assumes f: "faultless r quota stored iden" and i: "cr_Installer r = Some i"
    and q: "quota w name = Some q" "cq_DeletionTimestamp q = None" "fl_Contains (cr_Finalizers r) q webhookFinalizer"
  shows "\<exists>w' v. CQ_Reconcile r name w reg = ((done_result, None), w',
        Set_limit (cq_resource (stamped iden q)) (cs_DefaultLimit (cq_Spec q)) reg) \<and>
    quota w' = (quota w)(name \<mapsto> (stamped iden q)\<lparr>cq_ResourceVersion := v\<rparr>) \<and>
    get_entry (webhookEntryName (rule_key (stamped iden q))) (installed stored w') =
      Some (buildWebhookEntry i (rule_key (stamped iden q)))"
proof -
  let ?e = "gr_APIExportName (cs_Governed (cq_Spec q))" and ?c = "cr_Client r"
  have fq: "faultless_quotas ?c quota stored" and fe: "faultless_exports (cr_APIExportReader r) iden" and laws: "vwc_laws (cr_VWC r) stored"
    and fv: "faultless_vwc (cr_VWC r) quota" using f by (simp_all add: faultless_def)
  have get: "qc_Get ?c name w = (Inr q, w)" using fq q by (simp add: faultless_quotas_def)
  obtain ex where ex: "cr_APIExportReader r ?e w = (Inr ex, w)" "ae_IdentityHash ex = iden ?e" "iden ?e \<noteq> []"
    using fe unfolding faultless_exports_def by meson
  obtain q' w1 v where st: "stamp_identity ?c (iden ?e) q w = (Inr q', w1)" "quota w1 = (quota w)(name \<mapsto> q')"
    and q': "q' = (stamped iden q)\<lparr>cq_ResourceVersion := v\<rparr>"
    using stamp_faultless [OF fq q(1)] by blast
  have hash: "ct_IdentityHash (cq_Status q') \<noteq> []" using q' ex by (simp add: stamped_def)
  obtain w2 where cu: "vc_CreateOrUpdate (cr_VWC r) new_vwc
      (mutate_vwc (webhookEntryName (rule_key q')) (buildWebhookEntry i (rule_key q'))) w1 = (None, w2)"
    "quota w2 = quota w1"
    using fv unfolding faultless_vwc_def by meson
  then have ir: "Installer_Reconcile (cr_VWC r) i q' w1 = (None, w2)"
    using hash by (simp add: Installer_Reconcile_def Let_def)
  have key: "rule_key q' = rule_key (stamped iden q)" by (simp add: q' rule_key_def Let_def)
  have "CQ_Reconcile r name w reg = ((done_result, None), w2,
      Set_limit (cq_resource (stamped iden q)) (cs_DefaultLimit (cq_Spec q)) reg)"
    using get q ex st(1) ir i
    by (simp add: CQ_Reconcile_def Let_def q' stamped_def governed_ref_def cq_resource_def)
  moreover have "get_entry (webhookEntryName (rule_key q')) (installed stored w2) = Some (buildWebhookEntry i (rule_key q'))"
    using Installer_Reconcile_spec [OF laws hash ir] by (simp add: get_upsert)
  ultimately show ?thesis using st(2) cu(2) q' key by auto
qed

text \<open>The closure on a finalized quota, and on one that still lacks its finalizer.\<close>

lemma controller_finalized:
  assumes ord: "enumerates ord" and inv: "refs_inv (ct_acct \<sigma>)"
    and f: "faultless r quota stored iden" and i: "cr_Installer r = Some i" and r: "reconciler cl = Inr r"
    and start: "\<exists>ur. start_prepare d baseCfg store lc cl (governed_of (stamped iden q)) = Inr ur"
    and q: "quota (ct_world \<sigma>) name = Some q" "cq_DeletionTimestamp q = None"
      "fl_Contains (cr_Finalizers r) q webhookFinalizer"
  shows "\<exists>\<sigma>'. controller_reconcile reconciler ord (code_start d baseCfg store lc) cl name \<sigma> = ((done_result, None), \<sigma>') \<and>
    enforced stored i cl (stamped iden q) \<sigma>' \<and> refs_inv (ct_acct \<sigma>') \<and>
    (\<exists>v. quota (ct_world \<sigma>') = (quota (ct_world \<sigma>))(name \<mapsto> (stamped iden q)\<lparr>cq_ResourceVersion := v\<rparr>))"
proof -
  let ?s = "stamped iden q" and ?start = "code_start d baseCfg store lc"
  have fq: "faultless_quotas (cr_Client r) quota stored" and fe: "faultless_exports (cr_APIExportReader r) iden" using f by (simp_all add: faultless_def)
  obtain w' v where cq: "CQ_Reconcile r name (ct_world \<sigma>) (ct_reg \<sigma>) = ((done_result, None), w',
        Set_limit (cq_resource ?s) (cs_DefaultLimit (cq_Spec q)) (ct_reg \<sigma>))"
    and q': "quota w' = (quota (ct_world \<sigma>))(name \<mapsto> ?s\<lparr>cq_ResourceVersion := v\<rparr>)"
    and entry: "get_entry (webhookEntryName (rule_key ?s)) (installed stored w') = Some (buildWebhookEntry i (rule_key ?s))"
    using reconcile_finalized [OF f i q] by blast
  let ?q' = "?s\<lparr>cq_ResourceVersion := v\<rparr>"
  obtain err a' where en: "Ensure ord ?start cl ?q' (ct_acct \<sigma>) = (err, a')" by fastforce
  have gov: "governed_of ?q' = governed_of ?s" and key: "quota_key ?q' = quota_key ?s"
    by (simp_all add: governed_of_def quota_key_def Let_def)
  have err: "err = None"
    using en start gov by (auto simp: Ensure_def code_start_def start_def register_set_def split: prod.splits bool.splits)
  have get: "qc_Get (cr_Client r) name w' = (Inr ?q', w')" using fq q' by (simp add: faultless_quotas_def)
  have "iden (gr_APIExportName (cs_Governed (cq_Spec q))) \<noteq> []" using fe unfolding faultless_exports_def by meson
  then have live: "ct_IdentityHash (cq_Status ?q') \<noteq> []" "cq_DeletionTimestamp ?q' = None"
    using q(2) by (simp_all add: stamped_def)
  let ?\<sigma>' = "\<sigma>\<lparr>ct_world := w', ct_reg := Set_limit (cq_resource ?s) (cs_DefaultLimit (cq_Spec q)) (ct_reg \<sigma>), ct_acct := a'\<rparr>"
  have run: "controller_reconcile reconciler ord ?start cl name \<sigma> = ((done_result, None), ?\<sigma>')"
    using r cq get live en err by (simp add: controller_reconcile_def)
  have "enforced stored i cl ?s ?\<sigma>'"
    using Ensure_effect [OF ord inv en] err entry key
    by (simp add: enforced_def limits.laws) (simp add: stamped_def)
  moreover have "refs_inv a'" using Ensure_refs_inv [OF ord inv, of d baseCfg store lc cl ?q'] en by simp
  ultimately show ?thesis using run q' by auto
qed

lemma controller_adds_finalizer:
  assumes ord: "enumerates ord" and inv: "refs_inv (ct_acct \<sigma>)"
    and f: "faultless r quota stored iden" and r: "reconciler cl = Inr r"
    and q: "quota (ct_world \<sigma>) name = Some q" "cq_DeletionTimestamp q = None"
      "\<not> fl_Contains (cr_Finalizers r) q webhookFinalizer"
    and run: "controller_reconcile reconciler ord (code_start d baseCfg store lc) cl name \<sigma> = (res, \<sigma>')"
  shows "refs_inv (ct_acct \<sigma>') \<and> (\<exists>v fs. quota (ct_world \<sigma>') = (quota (ct_world \<sigma>))(name \<mapsto> q\<lparr>cq_Finalizers := fs, cq_ResourceVersion := v\<rparr>) \<and>
    fl_Contains (cr_Finalizers r) (q\<lparr>cq_Finalizers := fs, cq_ResourceVersion := v\<rparr>) webhookFinalizer)"
proof -
  have fq: "faultless_quotas (cr_Client r) quota stored" and fin: "finalizers_honest (cr_Finalizers r)"
    using f by (simp_all add: faultless_def)
  have n: "cq_Name q = name" and get: "\<And>w. qc_Get (cr_Client r) name w = (case quota w name of None \<Rightarrow> Inl NotFound | Some q \<Rightarrow> Inr q, w)"
    using fq q by (simp_all add: faultless_quotas_def)
  obtain fs where fs: "fl_Add (cr_Finalizers r) q webhookFinalizer = q\<lparr>cq_Finalizers := fs\<rparr>"
    "fl_Contains (cr_Finalizers r) (q\<lparr>cq_Finalizers := fs\<rparr>) webhookFinalizer"
    using fin unfolding finalizers_honest_def by metis
  have "write_accepted (qc_Update (cr_Client r)) quota stored (q\<lparr>cq_Finalizers := fs\<rparr>) (ct_world \<sigma>)"
    using fq q n unfolding faultless_quotas_def by blast
  then obtain v w' where up: "qc_Update (cr_Client r) (q\<lparr>cq_Finalizers := fs\<rparr>) (ct_world \<sigma>) =
      (Inr (q\<lparr>cq_Finalizers := fs, cq_ResourceVersion := v\<rparr>), w')"
    and q': "quota w' = (quota (ct_world \<sigma>))(name \<mapsto> q\<lparr>cq_Finalizers := fs, cq_ResourceVersion := v\<rparr>)"
    using n by (auto simp: write_accepted_def)
  let ?q' = "q\<lparr>cq_Finalizers := fs, cq_ResourceVersion := v\<rparr>"
  have cq: "CQ_Reconcile r name (ct_world \<sigma>) (ct_reg \<sigma>) = ((done_result, None), w', ct_reg \<sigma>)"
    using q fs up by (simp add: CQ_Reconcile_def get)
  have "ct_world \<sigma>' = w' \<and> (ct_acct \<sigma>' = ct_acct \<sigma> \<or>
      ct_acct \<sigma>' = snd (Ensure ord (code_start d baseCfg store lc) cl ?q' (ct_acct \<sigma>)))"
    using run r cq q' q(2) get [of w'] by (auto simp: controller_reconcile_def split: if_splits prod.splits)
  moreover have "fl_Contains (cr_Finalizers r) ?q' webhookFinalizer"
    using fin fs(2) unfolding finalizers_honest_def by auto
  ultimately show ?thesis using q' inv Ensure_refs_inv [OF ord inv] by auto
qed

text \<open>
  Two fault-free reconciles bring a live quota to enforcement, whatever its finalizer and its
  identity were: its limit is registered under the identity of its export, the entry built for that
  identity is installed, the quota holds its reference, and its export's accounting is running or
  being started.
\<close>

theorem reconciles_reach_enforcement:
  assumes "enumerates ord" and "refs_inv (ct_acct \<sigma>)" and "faultless r quota stored iden"
    and "cr_Installer r = Some i" and "reconciler cluster = Inr r"
    and "\<exists>ur. start_prepare d baseCfg store lc cluster (governed_of (stamped iden q)) = Inr ur"
    and "quota (ct_world \<sigma>) name = Some q" and "cq_DeletionTimestamp q = None"
  shows "\<exists>n \<le> 1. enforced stored i cluster (stamped iden q)
    (((\<lambda>\<sigma>. snd (controller_reconcile reconciler ord (code_start d baseCfg store lc) cluster name \<sigma>)) ^^ Suc n) \<sigma>)"
proof (cases "fl_Contains (cr_Finalizers r) q webhookFinalizer")
  case True
  then show ?thesis
    using controller_finalized [where quota = quota and q = q and name = name and reconciler = reconciler and cl = cluster, OF assms(1-8)] by (intro exI [of _ 0]) auto
next
  case False
  let ?run = "\<lambda>\<sigma>. controller_reconcile reconciler ord (code_start d baseCfg store lc) cluster name \<sigma>"
  obtain res \<sigma>' where run: "?run \<sigma> = (res, \<sigma>')" by fastforce
  obtain v fs where inv: "refs_inv (ct_acct \<sigma>')"
    and q': "quota (ct_world \<sigma>') = (quota (ct_world \<sigma>))(name \<mapsto> q\<lparr>cq_Finalizers := fs, cq_ResourceVersion := v\<rparr>)"
    and has: "fl_Contains (cr_Finalizers r) (q\<lparr>cq_Finalizers := fs, cq_ResourceVersion := v\<rparr>) webhookFinalizer"
    using controller_adds_finalizer [where quota = quota and q = q and name = name and reconciler = reconciler and cl = cluster, OF assms(1-3,5,7,8) False run] by blast
  let ?q' = "q\<lparr>cq_Finalizers := fs, cq_ResourceVersion := v\<rparr>"
  have st: "stamped iden ?q' = (stamped iden q)\<lparr>cq_Finalizers := fs, cq_ResourceVersion := v\<rparr>"
    by (simp add: stamped_def)
  have "governed_of (stamped iden ?q') = governed_of (stamped iden q)"
    by (simp add: st governed_of_def Let_def)
  with assms(6) have start: "\<exists>ur. start_prepare d baseCfg store lc cluster (governed_of (stamped iden ?q')) = Inr ur"
    by simp
  have live: "cq_DeletionTimestamp ?q' = None" using assms(8) by simp
  from controller_finalized [where quota = quota and q = ?q' and name = name and reconciler = reconciler and cl = cluster, OF assms(1) inv assms(3-5) start _ live has] q'
  show ?thesis using run st by (intro exI [of _ 1]) auto
qed

text \<open>A new quota without finalizer and identity, in the demo workspace.\<close>

definition demo_new :: ConsumptionQuota where
  "demo_new = (demo_quota ''g'')\<lparr>cq_Status := \<lparr>ct_IdentityHash = []\<rparr>\<rparr>"

definition demo_quotas :: "demo_ws \<Rightarrow> string \<Rightarrow> ConsumptionQuota option" where
  "demo_quotas w n = (case fst w of None \<Rightarrow> None | Some q \<Rightarrow> if cq_Name q = n then Some q else None)"

definition demo_reader :: KcpReader where
  "demo_reader =
     \<lparr>kr_ListSlices = Inr [\<lparr>es_Name = ''s3-slice'', es_APIExportName = ''s3'', es_URLs = [''https://vw'']\<rparr>],
      kr_GetExport = (\<lambda>_. Inr \<lparr>ae_Resources = [\<lparr>xr_Group = ''g'', xr_Name = ''buckets'', xr_Schema = ''v1.buckets.g''\<rparr>],
        ae_IdentityHash = ''h1''\<rparr>),
      kr_GetSchemaKind = (\<lambda>_. Inr ''Bucket'')\<rparr>"

definition demo_deps :: start_deps where
  "demo_deps = \<lparr>sd_newClient = (\<lambda>_. Inr demo_reader), sd_newProvider = (\<lambda>_ _. None),
     sd_newManager = (\<lambda>_ _. None), sd_build = (\<lambda>_ _. None), sd_addSweep = None\<rparr>"

lemma demo_faultless: "faultless demo_reconciler demo_quotas snd (\<lambda>_. ''h1'')"
proof -
  have "faultless_quotas demo_cq_client demo_quotas snd"
    by (auto simp: faultless_quotas_def demo_cq_client_def demo_quotas_def write_accepted_def fun_eq_iff
        split: option.splits intro!: same_version [simplified])
  moreover have "faultless_exports demo_exports (\<lambda>_. ''h1'')"
    by (simp add: faultless_exports_def demo_exports_def)
  moreover have "faultless_vwc demo_ws_vwc demo_quotas"
    by (simp add: faultless_vwc_def demo_ws_vwc_def demo_vwc_def demo_quotas_def fun_eq_iff)
  moreover have "finalizers_honest demo_finalizers"
    by (auto simp: finalizers_honest_def demo_finalizers_def)
  ultimately show ?thesis by (simp add: faultless_def demo_reconciler_def demo_ws_laws)
qed

abbreviation demo_closure :: "demo_ws controller_state \<Rightarrow> demo_ws controller_state" where
  "demo_closure \<sigma> \<equiv> snd (controller_reconcile (\<lambda>_. Inr demo_reconciler) sorted_range
     (code_start demo_deps \<lparr>cfg_Host = ''h''\<rparr> (undefined :: unit Store) (\<lambda>c g w. (Inr [], w))) ''p'' ''q'' \<sigma>)"

theorem reconciles_reach_enforcement_witness:
  "\<exists>n \<le> 1. enforced snd demo_installer ''p'' (demo_quota ''g'')
     ((demo_closure ^^ Suc n) (new_controller_state (Some demo_new, None)))"
proof -
  let ?\<sigma> = "new_controller_state (Some demo_new, None) :: demo_ws controller_state"
  have s: "stamped (\<lambda>_. ''h1'') demo_new = demo_quota ''g''" by (simp add: stamped_def demo_new_def demo_quota_def)
  have inv: "refs_inv (ct_acct ?\<sigma>)" by (simp add: refs_inv_def new_controller_state_def newAccountingManager_def refs_of_def)
  have "ResolveKind demo_reader ''s3'' ''g'' ''buckets'' = Inr ''Bucket''"
    "EndpointSliceName demo_reader ''s3'' = Inr ''s3-slice''" "VirtualWorkspaceURL demo_reader ''s3'' = Some (Inr ''https://vw'')"
    by code_simp+
  then have start: "\<exists>ur. start_prepare demo_deps \<lparr>cfg_Host = ''h''\<rparr> (undefined :: unit Store) (\<lambda>c g w. (Inr [], w)) ''p''
      (governed_of (stamped (\<lambda>_. ''h1'') demo_new)) = Inr ur"
    unfolding s by (simp add: start_prepare_def demo_deps_def require_def governed_of_def demo_quota_def Let_def)
  have q: "demo_quotas (ct_world ?\<sigma>) ''q'' = Some demo_new" "cq_DeletionTimestamp demo_new = None"
    by (simp_all add: demo_quotas_def new_controller_state_def demo_new_def demo_quota_def)
  have i: "cr_Installer demo_reconciler = Some demo_installer" by (simp add: demo_reconciler_def)
  show ?thesis
    using reconciles_reach_enforcement [where quota = demo_quotas and q = demo_new and name = "''q''" and
      reconciler = "\<lambda>_. Inr demo_reconciler" and cluster = "''p''", OF sorted_range inv demo_faultless i refl start q] s by simp
qed
end
