(* ===== verification/Quota_Isolation.thy ===== *)
theory Quota_Isolation
  imports Quota_Reconciler_Properties
begin

text \<open>
  Quotas of one workspace do not disturb each other: once a quota is enforced, the reconciles of the
  others, whatever the API server answers them, leave its limit, its webhook entry, its reference and
  its accounting in place, as long as they govern something else; and one that governs the same thing does
  not.
\<close>

section \<open>Something else\<close>

text \<open>Whatever identity \<open>x\<close> is stamped with, it has another entry, another limit and another accounting set.\<close>

definition apart :: "ConsumptionQuota \<Rightarrow> ConsumptionQuota \<Rightarrow> bool" where
  "apart q x \<longleftrightarrow> (\<forall>st. let x' = x\<lparr>cq_Status := st\<rparr> in
     webhookEntryName (rule_key x') \<noteq> webhookEntryName (rule_key q) \<and> cq_resource x' \<noteq> cq_resource q \<and>
     quota_key x' \<noteq> quota_key q)"

lemma apartD:
  assumes "apart q x" and "cq_Spec y = cq_Spec x"
  shows "webhookEntryName (rule_key y) \<noteq> webhookEntryName (rule_key q)" and "cq_resource y \<noteq> cq_resource q"
    and "quota_key y \<noteq> quota_key q"
proof -
  let ?x = "x\<lparr>cq_Status := cq_Status y\<rparr>"
  have "rule_key y = rule_key ?x" "cq_resource y = cq_resource ?x" "quota_key y = quota_key ?x"
    using assms(2) by (simp_all add: rule_key_def cq_resource_def quota_key_def Let_def)
  then show "webhookEntryName (rule_key y) \<noteq> webhookEntryName (rule_key q)" "cq_resource y \<noteq> cq_resource q"
    "quota_key y \<noteq> quota_key q"
    using assms(1) by (simp_all add: apart_def Let_def)
qed

text \<open>Calls about quotas and exports leave the webhook configuration alone.\<close>

definition cq_frame :: "'w ConsumptionQuotaReconciler \<Rightarrow> ('w \<Rightarrow> VWC option) \<Rightarrow> bool" where
  "cq_frame r stored \<longleftrightarrow>
     (\<forall>n w. stored (snd (qc_Get (cr_Client r) n w)) = stored w) \<and>
     (\<forall>q w. stored (snd (qc_Update (cr_Client r) q w)) = stored w) \<and>
     (\<forall>q w. stored (snd (qc_StatusUpdate (cr_Client r) q w)) = stored w) \<and>
     (\<forall>n w. stored (snd (cr_APIExportReader r n w)) = stored w)"

lemma cq_frame_snd:
  assumes "cq_frame r stored"
  shows "qc_Get (cr_Client r) n w = (a, w') \<Longrightarrow> installed stored w' = installed stored w"
    and "qc_Update (cr_Client r) q w = (b, w') \<Longrightarrow> installed stored w' = installed stored w"
    and "qc_StatusUpdate (cr_Client r) q w = (b, w') \<Longrightarrow> installed stored w' = installed stored w"
    and "cr_APIExportReader r n w = (c, w') \<Longrightarrow> installed stored w' = installed stored w"
  using assms unfolding cq_frame_def installed_def by (metis snd_conv)+

section \<open>Entry and limit\<close>

text \<open>What a reconcile must leave: the entry \<open>n\<close> and the limit of \<open>ref\<close>.\<close>

definition kept ::
  "('w \<Rightarrow> VWC option) \<Rightarrow> string \<Rightarrow> ResourceRef \<Rightarrow> 'w \<Rightarrow> Registry \<Rightarrow> 'w \<Rightarrow> Registry \<Rightarrow> bool" where
  "kept stored n ref w reg w' reg' \<longleftrightarrow>
     get_entry n (installed stored w') = get_entry n (installed stored w) \<and> LimitFor reg' [] ref = LimitFor reg [] ref"

lemma handleDeletion_keeps:
  assumes laws: "vwc_laws (cr_VWC r) stored" "cq_frame r stored"
    and other: "webhookEntryName (rule_key cq) \<noteq> n" "cq_resource cq \<noteq> ref"
    and res: "handleDeletion r cq w reg = (err, w', reg')"
  shows "kept stored n ref w reg w' reg'"
proof -
  let ?rm = "case cr_Installer r of None \<Rightarrow> (None, w) | Some _ \<Rightarrow> Installer_Remove (cr_VWC r) cq w"
  obtain e w1 where rm: "?rm = (e, w1)" by fastforce
  have w1: "get_entry n (installed stored w1) = get_entry n (installed stored w)"
    using rm Installer_Remove_spec [OF laws(1), of cq w e w1] other
    by (auto simp: get_remove simp del: remove_entry_eq split: option.splits)
  show ?thesis
    using res rm w1 other cq_frame_snd(2) [OF laws(2)]
    by (auto simp: handleDeletion_def kept_def Let_def limits.laws split: option.splits if_splits prod.splits sum.splits)
qed

lemma stamp_keeps:
  assumes "cq_frame r stored" and "stamp_identity (cr_Client r) iden cq w = (x, w')"
  shows "installed stored w' = installed stored w"
  using assms cq_frame_snd(3) [OF assms(1)] by (auto simp: stamp_identity_def split: if_splits)

lemma CQ_Reconcile_keeps:
  assumes laws: "vwc_laws (cr_VWC r) stored" "cq_laws (cr_Client r) stored" "cq_frame r stored"
    and other: "\<And>x w'. qc_Get (cr_Client r) name w = (Inr x, w') \<Longrightarrow> apart q x"
    and res: "CQ_Reconcile r name w reg = (out, w', reg')"
  shows "kept stored (webhookEntryName (rule_key q)) (cq_resource q) w reg w' reg'"
    (is "kept stored ?n ?ref _ _ _ _")
proof -
  note fr = cq_frame_snd [OF laws(3)]
  obtain g w1 where get: "qc_Get (cr_Client r) name w = (g, w1)" by fastforce
  note w1 = fr(1) [OF get]
  show ?thesis
  proof (cases g)
    case (Inl e)
    then show ?thesis using res get w1 by (auto simp: CQ_Reconcile_def kept_def)
  next
    case (Inr cq)
    note ap = apartD [OF other [OF get [unfolded Inr]]]
    consider (deleting) "cq_DeletionTimestamp cq \<noteq> None"
      | (unfinalized) "cq_DeletionTimestamp cq = None" "\<not> fl_Contains (cr_Finalizers r) cq webhookFinalizer"
      | (live) "cq_DeletionTimestamp cq = None" "fl_Contains (cr_Finalizers r) cq webhookFinalizer" by blast
    then show ?thesis
    proof cases
      case deleting
      obtain err w2 reg2 where del: "handleDeletion r cq w1 reg = (err, w2, reg2)" by (metis prod.exhaust)
      have "kept stored ?n ?ref w1 reg w2 reg2"
        by (rule handleDeletion_keeps [OF laws(1,3) _ _ del]) (use ap in simp_all)
      then show ?thesis using res get Inr deleting del w1 by (auto simp: CQ_Reconcile_def kept_def)
    next
      case unfinalized
      then show ?thesis using res get Inr w1 fr(2)
        by (auto simp: CQ_Reconcile_def kept_def split: prod.splits sum.splits)
    next
      case live
      obtain x w2 where ex: "cr_APIExportReader r (gr_APIExportName (cs_Governed (cq_Spec cq))) w1 = (x, w2)" by fastforce
      note w2 = fr(4) [OF ex]
      show ?thesis
      proof (cases "\<exists>ex. x = Inr ex \<and> ae_IdentityHash ex \<noteq> []")
        case False
        then show ?thesis using res get Inr live ex w1 w2
          by (cases x) (auto simp: CQ_Reconcile_def kept_def Let_def)
      next
        case True
        then obtain e where e: "x = Inr e" "ae_IdentityHash e \<noteq> []" by blast
        obtain y w3 where st: "stamp_identity (cr_Client r) (ae_IdentityHash e) cq w2 = (y, w3)" by fastforce
        note w3 = stamp_keeps [OF laws(3) st]
        show ?thesis
        proof (cases y)
          case (Inl err)
          then show ?thesis using res get Inr live ex e st w1 w2 w3
            by (auto simp: CQ_Reconcile_def kept_def Let_def)
        next
          case y: (Inr cq3)
          note stamped = stamp_identity_ok [OF laws(2) st [unfolded y]]
          have key: "webhookEntryName (rule_key cq3) \<noteq> ?n" "governed_ref cq3 (ae_IdentityHash e) \<noteq> ?ref"
            using ap [of cq3] stamped by (simp_all add: governed_ref_def cq_resource_def Let_def)
          obtain err w4 where ir: "(case cr_Installer r of None \<Rightarrow> (None, w3) | Some i \<Rightarrow> Installer_Reconcile (cr_VWC r) i cq3 w3) = (err, w4)"
            by fastforce
          have "get_entry ?n (installed stored w4) = get_entry ?n (installed stored w3)"
          proof (cases "cr_Installer r")
            case (Some i)
            have "ct_IdentityHash (cq_Status cq3) \<noteq> []" using stamped e by simp
            moreover have "Installer_Reconcile (cr_VWC r) i cq3 w3 = (err, w4)" using ir Some by simp
            ultimately show ?thesis
              using Installer_Reconcile_spec [OF laws(1), of cq3 i w3 err w4] key(1) by (auto simp: get_upsert)
          qed (use ir in simp)
          moreover have "w' = w4 \<and> reg' = Set_limit (governed_ref cq3 (ae_IdentityHash e)) (cs_DefaultLimit (cq_Spec cq3)) reg"
            using res get Inr live ex e st y ir
            by (auto simp: CQ_Reconcile_def Let_def split: option.splits prod.splits)
          ultimately show ?thesis using w1 w2 w3 key by (simp add: kept_def limits.laws)
        qed
      qed
    qed
  qed
qed

section \<open>Accounting\<close>

definition accounted :: "string \<Rightarrow> string \<Rightarrow> accountingManager \<Rightarrow> bool" where
  "accounted c k a \<longleftrightarrow> refs_inv a \<and> c \<in> refs_of a k \<and> (am_sets a k \<noteq> None \<or> k \<in> am_starting a)"

lemma drop_accounted:
  assumes ord: "enumerates ord" and acc: "accounted c k a" and other: "c' \<noteq> c"
  shows "accounted c k (dropRefLocked ord c' keep a)"
proof -
  have inv: "refs_inv a" using acc by (simp add: accounted_def)
  have mine: "c \<in> refs_of a k" "am_sets a k \<noteq> None \<or> k \<in> am_starting a" using acc by (simp_all add: accounted_def)
  have "\<not> last_ref a c' keep k"
  proof
    assume "last_ref a c' keep k"
    then have "refs_of a k = {c'}" by (simp add: last_ref_def)
    with mine(1) other show False by (metis singletonD)
  qed
  then have "c \<in> refs_of (dropRefLocked ord c' keep a) k"
    and "am_sets (dropRefLocked ord c' keep a) k = am_sets a k" and "am_starting (dropRefLocked ord c' keep a) = am_starting a"
    using mine other by (auto simp add: dropRef_effect(1,3,5) [OF ord inv])
  with mine dropRef_refs_inv [OF ord inv] show ?thesis by (simp add: accounted_def)
qed

lemma accounted_frame:
  assumes "accounted c k a" and "k' \<noteq> k"
  shows "accounted c k (a\<lparr>am_starting := insert k' (am_starting a)\<rparr>)" "accounted c k (a\<lparr>am_starting := am_starting a - {k'}\<rparr>)"
    "accounted c k (snd (register_set k' a))"
  using assms by (simp_all add: accounted_def register_set_def)

lemma Ensure_accounted:
  assumes ord: "enumerates ord" and acc: "accounted c k a"
    and other: "quota_key cq \<noteq> k" "cq_ref pc (cq_Name cq) \<noteq> c"
  shows "accounted c k (snd (Ensure ord (code_start d baseCfg store list_cache) pc cq a))"
proof -
  let ?c = "cq_ref pc (cq_Name cq)" and ?key = "quota_key cq"
  let ?a1 = "add_ref ?key ?c (dropRefLocked ord ?c ?key a)"
  have inv: "refs_inv a" using acc by (simp add: accounted_def)
  have 1: "accounted c k ?a1"
    using drop_accounted [OF ord acc other(2), of ?key] refs_inv_add [OF ord inv, of ?key ?c] other
    by (simp add: accounted_def)
  obtain e a2 where st: "code_start d baseCfg store list_cache pc (governed_of cq) ?key
      (?a1\<lparr>am_starting := insert ?key (am_starting ?a1)\<rparr>) = (e, a2)" by fastforce
  have 2: "accounted c k a2"
    using code_start_effect [OF st] accounted_frame [OF accounted_frame(1) [OF 1 other(1)] other(1)]
      accounted_frame(1) [OF 1 other(1)] by (auto split: if_splits)
  then have "accounted c k (Ensure_exit ord e ?c ?key a2)"
    using accounted_frame(2) [OF 2 other(1)] drop_accounted [OF ord _ other(2)]
    by (simp add: Ensure_exit_def Let_def split: option.split)
  then show ?thesis using 1 st by (auto simp: Ensure_def Ensure_enter_eq Let_def)
qed

section \<open>The closure\<close>

text \<open>What the controller holds for \<open>q\<close>: what makes it enforced, and a sound reference count.\<close>

definition holds ::
  "('w \<Rightarrow> VWC option) \<Rightarrow> WebhookInstaller \<Rightarrow> string \<Rightarrow> ConsumptionQuota \<Rightarrow> 'w controller_state \<Rightarrow> bool" where
  "holds stored i cluster q \<sigma> \<longleftrightarrow> enforced stored i cluster q \<sigma> \<and> refs_inv (ct_acct \<sigma>)"

lemma holds_iff:
  "holds stored i cluster q \<sigma> \<longleftrightarrow> LimitFor (ct_reg \<sigma>) [] (cq_resource q) = Some (cs_DefaultLimit (cq_Spec q)) \<and>
     get_entry (webhookEntryName (rule_key q)) (installed stored (ct_world \<sigma>)) = Some (buildWebhookEntry i (rule_key q)) \<and>
     accounted (cq_ref cluster (cq_Name q)) (quota_key q) (ct_acct \<sigma>)"
  by (auto simp: holds_def enforced_def accounted_def LimitFor_any_cluster [of _ cluster _ "[]"])

lemma holds_kept:
  assumes "holds stored i cluster q \<sigma>"
    and "kept stored (webhookEntryName (rule_key q)) (cq_resource q) (ct_world \<sigma>) (ct_reg \<sigma>) w reg"
    and "accounted (cq_ref cluster (cq_Name q)) (quota_key q) acct"
  shows "holds stored i cluster q (\<sigma>\<lparr>ct_world := w, ct_reg := reg, ct_acct := acct\<rparr>)"
  using assms by (simp add: holds_iff kept_def)

lemma controller_reconcile_holds:
  assumes ord: "enumerates ord" and r: "reconciler cluster = Inr r"
    and laws: "vwc_laws (cr_VWC r) stored" "cq_laws (cr_Client r) stored" "cq_frame r stored"
    and first: "\<And>x w'. qc_Get (cr_Client r) name (ct_world \<sigma>) = (Inr x, w') \<Longrightarrow> apart q x"
    and again: "\<And>x w'. qc_Get (cr_Client r) name (fst (snd (CQ_Reconcile r name (ct_world \<sigma>) (ct_reg \<sigma>)))) = (Inr x, w') \<Longrightarrow>
      cq_Name x = name \<and> apart q x"
    and name: "name \<noteq> cq_Name q" and old: "holds stored i cluster q \<sigma>"
  shows "holds stored i cluster q (snd (controller_reconcile reconciler ord (code_start d baseCfg store lc) cluster name \<sigma>))"
    (is "holds _ _ _ _ (snd ?run)")
proof -
  let ?c = "cq_ref cluster (cq_Name q)" and ?k = "quota_key q"
  have acc: "accounted ?c ?k (ct_acct \<sigma>)" using old by (simp add: holds_iff)
  have differ: "cq_ref cluster name \<noteq> ?c" using name by (simp add: cq_ref_def)
  have removed: "accounted ?c ?k (Remove ord cluster name (ct_acct \<sigma>))"
    unfolding Remove_def by (rule drop_accounted [OF ord acc differ])
  obtain res err w1 reg1 where cq: "CQ_Reconcile r name (ct_world \<sigma>) (ct_reg \<sigma>) = ((res, err), w1, reg1)"
    by (metis prod.exhaust)
  note k1 = CQ_Reconcile_keeps [OF laws first cq]
  have other: "cq_Name x = name \<and> apart q x" if "qc_Get (cr_Client r) name w1 = (Inr x, w')" for x w'
    using again [of x w'] that cq by simp
  have same: "\<sigma>\<lparr>ct_world := w, ct_reg := reg\<rparr> = \<sigma>\<lparr>ct_world := w, ct_reg := reg, ct_acct := ct_acct \<sigma>\<rparr>" for w reg by simp
  show ?thesis
  proof (cases err)
    case (Some e)
    then have "snd ?run = \<sigma>\<lparr>ct_world := w1, ct_reg := reg1\<rparr>" using r cq by (simp add: controller_reconcile_def)
    then show ?thesis using holds_kept [OF old k1 acc] same by simp
  next
    case None
    obtain g w2 where get: "qc_Get (cr_Client r) name w1 = (g, w2)" by fastforce
    have k2: "kept stored (webhookEntryName (rule_key q)) (cq_resource q) (ct_world \<sigma>) (ct_reg \<sigma>) w2 reg1"
      using k1 cq_frame_snd(1) [OF laws(3) get] by (simp add: kept_def)
    note plain = holds_kept [OF old k2 acc] and gone = holds_kept [OF old k2 removed]
    show ?thesis
    proof (cases g)
      case (Inl e)
      then show ?thesis using r cq None get plain gone same by (simp add: controller_reconcile_def)
    next
      case (Inr cq)
      have x: "cq_Name cq = name" "quota_key cq \<noteq> ?k"
        using other [OF get [unfolded Inr]] apartD(3) [of q cq cq] by simp_all
      obtain er a where en: "Ensure ord (code_start d baseCfg store lc) cluster cq (ct_acct \<sigma>) = (er, a)" by fastforce
      have "accounted ?c ?k a"
        using Ensure_accounted [OF ord acc x(2), of cluster d baseCfg store lc] differ x(1) en by simp
      from holds_kept [OF old k2 this] show ?thesis
        using r cq None get Inr plain gone same en \<open>CQ_Reconcile r name (ct_world \<sigma>) (ct_reg \<sigma>) = _\<close>
        by (simp add: controller_reconcile_def)
    qed
  qed
qed

text \<open>Events of other quotas: the world changes, then the closure runs for a name.\<close>

definition controller_events ::
  "(string \<Rightarrow> string \<Rightarrow> 'w controller_state \<Rightarrow> (Result \<times> go_error option) \<times> 'w controller_state) \<Rightarrow> string
     \<Rightarrow> (('w \<Rightarrow> 'w) \<times> string) list \<Rightarrow> 'w controller_state \<Rightarrow> 'w controller_state" where
  "controller_events closure cluster es \<sigma> =
     fold (\<lambda>(change, name) \<sigma>. snd (closure cluster name (\<sigma>\<lparr>ct_world := change (ct_world \<sigma>)\<rparr>))) es \<sigma>"

text \<open>
  C8. Enforcement is stable: once a quota is enforced, any sequence of reconciles of other quotas of its
  workspace leaves it enforced, with its limit, its entry, its reference and its accounting, whatever the
  API server answers and wherever they fail, be the others live, new or being deleted. It is assumed that
  each of the others is apart from it: another name, and, whatever identity it gets, another entry name,
  another resource and another accounting key; and that what changes between the reconciles leaves the
  webhook configuration alone.
\<close>

theorem enforcement_survives_others:
  assumes "enumerates ord" and "reconciler cluster = Inr r"
    and "vwc_laws (cr_VWC r) stored" and "cq_laws (cr_Client r) stored" and "cq_frame r stored"
    and "\<forall>(change, name) \<in> set es. name \<noteq> cq_Name q \<and> (\<forall>w. stored (change w) = stored w) \<and>
      (\<forall>w x w'. qc_Get (cr_Client r) name w = (Inr x, w') \<longrightarrow> cq_Name x = name \<and> apart q x)"
    and "enforced stored i cluster q \<sigma>" and "refs_inv (ct_acct \<sigma>)"
  shows "enforced stored i cluster q
    (controller_events (controller_reconcile reconciler ord (code_start d baseCfg store lc)) cluster es \<sigma>)"
proof -
  have "holds stored i cluster q \<sigma>" using assms(7,8) by (simp add: holds_def)
  with assms(6)
  have "holds stored i cluster q
      (controller_events (controller_reconcile reconciler ord (code_start d baseCfg store lc)) cluster es \<sigma>)"
  proof (induction es arbitrary: \<sigma>)
    case Nil
    then show ?case by (simp add: controller_events_def)
  next
    case (Cons e es)
    obtain change name where e: "e = (change, name)" by fastforce
    have here: "name \<noteq> cq_Name q" "\<And>w. stored (change w) = stored w"
      "\<And>w x w'. qc_Get (cr_Client r) name w = (Inr x, w') \<Longrightarrow> cq_Name x = name \<and> apart q x"
      using Cons.prems(1) e by auto
    have now: "holds stored i cluster q (\<sigma>\<lparr>ct_world := change (ct_world \<sigma>)\<rparr>)"
      using Cons.prems(2) here(2) by (simp add: holds_iff installed_def)
    have step: "holds stored i cluster q (snd (controller_reconcile reconciler ord (code_start d baseCfg store lc) cluster name
        (\<sigma>\<lparr>ct_world := change (ct_world \<sigma>)\<rparr>)))"
      by (rule controller_reconcile_holds [where reconciler = reconciler and cluster = cluster and name = name, OF assms(1-5) _ _ here(1) now]) (use here(3) in blast)+
    have "holds stored i cluster q (controller_events (controller_reconcile reconciler ord (code_start d baseCfg store lc)) cluster es
        (snd (controller_reconcile reconciler ord (code_start d baseCfg store lc) cluster name (\<sigma>\<lparr>ct_world := change (ct_world \<sigma>)\<rparr>))))"
      by (rule Cons.IH [OF _ step]) (use Cons.prems(1) in simp)
    then show ?case by (simp add: controller_events_def e)
  qed
  then show ?thesis by (simp add: holds_def)
qed

text \<open>A workspace whose quotas but \<open>q\<close> govern objects; one is created, reconciled and deleted.\<close>

definition governs_objects :: "ConsumptionQuota \<Rightarrow> bool" where
  "governs_objects x \<longleftrightarrow> gr_Group (cs_Governed (cq_Spec x)) = ''g'' \<and> gr_Resource (cs_Governed (cq_Spec x)) = ''objects''"

definition tidy_reconciler :: "demo_ws ConsumptionQuotaReconciler" where
  "tidy_reconciler = demo_reconciler\<lparr>cr_Client := demo_cq_client\<lparr>qc_Get :=
     (\<lambda>n w. (case fst w of None \<Rightarrow> Inl NotFound
        | Some x \<Rightarrow> if cq_Name x = n \<and> (n = ''q'' \<or> governs_objects x) then Inr x else Inl NotFound, w))\<rparr>\<rparr>"

definition object_quota :: "go_time option \<Rightarrow> ConsumptionQuota" where
  "object_quota deleted = (finalized (demo_quota ''g''))\<lparr>cq_Name := ''p'', cq_DeletionTimestamp := deleted,
     cq_Spec := (cq_Spec (demo_quota ''g''))\<lparr>cs_Governed := (cs_Governed (cq_Spec (demo_quota ''g'')))\<lparr>gr_Resource := ''objects''\<rparr>\<rparr>\<rparr>"

definition tidy_state :: "demo_ws controller_state" where
  "tidy_state = \<lparr>ct_world = (Some (demo_quota ''g''), Some (mutate_vwc (webhookEntryName (rule_key (demo_quota ''g'')))
       (buildWebhookEntry demo_installer (rule_key (demo_quota ''g''))) new_vwc)),
     ct_reg = Set_limit (cq_resource (demo_quota ''g'')) 2 New,
     ct_acct = newAccountingManager\<lparr>am_refs := [quota_key (demo_quota ''g'') \<mapsto> {cq_ref ''c'' ''q''}],
       am_sets := [quota_key (demo_quota ''g'') \<mapsto> 0], am_next := 1\<rparr>\<rparr>"

definition tidy_events :: "((demo_ws \<Rightarrow> demo_ws) \<times> string) list" where
  "tidy_events = [(\<lambda>w. (Some (object_quota None), snd w), ''p''), (\<lambda>w. (Some (object_quota (Some 0)), snd w), ''p'')]"

lemma tidy_laws:
  "vwc_laws (cr_VWC tidy_reconciler) snd" "cq_laws (cr_Client tidy_reconciler) snd" "cq_frame tidy_reconciler snd"
  using demo_ws_laws
  by (simp_all add: tidy_reconciler_def demo_reconciler_def cq_laws_def cq_frame_def demo_cq_client_def demo_exports_def)

lemma tidy_enforced:
  "enforced snd demo_installer ''c'' (demo_quota ''g'') tidy_state" "refs_inv (ct_acct tidy_state)"
proof -
  have "get_entry (webhookEntryName (rule_key (demo_quota ''g''))) (installed snd (ct_world tidy_state)) =
      Some (buildWebhookEntry demo_installer (rule_key (demo_quota ''g'')))"
    by (simp add: tidy_state_def installed_def mutate_vwc_def new_vwc_def)
  moreover have "LimitFor (ct_reg tidy_state) ''c'' (cq_resource (demo_quota ''g'')) = Some 2"
    by (simp add: tidy_state_def limits.laws)
  moreover have "cq_Name (demo_quota ''g'') = ''q''" "cs_DefaultLimit (cq_Spec (demo_quota ''g'')) = 2"
    by (simp_all add: demo_quota_def)
  ultimately show "enforced snd demo_installer ''c'' (demo_quota ''g'') tidy_state"
    unfolding enforced_def by (simp add: tidy_state_def refs_of_def)
  show "refs_inv (ct_acct tidy_state)"
    by (auto simp: tidy_state_def newAccountingManager_def refs_inv_def refs_of_def split: if_splits)
qed

lemma apart_objects:
  assumes "governs_objects x"
  shows "apart (demo_quota ''g'') x"
  using assms
  by (simp add: governs_objects_def apart_def Let_def webhookEntryName_eq rule_key_def cq_resource_def quota_key_def accountingKey_def demo_quota_def)

theorem enforcement_survives_others_witness:
  "enforced snd demo_installer ''c'' (demo_quota ''g'')
    (controller_events (controller_reconcile (\<lambda>_. Inr tidy_reconciler) sorted_range
      (code_start demo_deps \<lparr>cfg_Host = ''h''\<rparr> (undefined :: unit Store) (\<lambda>c g w. (Inr [], w)))) ''c'' tidy_events tidy_state)"
proof -
  have es: "\<forall>(change, name) \<in> set tidy_events. name \<noteq> cq_Name (demo_quota ''g'') \<and> (\<forall>w. snd (change w) = snd w) \<and>
      (\<forall>w x w'. qc_Get (cr_Client tidy_reconciler) name w = (Inr x, w') \<longrightarrow> cq_Name x = name \<and> apart (demo_quota ''g'') x)"
    using apart_objects
    by (auto simp: tidy_events_def tidy_reconciler_def demo_quota_def split: option.splits if_splits)
  show ?thesis
    by (rule enforcement_survives_others [where reconciler = "\<lambda>_. Inr tidy_reconciler", OF sorted_range refl tidy_laws es tidy_enforced])
qed

section \<open>The same thing\<close>

text \<open>
  C34. Deleting one of two quotas that govern the same resource under the same identity ends the
  enforcement of the other, which still exists: from a state in which the other one is enforced, the
  event of the deletion, when it succeeds, removes the entry and the limit both share, so its CREATEs
  are neither intercepted under that name nor limited, while its reference and its accounting stay:
  only the accounting is counted by references.
\<close>

theorem deletion_ends_shared_enforcement:
  assumes ord: "enumerates ord" and r: "reconciler cluster = Inr r" and inst: "cr_Installer r = Some i"
    and laws: "vwc_laws (cr_VWC r) stored" "cq_laws (cr_Client r) stored" "cq_frame r stored"
    and old: "enforced stored i cluster other \<sigma>" "refs_inv (ct_acct \<sigma>)"
    and same: "rule_key other = rule_key cq" and name: "name \<noteq> cq_Name other"
    and got: "qc_Get (cr_Client r) name (ct_world \<sigma>) = (Inr cq, w1)" "cq_DeletionTimestamp cq \<noteq> None"
    and still: "\<forall>x w'. qc_Get (cr_Client r) name (fst (snd (CQ_Reconcile r name (ct_world \<sigma>) (ct_reg \<sigma>)))) = (Inr x, w') \<longrightarrow>
      cq_DeletionTimestamp x \<noteq> None"
    and run: "controller_reconcile reconciler ord startFn cluster name \<sigma> = ((res, None), \<sigma>')"
  shows "\<not> enforced stored i cluster other \<sigma>' \<and>
    get_entry (webhookEntryName (rule_key other)) (installed stored (ct_world \<sigma>')) = None \<and>
    LimitFor (ct_reg \<sigma>') cl (cq_resource other) = None \<and>
    cq_ref cluster (cq_Name other) \<in> refs_of (ct_acct \<sigma>') (quota_key other) \<and>
    (am_sets (ct_acct \<sigma>') (quota_key other) \<noteq> None \<or> quota_key other \<in> am_starting (ct_acct \<sigma>'))"
proof -
  let ?c = "cq_ref cluster (cq_Name other)"
  have res_eq: "cq_resource other = cq_resource cq" using same by (simp add: rule_key_def cq_resource_def Let_def)
  have acc: "accounted ?c (quota_key other) (ct_acct \<sigma>)" using old by (simp add: accounted_def enforced_def)
  obtain err w2 reg2 where del: "handleDeletion r cq w1 (ct_reg \<sigma>) = (err, w2, reg2)" by (metis prod.exhaust)
  have cq: "CQ_Reconcile r name (ct_world \<sigma>) (ct_reg \<sigma>) = ((done_result, err), w2, reg2)"
    using got del by (auto simp: CQ_Reconcile_def)
  have none: "err = None" using run r cq by (cases err) (auto simp: controller_reconcile_def)
  have end_del: "reg2 = Delete_limit (cq_resource cq) (ct_reg \<sigma>)"
    "get_entry (webhookEntryName (rule_key cq)) (installed stored w2) = None"
    using handleDeletion_cases [OF laws(1,2) inst del] none by auto
  obtain g w3 where get: "qc_Get (cr_Client r) name w2 = (g, w3)" by fastforce
  have "cq_DeletionTimestamp x \<noteq> None" if "g = Inr x" for x using still get that cq by simp
  then have \<sigma>': "\<sigma>' = \<sigma>\<lparr>ct_world := w3, ct_reg := reg2, ct_acct := Remove ord cluster name (ct_acct \<sigma>)\<rparr>"
    using run r cq none get by (cases g) (auto simp: controller_reconcile_def split: if_splits)
  have "accounted ?c (quota_key other) (Remove ord cluster name (ct_acct \<sigma>))"
    unfolding Remove_def by (rule drop_accounted [OF ord acc]) (use name in \<open>simp add: cq_ref_def\<close>)
  moreover have "LimitFor (ct_reg \<sigma>') cl' (cq_resource other) = None" for cl'
    by (simp add: \<sigma>' end_del(1) res_eq limits.laws)
  ultimately show ?thesis
    using end_del(2) cq_frame_snd(1) [OF laws(3) get] same by (simp add: \<sigma>' accounted_def enforced_def)
qed

text \<open>The workspace of before, with another quota of the same resource; the first one is deleted.\<close>

definition other_quota :: ConsumptionQuota where
  "other_quota = (demo_quota ''g'')\<lparr>cq_Name := ''other''\<rparr>"

definition shared_state :: "demo_ws controller_state" where
  "shared_state = tidy_state\<lparr>
     ct_world := (Some ((finalized (demo_quota ''g''))\<lparr>cq_DeletionTimestamp := Some 0\<rparr>), snd (ct_world tidy_state)),
     ct_acct := (ct_acct tidy_state)\<lparr>am_refs := [quota_key (demo_quota ''g'') \<mapsto> {cq_ref ''c'' ''q'', cq_ref ''c'' ''other''}]\<rparr>\<rparr>"

lemma tidy_name: "cq_Name (demo_quota ''g'') = ''q''"
  by (simp add: demo_quota_def)

lemma shared_enforced: "enforced snd demo_installer ''c'' other_quota shared_state" "refs_inv (ct_acct shared_state)"
proof -
  have key: "rule_key other_quota = rule_key (demo_quota ''g'')" "quota_key other_quota = quota_key (demo_quota ''g'')"
    "cq_resource other_quota = cq_resource (demo_quota ''g'')" "cq_Name other_quota = ''other''"
    "cs_DefaultLimit (cq_Spec other_quota) = cs_DefaultLimit (cq_Spec (demo_quota ''g''))"
    by (simp_all add: other_quota_def rule_key_def quota_key_def cq_resource_def Let_def)
  have world: "installed snd (ct_world shared_state) = installed snd (ct_world tidy_state)"
    "ct_reg shared_state = ct_reg tidy_state"
    by (simp_all add: shared_state_def installed_def)
  show "enforced snd demo_installer ''c'' other_quota shared_state"
    using tidy_enforced(1) unfolding enforced_def key world
    by (simp add: shared_state_def tidy_state_def refs_of_def tidy_name)
  show "refs_inv (ct_acct shared_state)"
    by (auto simp: shared_state_def tidy_state_def newAccountingManager_def refs_inv_def refs_of_def split: if_splits)
qed

abbreviation shared_run :: "(Result \<times> go_error option) \<times> demo_ws controller_state" where
  "shared_run \<equiv> controller_reconcile (\<lambda>_. Inr demo_reconciler) sorted_range (\<lambda>c g k a. (None, a)) ''c'' ''q'' shared_state"

theorem deletion_ends_shared_enforcement_witness:
  "enforced snd demo_installer ''c'' other_quota shared_state \<and>
   \<not> enforced snd demo_installer ''c'' other_quota (snd shared_run)"
proof -
  let ?cq = "(finalized (demo_quota ''g''))\<lparr>cq_DeletionTimestamp := Some 0\<rparr>"
  have get: "qc_Get (cr_Client demo_reconciler) ''q'' (ct_world shared_state) = (Inr ?cq, ct_world shared_state)"
    using tidy_name by (simp add: demo_reconciler_def demo_cq_client_def shared_state_def)
  let ?del = "CQ_Reconcile demo_reconciler ''q'' (ct_world shared_state) (ct_reg shared_state)"
  have ok: "snd (fst ?del) = None" by code_simp
  have "case fst (qc_Get (cr_Client demo_reconciler) ''q'' (fst (snd ?del))) of
      Inl _ \<Rightarrow> False | Inr x \<Rightarrow> cq_DeletionTimestamp x \<noteq> None" by code_simp
  then obtain x where x: "fst (qc_Get (cr_Client demo_reconciler) ''q'' (fst (snd ?del))) = Inr x" "cq_DeletionTimestamp x \<noteq> None"
    by (auto split: sum.splits)
  define w3 where "w3 = snd (qc_Get (cr_Client demo_reconciler) ''q'' (fst (snd ?del)))"
  have again: "qc_Get (cr_Client demo_reconciler) ''q'' (fst (snd ?del)) = (Inr x, w3)" "cq_DeletionTimestamp x \<noteq> None"
    using x by (simp_all add: w3_def prod_eq_iff)
  obtain res reg2 w2 where del: "?del = ((res, None), w2, reg2)" using ok by (metis prod.collapse)
  have "snd (fst shared_run) = None" using again by (simp add: controller_reconcile_def del)
  then have run: "shared_run = ((fst (fst shared_run), None), snd shared_run)" by (metis prod.collapse)
  have still: "\<forall>x w'. qc_Get (cr_Client demo_reconciler) ''q'' (fst (snd ?del)) = (Inr x, w') \<longrightarrow> cq_DeletionTimestamp x \<noteq> None"
    using again by simp
  have frame: "cq_frame demo_reconciler snd"
    by (simp add: demo_reconciler_def cq_frame_def demo_cq_client_def demo_exports_def)
  have same: "rule_key other_quota = rule_key ?cq" "''q'' \<noteq> cq_Name other_quota" "cq_DeletionTimestamp ?cq \<noteq> None"
    by (simp_all add: other_quota_def rule_key_def Let_def)
  from deletion_ends_shared_enforcement [where reconciler = "\<lambda>_. Inr demo_reconciler" and cluster = "''c''" and name = "''q''",
      OF sorted_range refl demo_reconciler_laws(3) demo_reconciler_laws(1,2) frame shared_enforced same(1,2) get same(3) still run]
    shared_enforced(1)
  show ?thesis by blast
qed

end
