(* ===== verification/Slices.thy ===== *)
theory Slices
  imports Prelude
begin

text \<open>
  Go slices with their backing arrays: a heap of arrays, slices that share them, allocation, and
  \<open>append\<close>, which writes into the shared array while the capacity lasts and moves to a new array
  when it is used up. The programs only reslice from the front (\<open>xs[:0]\<close>), so a slice is an
  array and a length. \<open>None\<close> is the nil slice.
\<close>

section \<open>Heap and slices\<close>

record 'a Heap =
  hp_arr :: "nat \<Rightarrow> 'a list"
  hp_next :: nat

record Slice =
  sl_base :: nat
  sl_len :: nat

type_synonym go_slice = "Slice option"

definition valid_slice :: "'a Heap \<Rightarrow> go_slice \<Rightarrow> bool" where
  "valid_slice h s \<longleftrightarrow>
     (case s of None \<Rightarrow> True | Some x \<Rightarrow> sl_base x < hp_next h \<and> sl_len x \<le> length (hp_arr h (sl_base x)))"

definition elems :: "'a Heap \<Rightarrow> go_slice \<Rightarrow> 'a list" where
  "elems h s = (case s of None \<Rightarrow> [] | Some x \<Rightarrow> take (sl_len x) (hp_arr h (sl_base x)))"

definition alloc :: "'a list \<Rightarrow> 'a Heap \<Rightarrow> nat \<times> 'a Heap" where
  "alloc xs h = (hp_next h, h\<lparr>hp_arr := (hp_arr h)(hp_next h := xs), hp_next := Suc (hp_next h)\<rparr>)"

definition put_at :: "nat \<Rightarrow> nat \<Rightarrow> 'a \<Rightarrow> 'a Heap \<Rightarrow> 'a Heap" where
  "put_at a i x h = h\<lparr>hp_arr := (hp_arr h)(a := (hp_arr h a)[i := x])\<rparr>"

text \<open>\<open>grow n\<close> is the spare room of a new array for \<open>n\<close> elements; the language leaves it open.\<close>

definition append_go :: "(nat \<Rightarrow> nat) \<Rightarrow> 'a \<Rightarrow> go_slice \<Rightarrow> 'a \<Rightarrow> 'a Heap \<Rightarrow> go_slice \<times> 'a Heap" where
  "append_go grow zero s x h =
     (case s of
        Some y \<Rightarrow>
          if sl_len y < length (hp_arr h (sl_base y)) then
            (Some (y\<lparr>sl_len := Suc (sl_len y)\<rparr>), put_at (sl_base y) (sl_len y) x h)
          else
            (case alloc (elems h s @ x # replicate (grow (Suc (sl_len y))) zero) h of
               (a, h') \<Rightarrow> (Some \<lparr>sl_base = a, sl_len = Suc (sl_len y)\<rparr>, h'))
      | None \<Rightarrow>
          (case alloc (x # replicate (grow 1) zero) h of (a, h') \<Rightarrow> (Some \<lparr>sl_base = a, sl_len = 1\<rparr>, h')))"

section \<open>What stays\<close>

text \<open>\<open>keeps h h'\<close>: every array that was allocated in \<open>h\<close> still has its content.\<close>

definition keeps :: "'a Heap \<Rightarrow> 'a Heap \<Rightarrow> bool" where
  "keeps h h' \<longleftrightarrow> hp_next h \<le> hp_next h' \<and> (\<forall>a < hp_next h. hp_arr h' a = hp_arr h a)"

lemma keeps_refl [simp]: "keeps h h"
  by (simp add: keeps_def)

lemma keeps_trans: "keeps h h' \<Longrightarrow> keeps h' h'' \<Longrightarrow> keeps h h''"
  by (fastforce simp: keeps_def)

lemma keeps_elems: "keeps h h' \<Longrightarrow> valid_slice h s \<Longrightarrow> elems h' s = elems h s"
  by (auto simp: keeps_def valid_slice_def elems_def split: option.splits)

lemma keeps_valid: "keeps h h' \<Longrightarrow> valid_slice h s \<Longrightarrow> valid_slice h' s"
  by (auto simp: keeps_def valid_slice_def split: option.splits)

lemma keeps_alloc: "alloc xs h = (a, h') \<Longrightarrow> keeps h h' \<and> a = hp_next h \<and> hp_arr h' a = xs \<and> hp_next h' = Suc a"
  by (auto simp: alloc_def keeps_def)

text \<open>A write into an array that is newer than \<open>h\<close> keeps \<open>h\<close>.\<close>

lemma keeps_put: "keeps h h' \<Longrightarrow> hp_next h \<le> a \<Longrightarrow> keeps h (put_at a i x h')"
  by (auto simp: keeps_def put_at_def)

text \<open>Appending to a slice whose array is newer than \<open>h\<close> adds the element and keeps \<open>h\<close>.\<close>

lemma append_go_spec:
  assumes "append_go grow zero s x h1 = (s', h2)" and "keeps h h1" and "valid_slice h1 s"
    and "case s of None \<Rightarrow> True | Some y \<Rightarrow> hp_next h \<le> sl_base y"
  shows "elems h2 s' = elems h1 s @ [x] \<and> valid_slice h2 s' \<and> keeps h h2"
proof (cases s)
  case None
  obtain a h' where al: "alloc (x # replicate (grow 1) zero) h1 = (a, h')" by fastforce
  with keeps_alloc [OF al] None assms(1,2) keeps_trans show ?thesis
    by (auto simp: append_go_def elems_def valid_slice_def)
next
  case (Some y)
  show ?thesis
  proof (cases "sl_len y < length (hp_arr h1 (sl_base y))")
    case True
    then have "s' = Some (y\<lparr>sl_len := Suc (sl_len y)\<rparr>)" "h2 = put_at (sl_base y) (sl_len y) x h1"
      using assms(1) Some by (auto simp: append_go_def)
    moreover have "hp_next h \<le> sl_base y" using assms(4) Some by simp
    ultimately show ?thesis
      using assms(2,3) True Some keeps_put [OF assms(2)]
      by (auto simp: elems_def valid_slice_def put_at_def take_Suc_conv_app_nth)
  next
    case False
    obtain a h' where al: "alloc (elems h1 s @ x # replicate (grow (Suc (sl_len y))) zero) h1 = (a, h')" by fastforce
    have full: "length (elems h1 s) = sl_len y"
      using False assms(3) Some by (simp add: elems_def valid_slice_def)
    have "s' = Some \<lparr>sl_base = a, sl_len = Suc (sl_len y)\<rparr>" "h2 = h'"
      using assms(1) False al Some by (auto simp: append_go_def)
    with keeps_alloc [OF al] keeps_trans [OF assms(2)] full show ?thesis
      by (auto simp: elems_def [of h'] valid_slice_def)
  qed
qed

section \<open>The in-place filter\<close>

text \<open>\<open>for _, r := range xs { if keep(r) { kept = append(kept, r) } }\<close> over the array \<open>a\<close> of \<open>xs\<close>.\<close>

function filter_loop ::
  "(nat \<Rightarrow> nat) \<Rightarrow> 'a \<Rightarrow> ('a \<Rightarrow> bool) \<Rightarrow> nat \<Rightarrow> nat \<Rightarrow> nat \<Rightarrow> go_slice \<Rightarrow> 'a Heap \<Rightarrow> go_slice \<times> 'a Heap" where
  "filter_loop grow zero keep a n i kept h =
     (if i < n then
        (let r = hp_arr h a ! i in
         if keep r then
           (case append_go grow zero kept r h of (kept', h') \<Rightarrow> filter_loop grow zero keep a n (Suc i) kept' h')
         else filter_loop grow zero keep a n (Suc i) kept h)
      else (kept, h))"
  by pat_completeness auto
termination
  by (relation "measure (\<lambda>(grow, zero, keep, a, n, i, kept, h). n - i)") auto

declare filter_loop.simps [simp del]

text \<open>
  With \<open>kept\<close> in the array that is being read, every \<open>append\<close> stays in place, and the loop on the
  heap is the loop on the array alone.
\<close>

lemma filter_loop_compact:
  assumes "k \<le> i" and "i \<le> n" and "n = length (hp_arr h a)"
  shows "\<exists>k' h'. filter_loop grow zero keep a n i (Some \<lparr>sl_base = a, sl_len = k\<rparr>) h = (Some \<lparr>sl_base = a, sl_len = k'\<rparr>, h') \<and>
    take k' (hp_arr h' a) = compact_loop keep (hp_arr h a) n i k \<and> k' \<le> length (hp_arr h' a) \<and>
    hp_next h' = hp_next h \<and> (\<forall>b. b \<noteq> a \<longrightarrow> hp_arr h' b = hp_arr h b)"
  using assms
proof (induction "n - i" arbitrary: i k h)
  case 0
  then show ?case by (subst filter_loop.simps, subst compact_loop.simps) (auto intro: exI [of _ k])
next
  case (Suc m)
  then have i: "i < n" "m = n - Suc i" by simp_all
  let ?r = "hp_arr h a ! i"
  show ?case
  proof (cases "keep ?r")
    case True
    let ?h = "put_at a k ?r h"
    have "append_go grow zero (Some \<lparr>sl_base = a, sl_len = k\<rparr>) ?r h = (Some \<lparr>sl_base = a, sl_len = Suc k\<rparr>, ?h)"
      using Suc.prems i by (simp add: append_go_def)
    then have step: "filter_loop grow zero keep a n i (Some \<lparr>sl_base = a, sl_len = k\<rparr>) h =
        filter_loop grow zero keep a n (Suc i) (Some \<lparr>sl_base = a, sl_len = Suc k\<rparr>) ?h"
      using i True by (subst filter_loop.simps) (simp add: Let_def)
    have arr: "hp_arr ?h a = (hp_arr h a)[k := ?r]" by (simp add: put_at_def)
    have "compact_loop keep (hp_arr h a) n i k = compact_loop keep (hp_arr ?h a) n (Suc i) (Suc k)"
      using i True by (subst compact_loop.simps) (simp add: Let_def arr)
    with Suc.hyps(1) [OF i(2), of "Suc k" ?h] Suc.prems i(1) step show ?thesis by (auto simp: put_at_def)
  next
    case False
    then have step: "filter_loop grow zero keep a n i (Some \<lparr>sl_base = a, sl_len = k\<rparr>) h =
        filter_loop grow zero keep a n (Suc i) (Some \<lparr>sl_base = a, sl_len = k\<rparr>) h"
      using i by (subst filter_loop.simps) (simp add: Let_def)
    have "compact_loop keep (hp_arr h a) n i k = compact_loop keep (hp_arr h a) n (Suc i) k"
      using i False by (subst compact_loop.simps) (simp add: Let_def)
    with Suc.hyps(1) [OF i(2), of k h] Suc.prems i(1) step show ?thesis by auto
  qed
qed

end
