(* ===== verification/Deep_Copy.thy ===== *)
theory Deep_Copy
  imports Slices Api
begin

text \<open>
  The generated deep copies of \<open>api/v1alpha1/zz_generated.deepcopy.go\<close> on memory: a Go variable is
  a cell of an array, a pointer names an array and an index, a slice an array and a length, and
  \<open>new\<close> and \<open>make\<close> allocate an array of zero values. The structs here keep their pointers and slices
  (\<open>Api\<close> has the same types as plain values). A \<open>DeepCopyInto\<close> is given the value of the receiver and
  answers the value it leaves in \<open>*out\<close>, which is memory of its own in every call of this file.
  The copies of \<open>ObjectMeta\<close>, \<open>ListMeta\<close>, \<open>Condition\<close> and \<open>Time\<close> are library code and arguments.
\<close>

section \<open>The types as they are in memory\<close>

type_synonym go_ptr = "(nat \<times> nat) option"

record TypeMeta =
  tm_Kind :: string
  tm_APIVersion :: string

record go_ConsumptionQuotaSpec =
  gs_Governed :: GovernedResource
  gs_By :: string
  gs_DefaultLimit :: int32
  gs_AutoApproveCeiling :: go_ptr

record go_ConsumptionQuotaStatus =
  gt_IdentityHash :: string
  gt_Conditions :: go_slice

record 'm go_ConsumptionQuota =
  gq_TypeMeta :: TypeMeta
  gq_ObjectMeta :: 'm
  gq_Spec :: go_ConsumptionQuotaSpec
  gq_Status :: go_ConsumptionQuotaStatus

record go_QuotaUsageStatus =
  gu_Confirmed :: int32
  gu_Reservations :: go_slice

record 'm go_QuotaUsage =
  gu_TypeMeta :: TypeMeta
  gu_ObjectMeta :: 'm
  gu_Spec :: QuotaUsageSpec
  gu_Status :: go_QuotaUsageStatus

text \<open>\<open>ConsumptionQuotaList\<close> and \<open>QuotaUsageList\<close> have the same fields; the element type of the array differs.\<close>

record 'l go_List =
  gl_TypeMeta :: TypeMeta
  gl_ListMeta :: 'l
  gl_Items :: go_slice

text \<open>One constructor for each type a variable can have; \<open>C_foreign\<close> is the memory of library values.\<close>

datatype ('m, 'l, 'c, 'o) cell =
    C_int32 int32
  | C_condition 'c
  | C_reservation Reservation
  | C_governed GovernedResource
  | C_spec go_ConsumptionQuotaSpec
  | C_status go_ConsumptionQuotaStatus
  | C_quota "'m go_ConsumptionQuota"
  | C_quota_list "'l go_List"
  | C_usage_spec QuotaUsageSpec
  | C_usage_status go_QuotaUsageStatus
  | C_usage "'m go_QuotaUsage"
  | C_usage_list "'l go_List"
  | C_foreign 'o

text \<open>How a type sits in a cell: the constructor, the reading of a cell, and the zero value.\<close>

record ('x, 'b) kind =
  kd_put :: "'x \<Rightarrow> 'b"
  kd_get :: "'b \<Rightarrow> 'x option"
  kd_zero :: 'x

definition good_kind :: "('x, 'b) kind \<Rightarrow> bool" where
  "good_kind k \<longleftrightarrow> (\<forall>x. kd_get k (kd_put k x) = Some x)"

type_synonym ('x, 'b) copier = "'x \<Rightarrow> 'b Heap \<Rightarrow> 'x \<times> 'b Heap"

text \<open>The library's copies and zero values.\<close>

record ('m, 'l, 'c, 'b) library =
  lb_meta :: "('m, 'b) copier"
  lb_listmeta :: "('l, 'b) copier"
  lb_condition :: "('c, 'b) copier"
  lb_time :: "go_time \<Rightarrow> go_time"
  lb_zero_meta :: 'm
  lb_zero_listmeta :: 'l
  lb_zero_condition :: 'c

type_synonym ('m, 'l, 'c, 'o) mem = "('m, 'l, 'c, 'o) cell Heap"

type_synonym ('m, 'l, 'c, 'o) lib = "('m, 'l, 'c, ('m, 'l, 'c, 'o) cell) library"

section \<open>The kinds\<close>

definition K_int32 :: "(int32, ('m, 'l, 'c, 'o) cell) kind" where
  "K_int32 = \<lparr>kd_put = C_int32, kd_get = (\<lambda>b. case b of C_int32 x \<Rightarrow> Some x | _ \<Rightarrow> None), kd_zero = 0\<rparr>"

definition K_condition :: "'c \<Rightarrow> ('c, ('m, 'l, 'c, 'o) cell) kind" where
  "K_condition z = \<lparr>kd_put = C_condition, kd_get = (\<lambda>b. case b of C_condition x \<Rightarrow> Some x | _ \<Rightarrow> None), kd_zero = z\<rparr>"

definition K_reservation :: "(Reservation, ('m, 'l, 'c, 'o) cell) kind" where
  "K_reservation = \<lparr>kd_put = C_reservation, kd_get = (\<lambda>b. case b of C_reservation x \<Rightarrow> Some x | _ \<Rightarrow> None),
     kd_zero = zero_Reservation\<rparr>"

definition K_governed :: "(GovernedResource, ('m, 'l, 'c, 'o) cell) kind" where
  "K_governed = \<lparr>kd_put = C_governed, kd_get = (\<lambda>b. case b of C_governed x \<Rightarrow> Some x | _ \<Rightarrow> None),
     kd_zero = \<lparr>gr_APIExportName = [], gr_Group = [], gr_Version = [], gr_Resource = []\<rparr>\<rparr>"

definition K_spec :: "(go_ConsumptionQuotaSpec, ('m, 'l, 'c, 'o) cell) kind" where
  "K_spec = \<lparr>kd_put = C_spec, kd_get = (\<lambda>b. case b of C_spec x \<Rightarrow> Some x | _ \<Rightarrow> None),
     kd_zero = \<lparr>gs_Governed = kd_zero (K_governed :: (GovernedResource, (unit, unit, unit, unit) cell) kind),
       gs_By = [], gs_DefaultLimit = 0, gs_AutoApproveCeiling = None\<rparr>\<rparr>"

definition K_status :: "(go_ConsumptionQuotaStatus, ('m, 'l, 'c, 'o) cell) kind" where
  "K_status = \<lparr>kd_put = C_status, kd_get = (\<lambda>b. case b of C_status x \<Rightarrow> Some x | _ \<Rightarrow> None),
     kd_zero = \<lparr>gt_IdentityHash = [], gt_Conditions = None\<rparr>\<rparr>"

definition K_quota :: "'m \<Rightarrow> ('m go_ConsumptionQuota, ('m, 'l, 'c, 'o) cell) kind" where
  "K_quota z = \<lparr>kd_put = C_quota, kd_get = (\<lambda>b. case b of C_quota x \<Rightarrow> Some x | _ \<Rightarrow> None),
     kd_zero = \<lparr>gq_TypeMeta = \<lparr>tm_Kind = [], tm_APIVersion = []\<rparr>, gq_ObjectMeta = z,
       gq_Spec = kd_zero (K_spec :: (_, (unit, unit, unit, unit) cell) kind),
       gq_Status = kd_zero (K_status :: (_, (unit, unit, unit, unit) cell) kind)\<rparr>\<rparr>"

definition K_quota_list :: "'l \<Rightarrow> ('l go_List, ('m, 'l, 'c, 'o) cell) kind" where
  "K_quota_list z = \<lparr>kd_put = C_quota_list, kd_get = (\<lambda>b. case b of C_quota_list x \<Rightarrow> Some x | _ \<Rightarrow> None),
     kd_zero = \<lparr>gl_TypeMeta = \<lparr>tm_Kind = [], tm_APIVersion = []\<rparr>, gl_ListMeta = z, gl_Items = None\<rparr>\<rparr>"

definition K_usage_spec :: "(QuotaUsageSpec, ('m, 'l, 'c, 'o) cell) kind" where
  "K_usage_spec = \<lparr>kd_put = C_usage_spec, kd_get = (\<lambda>b. case b of C_usage_spec x \<Rightarrow> Some x | _ \<Rightarrow> None),
     kd_zero = \<lparr>us_Consumer = [], us_Group = [], us_Resource = [], us_IdentityHash = []\<rparr>\<rparr>"

definition K_usage_status :: "(go_QuotaUsageStatus, ('m, 'l, 'c, 'o) cell) kind" where
  "K_usage_status = \<lparr>kd_put = C_usage_status, kd_get = (\<lambda>b. case b of C_usage_status x \<Rightarrow> Some x | _ \<Rightarrow> None),
     kd_zero = \<lparr>gu_Confirmed = 0, gu_Reservations = None\<rparr>\<rparr>"

definition K_usage :: "'m \<Rightarrow> ('m go_QuotaUsage, ('m, 'l, 'c, 'o) cell) kind" where
  "K_usage z = \<lparr>kd_put = C_usage, kd_get = (\<lambda>b. case b of C_usage x \<Rightarrow> Some x | _ \<Rightarrow> None),
     kd_zero = \<lparr>gu_TypeMeta = \<lparr>tm_Kind = [], tm_APIVersion = []\<rparr>, gu_ObjectMeta = z,
       gu_Spec = kd_zero (K_usage_spec :: (_, (unit, unit, unit, unit) cell) kind),
       gu_Status = kd_zero (K_usage_status :: (_, (unit, unit, unit, unit) cell) kind)\<rparr>\<rparr>"

definition K_usage_list :: "'l \<Rightarrow> ('l go_List, ('m, 'l, 'c, 'o) cell) kind" where
  "K_usage_list z = \<lparr>kd_put = C_usage_list, kd_get = (\<lambda>b. case b of C_usage_list x \<Rightarrow> Some x | _ \<Rightarrow> None),
     kd_zero = \<lparr>gl_TypeMeta = \<lparr>tm_Kind = [], tm_APIVersion = []\<rparr>, gl_ListMeta = z, gl_Items = None\<rparr>\<rparr>"

lemmas kinds = K_int32_def K_condition_def K_reservation_def K_governed_def K_spec_def K_status_def
  K_quota_def K_quota_list_def K_usage_spec_def K_usage_status_def K_usage_def K_usage_list_def

lemma good_kinds [simp]:
  "good_kind K_int32" "good_kind (K_condition zc)" "good_kind K_reservation" "good_kind K_governed"
  "good_kind K_spec" "good_kind K_status" "good_kind (K_quota zm)" "good_kind (K_quota_list zl)"
  "good_kind K_usage_spec" "good_kind K_usage_status" "good_kind (K_usage zm)" "good_kind (K_usage_list zl)"
  by (simp_all add: good_kind_def kinds)

section \<open>Copying pointers and slices\<close>

text \<open>\<open>*p\<close>, a read of the variable a pointer names.\<close>

definition deref :: "('x, 'b) kind \<Rightarrow> 'b Heap \<Rightarrow> nat \<times> nat \<Rightarrow> 'x option" where
  "deref k h p =
     (if fst p < hp_next h \<and> snd p < length (hp_arr h (fst p)) then kd_get k (hp_arr h (fst p) ! snd p) else None)"

text \<open>
  \<open>for i := range *in { (*in)[i].DeepCopyInto(&(*out)[i]) }\<close> from index \<open>i\<close> on, with \<open>n\<close> elements
  to go. A cell of another type cannot be there in a Go program.
\<close>

fun copy_items :: "('x, 'b) kind \<Rightarrow> ('x, 'b) copier \<Rightarrow> nat \<Rightarrow> nat \<Rightarrow> nat \<Rightarrow> nat \<Rightarrow> 'b Heap \<Rightarrow> 'b Heap" where
  "copy_items k into a b i 0 h = h"
| "copy_items k into a b i (Suc n) h =
     (case kd_get k (hp_arr h a ! i) of
        None \<Rightarrow> h
      | Some x \<Rightarrow> (case into x h of (y, h1) \<Rightarrow> copy_items k into a b (Suc i) n (put_at b i (kd_put k y) h1)))"

text \<open>\<open>if in.Items != nil { *out = make([]T, len(*in)); for ... }\<close>; a nil slice stays nil.\<close>

definition copy_slice :: "('x, 'b) kind \<Rightarrow> ('x, 'b) copier \<Rightarrow> go_slice \<Rightarrow> 'b Heap \<Rightarrow> go_slice \<times> 'b Heap" where
  "copy_slice k into s h =
     (case s of
        None \<Rightarrow> (None, h)
      | Some x \<Rightarrow>
          (case alloc (replicate (sl_len x) (kd_put k (kd_zero k))) h of
             (b, h1) \<Rightarrow> (Some \<lparr>sl_base = b, sl_len = sl_len x\<rparr>, copy_items k into (sl_base x) b 0 (sl_len x) h1)))"

text \<open>
  \<open>if in == nil { return nil }; out := new(T); in.DeepCopyInto(out); return out\<close>, the body of every
  \<open>DeepCopy\<close>.
\<close>

definition copy_new :: "('x, 'b) kind \<Rightarrow> ('x, 'b) copier \<Rightarrow> go_ptr \<Rightarrow> 'b Heap \<Rightarrow> go_ptr \<times> 'b Heap" where
  "copy_new k into inp h =
     (case inp of
        None \<Rightarrow> (None, h)
      | Some p \<Rightarrow>
          (case alloc [kd_put k (kd_zero k)] h of
             (b, h1) \<Rightarrow>
               (case deref k h1 p of
                  None \<Rightarrow> (Some (b, 0), h1)
                | Some x \<Rightarrow> (case into x h1 of (y, h2) \<Rightarrow> (Some (b, 0), put_at b 0 (kd_put k y) h2)))))"

section \<open>The generated functions\<close>

definition DeepCopyInto_GovernedResource :: "(GovernedResource, 'b) copier" where
  "DeepCopyInto_GovernedResource inp h = (inp, h)"

definition DeepCopyInto_ConsumptionQuotaSpec :: "(go_ConsumptionQuotaSpec, ('m, 'l, 'c, 'o) cell) copier" where
  "DeepCopyInto_ConsumptionQuotaSpec inp h =
     (let out = inp; out = out\<lparr>gs_Governed := gs_Governed inp\<rparr> in
      case gs_AutoApproveCeiling inp of
        None \<Rightarrow> (out, h)
      | Some p \<Rightarrow>
          (case alloc [C_int32 0] h of
             (b, h1) \<Rightarrow>
               (out\<lparr>gs_AutoApproveCeiling := Some (b, 0)\<rparr>,
                case deref K_int32 h1 p of None \<Rightarrow> h1 | Some v \<Rightarrow> put_at b 0 (C_int32 v) h1)))"

definition DeepCopyInto_ConsumptionQuotaStatus ::
  "('m, 'l, 'c, 'o) lib \<Rightarrow> (go_ConsumptionQuotaStatus, ('m, 'l, 'c, 'o) cell) copier" where
  "DeepCopyInto_ConsumptionQuotaStatus L inp h =
     (let out = inp in
      case copy_slice (K_condition (lb_zero_condition L)) (lb_condition L) (gt_Conditions inp) h of
        (cs, h1) \<Rightarrow> (out\<lparr>gt_Conditions := cs\<rparr>, h1))"

definition DeepCopyInto_ConsumptionQuota ::
  "('m, 'l, 'c, 'o) lib \<Rightarrow> ('m go_ConsumptionQuota, ('m, 'l, 'c, 'o) cell) copier" where
  "DeepCopyInto_ConsumptionQuota L inp h =
     (let out = inp; out = out\<lparr>gq_TypeMeta := gq_TypeMeta inp\<rparr> in
      case lb_meta L (gq_ObjectMeta inp) h of (m, h1) \<Rightarrow>
      case DeepCopyInto_ConsumptionQuotaSpec (gq_Spec inp) h1 of (sp, h2) \<Rightarrow>
      case DeepCopyInto_ConsumptionQuotaStatus L (gq_Status inp) h2 of (st, h3) \<Rightarrow>
        (out\<lparr>gq_ObjectMeta := m, gq_Spec := sp, gq_Status := st\<rparr>, h3))"

definition DeepCopyInto_ConsumptionQuotaList ::
  "('m, 'l, 'c, 'o) lib \<Rightarrow> ('l go_List, ('m, 'l, 'c, 'o) cell) copier" where
  "DeepCopyInto_ConsumptionQuotaList L inp h =
     (let out = inp; out = out\<lparr>gl_TypeMeta := gl_TypeMeta inp\<rparr> in
      case lb_listmeta L (gl_ListMeta inp) h of (lm, h1) \<Rightarrow>
      case copy_slice (K_quota (lb_zero_meta L)) (DeepCopyInto_ConsumptionQuota L) (gl_Items inp) h1 of (items, h2) \<Rightarrow>
        (out\<lparr>gl_ListMeta := lm, gl_Items := items\<rparr>, h2))"

definition DeepCopyInto_QuotaUsageSpec :: "(QuotaUsageSpec, 'b) copier" where
  "DeepCopyInto_QuotaUsageSpec inp h = (inp, h)"

definition DeepCopyInto_Reservation :: "('m, 'l, 'c, 'b) library \<Rightarrow> (Reservation, 'b) copier" where
  "DeepCopyInto_Reservation L inp h = (let out = inp in (out\<lparr>ExpiresAt := lb_time L (ExpiresAt inp)\<rparr>, h))"

definition DeepCopyInto_QuotaUsageStatus ::
  "('m, 'l, 'c, 'o) lib \<Rightarrow> (go_QuotaUsageStatus, ('m, 'l, 'c, 'o) cell) copier" where
  "DeepCopyInto_QuotaUsageStatus L inp h =
     (let out = inp in
      case copy_slice K_reservation (DeepCopyInto_Reservation L) (gu_Reservations inp) h of
        (rs, h1) \<Rightarrow> (out\<lparr>gu_Reservations := rs\<rparr>, h1))"

definition DeepCopyInto_QuotaUsage ::
  "('m, 'l, 'c, 'o) lib \<Rightarrow> ('m go_QuotaUsage, ('m, 'l, 'c, 'o) cell) copier" where
  "DeepCopyInto_QuotaUsage L inp h =
     (let out = inp; out = out\<lparr>gu_TypeMeta := gu_TypeMeta inp\<rparr> in
      case lb_meta L (gu_ObjectMeta inp) h of (m, h1) \<Rightarrow>
      let out = out\<lparr>gu_ObjectMeta := m, gu_Spec := gu_Spec inp\<rparr> in
      case DeepCopyInto_QuotaUsageStatus L (gu_Status inp) h1 of (st, h2) \<Rightarrow> (out\<lparr>gu_Status := st\<rparr>, h2))"

definition DeepCopyInto_QuotaUsageList ::
  "('m, 'l, 'c, 'o) lib \<Rightarrow> ('l go_List, ('m, 'l, 'c, 'o) cell) copier" where
  "DeepCopyInto_QuotaUsageList L inp h =
     (let out = inp; out = out\<lparr>gl_TypeMeta := gl_TypeMeta inp\<rparr> in
      case lb_listmeta L (gl_ListMeta inp) h of (lm, h1) \<Rightarrow>
      case copy_slice (K_usage (lb_zero_meta L)) (DeepCopyInto_QuotaUsage L) (gl_Items inp) h1 of (items, h2) \<Rightarrow>
        (out\<lparr>gl_ListMeta := lm, gl_Items := items\<rparr>, h2))"

definition DeepCopy_ConsumptionQuota where
  "DeepCopy_ConsumptionQuota L = copy_new (K_quota (lb_zero_meta L)) (DeepCopyInto_ConsumptionQuota L)"

definition DeepCopy_ConsumptionQuotaList where
  "DeepCopy_ConsumptionQuotaList L = copy_new (K_quota_list (lb_zero_listmeta L)) (DeepCopyInto_ConsumptionQuotaList L)"

definition DeepCopy_ConsumptionQuotaSpec :: "go_ptr \<Rightarrow> ('m, 'l, 'c, 'o) mem \<Rightarrow> go_ptr \<times> ('m, 'l, 'c, 'o) mem" where
  "DeepCopy_ConsumptionQuotaSpec = copy_new K_spec DeepCopyInto_ConsumptionQuotaSpec"

definition DeepCopy_ConsumptionQuotaStatus where
  "DeepCopy_ConsumptionQuotaStatus L = copy_new K_status (DeepCopyInto_ConsumptionQuotaStatus L)"

definition DeepCopy_GovernedResource :: "go_ptr \<Rightarrow> ('m, 'l, 'c, 'o) mem \<Rightarrow> go_ptr \<times> ('m, 'l, 'c, 'o) mem" where
  "DeepCopy_GovernedResource = copy_new K_governed DeepCopyInto_GovernedResource"

definition DeepCopy_QuotaUsage where
  "DeepCopy_QuotaUsage L = copy_new (K_usage (lb_zero_meta L)) (DeepCopyInto_QuotaUsage L)"

definition DeepCopy_QuotaUsageList where
  "DeepCopy_QuotaUsageList L = copy_new (K_usage_list (lb_zero_listmeta L)) (DeepCopyInto_QuotaUsageList L)"

definition DeepCopy_QuotaUsageSpec :: "go_ptr \<Rightarrow> ('m, 'l, 'c, 'o) mem \<Rightarrow> go_ptr \<times> ('m, 'l, 'c, 'o) mem" where
  "DeepCopy_QuotaUsageSpec = copy_new K_usage_spec DeepCopyInto_QuotaUsageSpec"

definition DeepCopy_QuotaUsageStatus where
  "DeepCopy_QuotaUsageStatus L = copy_new K_usage_status (DeepCopyInto_QuotaUsageStatus L)"

definition DeepCopy_Reservation ::
  "('m, 'l, 'c, 'o) lib \<Rightarrow> go_ptr \<Rightarrow> ('m, 'l, 'c, 'o) mem \<Rightarrow> go_ptr \<times> ('m, 'l, 'c, 'o) mem" where
  "DeepCopy_Reservation L = copy_new K_reservation (DeepCopyInto_Reservation L)"

text \<open>
  A \<open>runtime.Object\<close> holds a pointer with its type. The nil interface is \<open>Nil_object\<close>; an interface that
  holds a nil pointer is another value, and \<open>DeepCopyObject\<close> must not return it.
\<close>

datatype go_type = T_ConsumptionQuota | T_ConsumptionQuotaList | T_QuotaUsage | T_QuotaUsageList

datatype runtime_Object = Nil_object | An_object go_type go_ptr

definition copy_object :: "go_type \<Rightarrow> (go_ptr \<Rightarrow> 'b Heap \<Rightarrow> go_ptr \<times> 'b Heap) \<Rightarrow> go_ptr \<Rightarrow> 'b Heap \<Rightarrow> runtime_Object \<times> 'b Heap" where
  "copy_object t DeepCopy inp h = (case DeepCopy inp h of (c, h1) \<Rightarrow> (if c \<noteq> None then An_object t c else Nil_object, h1))"

definition DeepCopyObject_ConsumptionQuota where
  "DeepCopyObject_ConsumptionQuota L = copy_object T_ConsumptionQuota (DeepCopy_ConsumptionQuota L)"

definition DeepCopyObject_ConsumptionQuotaList where
  "DeepCopyObject_ConsumptionQuotaList L = copy_object T_ConsumptionQuotaList (DeepCopy_ConsumptionQuotaList L)"

definition DeepCopyObject_QuotaUsage where
  "DeepCopyObject_QuotaUsage L = copy_object T_QuotaUsage (DeepCopy_QuotaUsage L)"

definition DeepCopyObject_QuotaUsageList where
  "DeepCopyObject_QuotaUsageList L = copy_object T_QuotaUsageList (DeepCopy_QuotaUsageList L)"

end
