(* ===== verification/Startup.thy ===== *)
theory Startup
  imports Kcp Deep_Copy Watcher
begin

text \<open>
  The start of the two programs (\<open>main\<close> of \<open>cmd/controller/main.go\<close> and \<open>cmd/webhook/main.go\<close>): the
  flags with their defaults, the registration of the types (\<open>init\<close>, and that of \<open>api/v1alpha1\<close>), the
  checks, look-ups and constructions in their order, and the run of the manager; the first failure is
  logged and exits with status one. What the libraries build is an argument.
\<close>

section \<open>Types and schemes\<close>

record GroupVersion =
  gvn_Group :: string
  gvn_Version :: string

definition api_GroupVersion :: GroupVersion where
  "api_GroupVersion = \<lparr>gvn_Group = ''quota.opendefense.cloud'', gvn_Version = ''v1alpha1''\<rparr>"

text \<open>
  \<open>scheme.Builder\<close> of controller-runtime, as an argument: a new builder, \<open>Register\<close> and \<open>AddToScheme\<close>. The
  \<open>init\<close> functions of a package run in the order of their files.
\<close>

record ('b, 's) scheme_builder =
  sb_Builder :: "GroupVersion \<Rightarrow> 'b"
  sb_Register :: "'b \<Rightarrow> go_type list \<Rightarrow> 'b"
  sb_AddToScheme :: "'b \<Rightarrow> 's \<Rightarrow> go_error + 's"

definition init_consumptionquota :: "('b, 's) scheme_builder \<Rightarrow> 'b \<Rightarrow> 'b" where
  "init_consumptionquota X b = sb_Register X b [T_ConsumptionQuota, T_ConsumptionQuotaList]"

definition init_quotausage :: "('b, 's) scheme_builder \<Rightarrow> 'b \<Rightarrow> 'b" where
  "init_quotausage X b = sb_Register X b [T_QuotaUsage, T_QuotaUsageList]"

definition api_AddToScheme :: "('b, 's) scheme_builder \<Rightarrow> 's \<Rightarrow> go_error + 's" where
  "api_AddToScheme X = sb_AddToScheme X (init_quotausage X (init_consumptionquota X (sb_Builder X api_GroupVersion)))"

text \<open>\<open>utilruntime.Must(f(scheme))\<close> in turn; \<open>Inl\<close> is the panic with that error.\<close>

fun must_all :: "('s \<Rightarrow> go_error + 's) list \<Rightarrow> 's \<Rightarrow> go_error + 's" where
  "must_all [] s = Inr s"
| "must_all (f # fs) s = (case f s of Inl err \<Rightarrow> Inl err | Inr s' \<Rightarrow> must_all fs s')"

text \<open>The schemes of client-go and of the kcp APIs.\<close>

record 's other_schemes =
  os_clientgo :: "'s \<Rightarrow> go_error + 's"
  os_apisv1alpha1 :: "'s \<Rightarrow> go_error + 's"
  os_apisv1alpha2 :: "'s \<Rightarrow> go_error + 's"
  os_corev1alpha1 :: "'s \<Rightarrow> go_error + 's"
  os_tenancyv1alpha1 :: "'s \<Rightarrow> go_error + 's"

definition init_controller :: "('b, 's) scheme_builder \<Rightarrow> 's other_schemes \<Rightarrow> 's \<Rightarrow> go_error + 's" where
  "init_controller X os = must_all [os_clientgo os, api_AddToScheme X, os_apisv1alpha1 os, os_apisv1alpha2 os,
     os_corev1alpha1 os, os_tenancyv1alpha1 os]"

definition init_webhook :: "('b, 's) scheme_builder \<Rightarrow> 's other_schemes \<Rightarrow> 's \<Rightarrow> go_error + 's" where
  "init_webhook X os = must_all [os_clientgo os, api_AddToScheme X, os_apisv1alpha1 os, os_apisv1alpha2 os,
     os_corev1alpha1 os, os_tenancyv1alpha1 os]"

section \<open>Flags, dependencies and results\<close>

record controller_flags =
  cf_apiExportName :: string
  cf_webhookBaseURL :: string
  cf_webhookCABundlePath :: string
  cf_healthProbeBindAddress :: string
  cf_enableLeaderElection :: bool
  cf_leaderElectionID :: string
  cf_leaderElectionNamespace :: string
  cf_reservationTTL :: go_duration
  cf_resyncInterval :: go_duration

record webhook_flags =
  wf_apiExportName :: string
  wf_webhookPort :: int
  wf_tlsCertDir :: string
  wf_healthProbeBindAddress :: string
  wf_reservationTTL :: go_duration
  wf_vwReadyTimeout :: go_duration

text \<open>The default that each flag is declared with.\<close>

definition default_controller_flags :: controller_flags where
  "default_controller_flags = \<lparr>cf_apiExportName = ''quota-provider'', cf_webhookBaseURL = [], cf_webhookCABundlePath = [],
     cf_healthProbeBindAddress = '':8081'', cf_enableLeaderElection = True,
     cf_leaderElectionID = ''quota-controller.opendefense.cloud'', cf_leaderElectionNamespace = ''default'',
     cf_reservationTTL = 60 * second, cf_resyncInterval = 60 * second\<rparr>"

definition default_webhook_flags :: webhook_flags where
  "default_webhook_flags = \<lparr>wf_apiExportName = ''quota-provider'', wf_webhookPort = 9443, wf_tlsCertDir = ''/etc/webhook-tls'',
     wf_healthProbeBindAddress = '':8081'', wf_reservationTTL = 60 * second, wf_vwReadyTimeout = defaultVWReadyTimeout\<rparr>"

text \<open>\<open>manager.Options\<close>, with the webhook server's port and certificates; \<open>[]\<close>, \<open>False\<close> and \<open>None\<close> are unset.\<close>

record manager_options =
  mo_HealthProbeBindAddress :: string
  mo_LeaderElection :: bool
  mo_LeaderElectionID :: string
  mo_LeaderElectionNamespace :: string
  mo_LeaderElectionReleaseOnCancel :: bool
  mo_WebhookServer :: "(int \<times> string) option"

definition startupRequestTimeout :: go_duration where
  "startupRequestTimeout = 30 * second"

text \<open>The calls outside this repository that a start makes; \<open>None\<close> is a nil error. \<open>su_withTimeout\<close> is a
  reader whose calls carry a context with that timeout.\<close>

record startup_deps =
  su_config :: "Config option"
  su_newClient :: "Config \<Rightarrow> go_error + KcpReader"
  su_withTimeout :: "go_duration \<Rightarrow> KcpReader \<Rightarrow> KcpReader"
  su_newProvider :: "Config \<Rightarrow> string \<Rightarrow> go_error option"
  su_newManager :: "Config \<Rightarrow> manager_options \<Rightarrow> go_error option"
  su_addHealthz :: "go_error option"
  su_addReadyz :: "go_error option"
  su_readFile :: "string \<Rightarrow> go_error + string"
  su_addController :: "go_error option"
  su_addRunnable :: "go_error option"
  su_start :: "go_error option"

text \<open>The message logged before \<open>os.Exit(1)\<close>, with its error when there is one.\<close>

datatype startup_failure = Exit string "go_error option"

record controller_setup =
  se_baseCfg :: Config
  se_slice :: string
  se_webhookBaseURL :: string
  se_caBundle :: string
  se_TTL :: go_duration
  se_resync :: go_duration

record webhook_setup =
  wse_slice :: string
  wse_TTL :: go_duration
  wse_timeout :: go_duration

definition check :: "string \<Rightarrow> go_error option \<Rightarrow> startup_failure + 'a \<Rightarrow> startup_failure + 'a" where
  "check msg e rest = (case e of Some err \<Rightarrow> Inl (Exit msg (Some err)) | None \<Rightarrow> rest)"

definition call :: "string \<Rightarrow> go_error + 'b \<Rightarrow> ('b \<Rightarrow> startup_failure + 'a) \<Rightarrow> startup_failure + 'a" where
  "call msg r rest = (case r of Inl err \<Rightarrow> Inl (Exit msg (Some err)) | Inr x \<Rightarrow> rest x)"

section \<open>The controller\<close>

definition resync_msg :: string where
  "resync_msg = ''--resync-interval must not exceed --reservation-ttl: '' @
     ''a stale confirmed count past the reservation window can over-allow (spec '' @ [CHR 0xC2, CHR 0xA7] @ ''7.4)''"

definition controller_options :: "controller_flags \<Rightarrow> manager_options" where
  "controller_options fl = \<lparr>mo_HealthProbeBindAddress = cf_healthProbeBindAddress fl, mo_LeaderElection = cf_enableLeaderElection fl,
     mo_LeaderElectionID = cf_leaderElectionID fl, mo_LeaderElectionNamespace = cf_leaderElectionNamespace fl,
     mo_LeaderElectionReleaseOnCancel = True, mo_WebhookServer = None\<rparr>"

definition start_controller :: "controller_flags \<Rightarrow> startup_deps \<Rightarrow> startup_failure + controller_setup" where
  "start_controller fl d =
     (if cf_resyncInterval fl > cf_reservationTTL fl then Inl (Exit resync_msg None)
      else
        check ''invalid kubeconfig'' (ValidateKubeconfig (su_config d))
        (case su_config d of
           None \<Rightarrow> Inl (Exit ''invalid kubeconfig'' None)
         | Some cfg \<Rightarrow>
             call ''unable to derive front-proxy base URL from kubeconfig'' (BaseConfig cfg) (\<lambda>baseCfg.
             call ''unable to create direct client'' (su_newClient d cfg) (\<lambda>direct.
             call ''unable to find APIExportEndpointSlice'' (EndpointSliceName (su_withTimeout d startupRequestTimeout direct) (cf_apiExportName fl)) (\<lambda>sliceName.
             check ''unable to create quota-provider apiexport provider'' (su_newProvider d cfg sliceName)
             (check ''unable to create manager'' (su_newManager d cfg (controller_options fl))
             (check ''unable to add healthz check'' (su_addHealthz d)
             (check ''unable to add readyz check'' (su_addReadyz d)
             (call ''unable to read webhook CA bundle''
                (if cf_webhookCABundlePath fl \<noteq> [] then su_readFile d (cf_webhookCABundlePath fl) else Inr []) (\<lambda>ca.
             check ''unable to create ConsumptionQuota controller'' (su_addController d)
             (Inr \<lparr>se_baseCfg = baseCfg, se_slice = sliceName,
               se_webhookBaseURL = cf_webhookBaseURL fl, se_caBundle = ca, se_TTL = cf_reservationTTL fl,
                se_resync = cf_resyncInterval fl\<rparr>)))))))))))"

text \<open>\<open>mgr.Start(rootCtx)\<close> returns when the process is stopped.\<close>

definition main_controller :: "controller_flags \<Rightarrow> startup_deps \<Rightarrow> startup_failure + unit" where
  "main_controller fl d =
     (case start_controller fl d of Inl f \<Rightarrow> Inl f | Inr st \<Rightarrow> check ''manager failed'' (su_start d) (Inr ()))"

section \<open>The webhook\<close>

definition webhook_options :: "webhook_flags \<Rightarrow> manager_options" where
  "webhook_options fl = \<lparr>mo_HealthProbeBindAddress = wf_healthProbeBindAddress fl, mo_LeaderElection = False,
     mo_LeaderElectionID = [], mo_LeaderElectionNamespace = [], mo_LeaderElectionReleaseOnCancel = False,
     mo_WebhookServer = Some (wf_webhookPort fl, wf_tlsCertDir fl)\<rparr>"

definition start_webhook :: "webhook_flags \<Rightarrow> startup_deps \<Rightarrow> startup_failure + webhook_setup" where
  "start_webhook fl d =
     check ''invalid kubeconfig'' (ValidateKubeconfig (su_config d))
     (case su_config d of
        None \<Rightarrow> Inl (Exit ''invalid kubeconfig'' None)
      | Some cfg \<Rightarrow>
          call ''unable to create direct client'' (su_newClient d cfg) (\<lambda>direct.
          call ''unable to find APIExportEndpointSlice'' (EndpointSliceName (su_withTimeout d startupRequestTimeout direct) (wf_apiExportName fl)) (\<lambda>sliceName.
          check ''unable to create quota-provider apiexport provider'' (su_newProvider d cfg sliceName)
          (check ''unable to create manager'' (su_newManager d cfg (webhook_options fl))
          (check ''unable to create registry watcher'' (su_addController d)
          (check ''unable to add registry population runnable'' (su_addRunnable d)
          (check ''unable to add healthz check'' (su_addHealthz d)
          (check ''unable to add readyz check'' (su_addReadyz d)
          (Inr \<lparr>wse_slice = sliceName, wse_TTL = wf_reservationTTL fl, wse_timeout = wf_vwReadyTimeout fl\<rparr>)))))))))"

definition main_webhook :: "webhook_flags \<Rightarrow> startup_deps \<Rightarrow> startup_failure + unit" where
  "main_webhook fl d =
     (case start_webhook fl d of Inl f \<Rightarrow> Inl f | Inr st \<Rightarrow> check ''webhook server failed'' (su_start d) (Inr ()))"

section \<open>Lemmas\<close>

lemma check_Inr: "check msg e rest = Inr x \<longleftrightarrow> e = None \<and> rest = Inr x"
  by (cases e) (simp_all add: check_def)

lemma call_Inr: "call msg r rest = Inr x \<longleftrightarrow> (\<exists>y. r = Inr y \<and> rest y = Inr x)"
  by (cases r) (simp_all add: call_def)

lemmas startup_Inr = check_Inr call_Inr

lemma slice_name_loop_ok:
  "slice_name_loop x items = Inr sliceName \<Longrightarrow> \<exists>item \<in> set items. es_APIExportName item = x \<and> es_Name item = sliceName"
  by (induction x items rule: slice_name_loop.induct) (auto split: if_splits)

lemma EndpointSliceName_ok:
  "EndpointSliceName c x = Inr sliceName \<Longrightarrow>
     \<exists>items. kr_ListSlices c = Inr items \<and> (\<exists>item \<in> set items. es_APIExportName item = x \<and> es_Name item = sliceName)"
  by (auto simp: EndpointSliceName_def slice_name_loop_ok split: sum.splits)

text \<open>
  What \<open>scheme.Builder\<close> documents: a builder has a group version and the objects registered so far, and
  \<open>AddToScheme\<close> adds them all to the scheme (\<open>knows\<close>), which loses nothing.
\<close>

definition documented_builder ::
  "('b, 's) scheme_builder \<Rightarrow> ('b \<Rightarrow> GroupVersion \<times> go_type set) \<Rightarrow> ('s \<Rightarrow> GroupVersion \<Rightarrow> go_type \<Rightarrow> bool) \<Rightarrow> bool" where
  "documented_builder X content knows \<longleftrightarrow>
     (\<forall>gv. content (sb_Builder X gv) = (gv, {})) \<and>
     (\<forall>b ts. content (sb_Register X b ts) = (fst (content b), snd (content b) \<union> set ts)) \<and>
     (\<forall>b s s'. sb_AddToScheme X b s = Inr s' \<longrightarrow> knows s \<le> knows s' \<and> (\<forall>t \<in> snd (content b). knows s' (fst (content b)) t))"

definition adds_only :: "('s \<Rightarrow> GroupVersion \<Rightarrow> go_type \<Rightarrow> bool) \<Rightarrow> ('s \<Rightarrow> go_error + 's) \<Rightarrow> bool" where
  "adds_only knows f \<longleftrightarrow> (\<forall>s s'. f s = Inr s' \<longrightarrow> knows s \<le> knows s')"

lemma must_all_adds:
  "list_all (adds_only knows) fs \<Longrightarrow> must_all fs s = Inr s' \<Longrightarrow> knows s \<le> knows s'"
  by (induction fs s rule: must_all.induct) (auto simp: adds_only_def split: sum.splits intro: order_trans)

text \<open>Both programs start with a scheme that knows every type of the API, or panic.\<close>

lemma init_knows_api:
  assumes X: "documented_builder X content knows"
    and others: "list_all (adds_only knows) [os_clientgo os, os_apisv1alpha1 os, os_apisv1alpha2 os, os_corev1alpha1 os, os_tenancyv1alpha1 os]"
    and init: "init_controller X os s = Inr s' \<or> init_webhook X os s = Inr s'"
  shows "knows s' api_GroupVersion t"
proof -
  let ?b = "init_quotausage X (init_consumptionquota X (sb_Builder X api_GroupVersion))"
  have b: "content ?b = (api_GroupVersion, {T_ConsumptionQuota, T_ConsumptionQuotaList, T_QuotaUsage, T_QuotaUsageList})"
    using X by (auto simp: documented_builder_def init_quotausage_def init_consumptionquota_def)
  obtain s1 s2 where api: "api_AddToScheme X s1 = Inr s2"
    and rest: "must_all [os_apisv1alpha1 os, os_apisv1alpha2 os, os_corev1alpha1 os, os_tenancyv1alpha1 os] s2 = Inr s'"
    using init by (auto simp: init_controller_def init_webhook_def split: sum.splits)
  have "knows s2 api_GroupVersion t"
    using X api b by (cases t) (fastforce simp: documented_builder_def api_AddToScheme_def)+
  moreover have "knows s2 \<le> knows s'" by (rule must_all_adds [OF _ rest]) (use others in simp)
  ultimately show ?thesis by (auto simp: le_fun_def)
qed

text \<open>
  Without flags the controller elects a leader and gives the lease back, and the webhook, which must
  serve on every replica, takes part in no election whatever its flags.
\<close>

lemma default_election:
  "mo_LeaderElection (controller_options default_controller_flags) \<and> mo_LeaderElectionReleaseOnCancel (controller_options fl) \<and>
   \<not> mo_LeaderElection (webhook_options wfl)"
  by (simp add: controller_options_def default_controller_flags_def webhook_options_def)

text \<open>A program that ends without a failure had started.\<close>

lemma main_started:
  "main_controller fl d = Inr () \<Longrightarrow> (\<exists>st. start_controller fl d = Inr st) \<and> su_start d = None"
  "main_webhook wfl d = Inr () \<Longrightarrow> (\<exists>st. start_webhook wfl d = Inr st) \<and> su_start d = None"
  by (auto simp: main_controller_def main_webhook_def check_Inr split: sum.splits)

section \<open>Properties\<close>

text \<open>
  C39. The controller starts only on a safe configuration: the sweep interval is within the
  reservation TTL, the kubeconfig points into a workspace whose path is split off its host so that the
  workspace hosts built later lie below it, and the slice is one of the configured export.
\<close>

theorem controller_start_guards:
  assumes "start_controller fl d = Inr st"
  shows "se_resync st \<le> se_TTL st \<and> se_TTL st = cf_reservationTTL fl \<and>
    (\<exists>cfg ws. su_config d = Some cfg \<and> cfg_Host cfg = cfg_Host (se_baseCfg st) @ clusters_path @ ws \<and>
       su_newManager d cfg (controller_options fl) = None \<and>
       (\<exists>direct items. su_newClient d cfg = Inr direct \<and> kr_ListSlices (su_withTimeout d startupRequestTimeout direct) = Inr items \<and>
          (\<exists>item \<in> set items. es_APIExportName item = cf_apiExportName fl \<and> es_Name item = se_slice st)))"
proof -
  have ttl: "\<not> cf_resyncInterval fl > cf_reservationTTL fl"
    using assms by (auto simp: start_controller_def)
  then obtain cfg base direct sliceName ca where cfg: "su_config d = Some cfg" and base: "BaseConfig cfg = Inr base"
    and direct: "su_newClient d cfg = Inr direct" and sliceName: "EndpointSliceName (su_withTimeout d startupRequestTimeout direct) (cf_apiExportName fl) = Inr sliceName"
    and mgr: "su_newManager d cfg (controller_options fl) = None"
    and st: "st = \<lparr>se_baseCfg = base, se_slice = sliceName,
               se_webhookBaseURL = cf_webhookBaseURL fl, se_caBundle = ca, se_TTL = cf_reservationTTL fl,
        se_resync = cf_resyncInterval fl\<rparr>"
    using assms by (auto simp: start_controller_def startup_Inr split: option.splits)
  have "\<exists>ws. cfg_Host cfg = cfg_Host base @ clusters_path @ ws"
    using base_config_splits_host [of cfg "[]"] base by simp
  then show ?thesis using ttl cfg direct EndpointSliceName_ok [OF sliceName] mgr st by auto
qed

definition demo_startup :: startup_deps where
  "demo_startup = \<lparr>su_config = Some \<lparr>cfg_Host = ''https://kcp:6443/clusters/root:sys''\<rparr>,
     su_newClient = (\<lambda>_. Inr \<lparr>kr_ListSlices = Inr [\<lparr>es_Name = ''slice'', es_APIExportName = ''quota-provider'', es_URLs = []\<rparr>],
       kr_GetExport = (\<lambda>_. Inl NotFound), kr_GetSchemaKind = (\<lambda>_. Inl NotFound)\<rparr>),
     su_withTimeout = (\<lambda>_ c. c), su_newProvider = (\<lambda>_ _. None), su_newManager = (\<lambda>_ _. None), su_addHealthz = None, su_addReadyz = None,
     su_readFile = (\<lambda>_. Inr []), su_addController = None, su_addRunnable = None, su_start = None\<rparr>"

theorem controller_start_guards_witness:
  "\<exists>st. start_controller default_controller_flags demo_startup = Inr st \<and> se_resync st \<le> se_TTL st"
proof -
  let ?st = "\<lparr>se_baseCfg = \<lparr>cfg_Host = ''https://kcp:6443''\<rparr>, se_slice = ''slice'', se_webhookBaseURL = [], se_caBundle = [],
    se_TTL = 60 * second, se_resync = 60 * second\<rparr>"
  have "ValidateKubeconfig (Some \<lparr>cfg_Host = ''https://kcp:6443/clusters/root:sys''\<rparr>) = None"
    "BaseConfig \<lparr>cfg_Host = ''https://kcp:6443/clusters/root:sys''\<rparr> = Inr \<lparr>cfg_Host = ''https://kcp:6443''\<rparr>"
    by code_simp+
  then have "start_controller default_controller_flags demo_startup = Inr ?st"
    by (simp add: start_controller_def startup_Inr default_controller_flags_def demo_startup_def EndpointSliceName_def)
  with controller_start_guards [OF this] show ?thesis by blast
qed

end
