(* ===== verification/Controller_Process.thy ===== *)
theory Controller_Process
  imports Quota_Isolation Startup
begin

text \<open>
  The controller process as \<open>main\<close> of \<open>cmd/controller/main.go\<close> composes it: what the start established
  (base configuration, webhook URL, CA bundle) goes into the reconciler that each event builds for its
  workspace, over one registry and one accounting manager.
\<close>

section \<open>The reconcile of the process\<close>

definition setup_reconciler ::
  "controller_setup \<Rightarrow> (string \<Rightarrow> go_error + 'w CQClient \<times> 'w VWCClient)
     \<Rightarrow> (Config \<Rightarrow> go_error + (string \<Rightarrow> 'w \<Rightarrow> (api_error + APIExport) \<times> 'w)) \<Rightarrow> Finalizers
     \<Rightarrow> string \<Rightarrow> go_error + 'w ConsumptionQuotaReconciler" where
  "setup_reconciler st getCluster newClient fin =
     workspace_reconciler (se_baseCfg st) (se_webhookBaseURL st) (se_caBundle st) getCluster newClient fin"

definition main_reconcile ::
  "controller_setup \<Rightarrow> (string \<Rightarrow> go_error + 'w CQClient \<times> 'w VWCClient)
     \<Rightarrow> (Config \<Rightarrow> go_error + (string \<Rightarrow> 'w \<Rightarrow> (api_error + APIExport) \<times> 'w)) \<Rightarrow> Finalizers
     \<Rightarrow> map_range \<Rightarrow> start_deps \<Rightarrow> 'v Store \<Rightarrow> 'v cache_list \<Rightarrow> string \<Rightarrow> string
     \<Rightarrow> 'w controller_state \<Rightarrow> (Result \<times> go_error option) \<times> 'w controller_state" where
  "main_reconcile st getCluster newClient fin ord d store list_cache =
     controller_reconcile (setup_reconciler st getCluster newClient fin) ord
       (code_start d (se_baseCfg st) (store\<lparr>TTL := se_TTL st\<rparr>) list_cache)"

section \<open>What the flags decide\<close>

text \<open>A reconciler has an installer exactly when a webhook URL was given, with the CA bundle of the file.\<close>

lemma setup_reconciler_wiring:
  assumes start: "start_controller fl d = Inr st" and r: "setup_reconciler st getCluster newClient fin cluster = Inr r"
  shows "cr_Installer r = (if cf_webhookBaseURL fl = [] then None
      else Some (NewWebhookInstaller (cf_webhookBaseURL fl) (se_caBundle st)))"
    and "if cf_webhookCABundlePath fl = [] then se_caBundle st = [] else su_readFile d (cf_webhookCABundlePath fl) = Inr (se_caBundle st)"
    and "\<exists>c v. getCluster cluster = Inr (c, v) \<and> cr_Client r = c \<and> cr_VWC r = v"
    and "\<exists>cfg base. su_config d = Some cfg \<and> BaseConfig cfg = Inr base \<and>
      newClient (workspace_config base cluster) = Inr (cr_APIExportReader r)"
proof -
  obtain cfg base where cfg: "su_config d = Some cfg" "BaseConfig cfg = Inr base"
    and st: "se_baseCfg st = base" "se_webhookBaseURL st = cf_webhookBaseURL fl"
    and ca: "(if cf_webhookCABundlePath fl \<noteq> [] then su_readFile d (cf_webhookCABundlePath fl) else Inr []) = Inr (se_caBundle st)"
    using start by (auto simp: start_controller_def startup_Inr split: if_splits option.splits)
  show "cr_Installer r = (if cf_webhookBaseURL fl = [] then None
      else Some (NewWebhookInstaller (cf_webhookBaseURL fl) (se_caBundle st)))"
    and "\<exists>c v. getCluster cluster = Inr (c, v) \<and> cr_Client r = c \<and> cr_VWC r = v"
    using r st by (auto simp: setup_reconciler_def workspace_reconciler_def split: sum.splits)
  show "\<exists>cfg base. su_config d = Some cfg \<and> BaseConfig cfg = Inr base \<and>
      newClient (workspace_config base cluster) = Inr (cr_APIExportReader r)"
    using r st cfg by (auto simp: setup_reconciler_def workspace_reconciler_def split: sum.splits)
  show "if cf_webhookCABundlePath fl = [] then se_caBundle st = [] else su_readFile d (cf_webhookCABundlePath fl) = Inr (se_caBundle st)"
    using ca by (simp split: if_splits)
qed

text \<open>Without a webhook URL no reconcile changes the webhook configuration of the workspace.\<close>

lemma CQ_Reconcile_no_installer:
  assumes frame: "cq_frame r stored" and no: "cr_Installer r = None"
    and res: "CQ_Reconcile r name w reg = (out, w', reg')"
  shows "installed stored w' = installed stored w"
proof -
  note fr = cq_frame_snd [OF frame]
  obtain g w1 where get: "qc_Get (cr_Client r) name w = (g, w1)" by fastforce
  have del: "installed stored w2 = installed stored w1" if "handleDeletion r cq w1 reg = (err, w2, reg2)" for cq err w2 reg2
    using that no fr(2) by (auto simp: handleDeletion_def Let_def split: if_splits prod.splits sum.splits)
  have stamp: "installed stored w3 = installed stored w2" if "stamp_identity (cr_Client r) iden cq w2 = (x, w3)" for iden cq w2 x w3
    using stamp_keeps [OF frame that] .
  from fr(1) [OF get] show ?thesis
    using res get no del stamp fr(2,4)
    by (auto simp: CQ_Reconcile_def Let_def split: sum.splits prod.splits if_splits)
qed

lemma no_url_no_webhook:
  assumes start: "start_controller fl d = Inr st" and url: "cf_webhookBaseURL fl = []"
    and frame: "\<And>r. setup_reconciler st getCluster newClient fin cluster = Inr r \<Longrightarrow> cq_frame r stored"
  shows "installed stored (ct_world (snd (main_reconcile st getCluster newClient fin ord deps store lc cluster name \<sigma>))) =
    installed stored (ct_world \<sigma>)"
proof (cases "setup_reconciler st getCluster newClient fin cluster")
  case (Inl err)
  then show ?thesis by (simp add: main_reconcile_def controller_reconcile_def)
next
  case (Inr r)
  have no: "cr_Installer r = None" using setup_reconciler_wiring(1) [OF start Inr] url by simp
  obtain res err w1 reg1 where cq: "CQ_Reconcile r name (ct_world \<sigma>) (ct_reg \<sigma>) = ((res, err), w1, reg1)"
    by (metis prod.exhaust)
  obtain g w2 where get: "qc_Get (cr_Client r) name w1 = (g, w2)" by fastforce
  show ?thesis
    using Inr cq get CQ_Reconcile_no_installer [OF frame [OF Inr] no cq] cq_frame_snd(1) [OF frame [OF Inr] get]
    by (simp add: main_reconcile_def controller_reconcile_def split: option.split sum.split prod.split)
qed

lemma new_controller_state_refs: "refs_inv (ct_acct (new_controller_state w))"
  by (simp add: refs_inv_def new_controller_state_def newAccountingManager_def refs_of_def)

end
