(* ===== verification/Workspace_Progress.thy ===== *)
theory Workspace_Progress
  imports Quota_Isolation
begin

text \<open>
  A whole workspace comes to enforcement: many quotas, reconciled in any order by an API server that
  accepts every fresh write, each at least twice.
\<close>

section \<open>One reconcile among many quotas\<close>

text \<open>A quota as it was, up to what the reconciles write: finalizers, identity and version.\<close>

definition alive :: "ConsumptionQuota \<Rightarrow> ConsumptionQuota option \<Rightarrow> bool" where
  "alive q obj \<longleftrightarrow> (\<exists>x. obj = Some x \<and> cq_Spec x = cq_Spec q \<and> cq_Name x = cq_Name q \<and> cq_DeletionTimestamp x = None)"

definition finalized_in :: "Finalizers \<Rightarrow> ConsumptionQuota option \<Rightarrow> bool" where
  "finalized_in fin obj \<longleftrightarrow> (\<exists>x. obj = Some x \<and> fl_Contains fin x webhookFinalizer)"

lemma stamped_simps [simp]:
  "cq_Spec (stamped iden q) = cq_Spec q" "cq_Name (stamped iden q) = cq_Name q"
  "cq_DeletionTimestamp (stamped iden q) = cq_DeletionTimestamp q" "cq_Finalizers (stamped iden q) = cq_Finalizers q"
  "ct_IdentityHash (cq_Status (stamped iden q)) = iden (gr_APIExportName (cs_Governed (cq_Spec q)))"
  by (simp_all add: stamped_def)

lemma enforced_cong:
  assumes "cq_Spec x = cq_Spec q" and "cq_Name x = cq_Name q" and "ct_IdentityHash (cq_Status x) = ct_IdentityHash (cq_Status q)"
  shows "enforced stored i cl x \<sigma> = enforced stored i cl q \<sigma>"
  using assms by (simp add: enforced_def rule_key_def cq_resource_def quota_key_def Let_def)

lemma governed_cong:
  assumes "cq_Spec x = cq_Spec q" and "ct_IdentityHash (cq_Status x) = ct_IdentityHash (cq_Status q)"
  shows "governed_of x = governed_of q"
  using assms by (simp add: governed_of_def Let_def)

lemma finalizer_kept:
  assumes "finalizers_honest fin" and "fl_Contains fin x webhookFinalizer"
  shows "fl_Contains fin ((stamped iden x)\<lparr>cq_ResourceVersion := v\<rparr>) webhookFinalizer"
  using assms unfolding finalizers_honest_def stamped_def by metis

text \<open>The closure on a live quota: it keeps the others, adds the finalizer, and enforces what has it.\<close>

lemma closure_step:
  assumes ord: "enumerates ord" and inv: "refs_inv (ct_acct \<sigma>)"
    and f: "faultless r quota stored iden" and i: "cr_Installer r = Some i" and r: "reconciler cl = Inr r"
    and start: "\<exists>ur. start_prepare d baseCfg store lc cl (governed_of (stamped iden q)) = Inr ur"
    and q: "alive q (quota (ct_world \<sigma>) (cq_Name q))"
  shows "\<exists>x. quota (ct_world (snd (controller_reconcile reconciler ord (code_start d baseCfg store lc) cl (cq_Name q) \<sigma>))) =
        (quota (ct_world \<sigma>))(cq_Name q \<mapsto> x) \<and> alive q (Some x) \<and> finalized_in (cr_Finalizers r) (Some x)"
    and "refs_inv (ct_acct (snd (controller_reconcile reconciler ord (code_start d baseCfg store lc) cl (cq_Name q) \<sigma>)))"
    and "finalized_in (cr_Finalizers r) (quota (ct_world \<sigma>) (cq_Name q)) \<Longrightarrow>
      enforced stored i cl (stamped iden q) (snd (controller_reconcile reconciler ord (code_start d baseCfg store lc) cl (cq_Name q) \<sigma>))"
proof -
  let ?run = "controller_reconcile reconciler ord (code_start d baseCfg store lc) cl (cq_Name q) \<sigma>"
  obtain x where x: "quota (ct_world \<sigma>) (cq_Name q) = Some x" "cq_DeletionTimestamp x = None"
    and same: "cq_Spec x = cq_Spec q" "cq_Name x = cq_Name q" using q by (auto simp: alive_def)
  have fin: "finalizers_honest (cr_Finalizers r)" using f by (simp add: faultless_def)
  have start': "\<exists>ur. start_prepare d baseCfg store lc cl (governed_of (stamped iden x)) = Inr ur"
    using start governed_cong [of "stamped iden x" "stamped iden q"] same by simp
  have yes: "(\<exists>y. quota (ct_world (snd ?run)) = (quota (ct_world \<sigma>))(cq_Name q \<mapsto> y) \<and> alive q (Some y) \<and>
      finalized_in (cr_Finalizers r) (Some y)) \<and> refs_inv (ct_acct (snd ?run)) \<and> enforced stored i cl (stamped iden q) (snd ?run)"
    if c: "fl_Contains (cr_Finalizers r) x webhookFinalizer"
  proof -
    obtain v where e: "enforced stored i cl (stamped iden x) (snd ?run)" "refs_inv (ct_acct (snd ?run))"
      and w: "quota (ct_world (snd ?run)) = (quota (ct_world \<sigma>))(cq_Name q \<mapsto> (stamped iden x)\<lparr>cq_ResourceVersion := v\<rparr>)"
      using controller_finalized [where quota = quota and q = x and name = "cq_Name q" and reconciler = reconciler and cl = cl,
          OF ord inv f i r start' x c] by auto
    have "enforced stored i cl (stamped iden x) (snd ?run) = enforced stored i cl (stamped iden q) (snd ?run)"
      by (rule enforced_cong) (simp_all add: same)
    with e(1) have "enforced stored i cl (stamped iden q) (snd ?run)" by simp
    then show ?thesis
      using e(2) w x(2) same finalizer_kept [OF fin c] by (auto simp: alive_def finalized_in_def)
  qed
  have no: "(\<exists>y. quota (ct_world (snd ?run)) = (quota (ct_world \<sigma>))(cq_Name q \<mapsto> y) \<and> alive q (Some y) \<and>
      finalized_in (cr_Finalizers r) (Some y)) \<and> refs_inv (ct_acct (snd ?run))"
    if c: "\<not> fl_Contains (cr_Finalizers r) x webhookFinalizer"
  proof -
    have "?run = (fst ?run, snd ?run)" by simp
    from controller_adds_finalizer [where quota = quota and q = x and name = "cq_Name q" and reconciler = reconciler and cl = cl,
        OF ord inv f r x c this]
    show ?thesis using x(2) same by (auto simp: alive_def finalized_in_def)
  qed
  show "\<exists>x. quota (ct_world (snd ?run)) = (quota (ct_world \<sigma>))(cq_Name q \<mapsto> x) \<and> alive q (Some x) \<and>
      finalized_in (cr_Finalizers r) (Some x)" and "refs_inv (ct_acct (snd ?run))"
    using yes no by blast+
  show "enforced stored i cl (stamped iden q) (snd ?run)" if "finalized_in (cr_Finalizers r) (quota (ct_world \<sigma>) (cq_Name q))"
    using yes that x(1) by (simp add: finalized_in_def)
qed

section \<open>Schedules\<close>

lemma apart_cong: "apart q x \<Longrightarrow> cq_Spec y = cq_Spec x \<Longrightarrow> apart q y"
  by (simp add: apart_def rule_key_def cq_resource_def quota_key_def Let_def)

lemma closure_world:
  assumes f: "faultless r quota stored iden" and r: "reconciler cl = Inr r"
  shows "ct_world (snd (controller_reconcile reconciler ord startFn cl name \<sigma>)) =
    fst (snd (CQ_Reconcile r name (ct_world \<sigma>) (ct_reg \<sigma>)))"
proof -
  obtain res err w1 reg1 where cq: "CQ_Reconcile r name (ct_world \<sigma>) (ct_reg \<sigma>) = ((res, err), w1, reg1)"
    by (metis prod.exhaust)
  have "qc_Get (cr_Client r) name w1 = (case quota w1 name of None \<Rightarrow> Inl NotFound | Some q \<Rightarrow> Inr q, w1)"
    using f by (simp add: faultless_def faultless_quotas_def)
  then show ?thesis
    using r cq by (simp add: controller_reconcile_def split: option.split prod.split)
qed

text \<open>A reconcile of a live quota \<open>p\<close> leaves an enforced quota that governs something else enforced.\<close>

lemma closure_keeps_enforced:
  assumes ord: "enumerates ord" and inv: "refs_inv (ct_acct \<sigma>)" and f: "faultless r quota stored iden"
    and laws: "cq_laws (cr_Client r) stored" "cq_frame r stored" and i: "cr_Installer r = Some i" and r: "reconciler cl = Inr r"
    and start: "\<exists>ur. start_prepare d baseCfg store lc cl (governed_of (stamped iden p)) = Inr ur"
    and p: "alive p (quota (ct_world \<sigma>) (cq_Name p))" and other: "apart q p" "cq_Name p \<noteq> cq_Name q"
    and old: "enforced stored i cl q \<sigma>"
  shows "enforced stored i cl q (snd (controller_reconcile reconciler ord (code_start d baseCfg store lc) cl (cq_Name p) \<sigma>))"
    (is "enforced _ _ _ _ (snd ?run)")
proof -
  have get: "qc_Get (cr_Client r) n w = (case quota w n of None \<Rightarrow> Inl NotFound | Some q \<Rightarrow> Inr q, w)" for n w
    using f by (simp add: faultless_def faultless_quotas_def)
  have vl: "vwc_laws (cr_VWC r) stored" using f by (simp add: faultless_def)
  have read: "cq_Name x = cq_Name p \<and> apart q x" if "alive p (quota w (cq_Name p))" "qc_Get (cr_Client r) (cq_Name p) w = (Inr x, w')" for w x w'
    using that apart_cong [OF other(1)] by (auto simp: get alive_def)
  let ?w1 = "fst (snd (CQ_Reconcile r (cq_Name p) (ct_world \<sigma>) (ct_reg \<sigma>)))"
  have "alive p (quota (ct_world (snd ?run)) (cq_Name p))"
    using closure_step(1) [where reconciler = reconciler, OF ord inv f i r start p] by auto
  then have "alive p (quota ?w1 (cq_Name p))" by (simp add: closure_world [where reconciler = reconciler, OF f r])
  note again = read [OF this] and first = read [OF p]
  have "holds stored i cl q \<sigma>" using old inv by (simp add: holds_def)
  have "holds stored i cl q (snd ?run)"
    by (rule controller_reconcile_holds [where reconciler = reconciler and cluster = cl and name = "cq_Name p",
        OF ord r vl laws _ again other(2) \<open>holds stored i cl q \<sigma>\<close>]) (rule conjunct2 [OF first])
  then show ?thesis by (simp add: holds_def)
qed

text \<open>
  C7. A workspace comes to enforcement: in whatever order its live quotas are reconciled, when every one of
  them has been reconciled twice without a fault, all of them are enforced at once, whatever finalizers and
  identities they had: each with its limit under the identity of its export, its entry, its reference and
  the accounting of its export running or being started. It is assumed that the quotas are pairwise apart:
  different names, and, whatever identities they get, different entry names, resources and accounting
  keys; and that the API server accepts the writes.
\<close>

theorem workspace_reaches_enforcement:
  assumes "enumerates ord" and "refs_inv (ct_acct \<sigma>)" and "faultless r quota stored iden"
    and "cq_laws (cr_Client r) stored" and "cq_frame r stored" and "cr_Installer r = Some i" and "reconciler cluster = Inr r"
    and "\<forall>q \<in> Q. quota (ct_world \<sigma>) (cq_Name q) = Some q \<and> cq_DeletionTimestamp q = None \<and>
      (\<exists>ur. start_prepare d baseCfg store lc cluster (governed_of (stamped iden q)) = Inr ur)"
    and "\<forall>q \<in> Q. \<forall>p \<in> Q. p \<noteq> q \<longrightarrow> cq_Name p \<noteq> cq_Name q \<and> apart (stamped iden q) p"
    and "set es \<subseteq> Q"
  shows "\<forall>q \<in> Q. 2 \<le> count_list es q \<longrightarrow> enforced stored i cluster (stamped iden q)
    (controller_events (controller_reconcile reconciler ord (code_start d baseCfg store lc)) cluster
       (map (\<lambda>q. (id, cq_Name q)) es) \<sigma>)"
proof -
  let ?closure = "controller_reconcile reconciler ord (code_start d baseCfg store lc)"
  let ?run = "\<lambda>es. controller_events ?closure cluster (map (\<lambda>q. (id, cq_Name q)) es) \<sigma>"
  have start: "\<exists>ur. start_prepare d baseCfg store lc cluster (governed_of (stamped iden q)) = Inr ur" if "q \<in> Q" for q
    using assms(8) that by blast
  have differ: "cq_Name p \<noteq> cq_Name q" "apart (stamped iden q) p" if "p \<in> Q" "q \<in> Q" "p \<noteq> q" for p q
    using assms(9) that by blast+
  have "refs_inv (ct_acct (?run es)) \<and> (\<forall>q \<in> Q. alive q (quota (ct_world (?run es)) (cq_Name q))) \<and>
      (\<forall>q \<in> set es. finalized_in (cr_Finalizers r) (quota (ct_world (?run es)) (cq_Name q))) \<and>
      (\<forall>q \<in> Q. 2 \<le> count_list es q \<longrightarrow> enforced stored i cluster (stamped iden q) (?run es))"
    using assms(10)
  proof (induction es rule: rev_induct)
    case Nil
    then show ?case using assms(2,8) by (auto simp: controller_events_def alive_def)
  next
    case (snoc p es)
    let ?\<sigma> = "?run es"
    have p: "p \<in> Q" and sub: "set es \<subseteq> Q" using snoc.prems by simp_all
    have IH: "refs_inv (ct_acct ?\<sigma>)" "\<And>q. q \<in> Q \<Longrightarrow> alive q (quota (ct_world ?\<sigma>) (cq_Name q))"
      "\<And>q. q \<in> set es \<Longrightarrow> finalized_in (cr_Finalizers r) (quota (ct_world ?\<sigma>) (cq_Name q))"
      "\<And>q. q \<in> Q \<Longrightarrow> 2 \<le> count_list es q \<Longrightarrow> enforced stored i cluster (stamped iden q) ?\<sigma>"
      using snoc.IH [OF sub] by blast+
    have run: "?run (es @ [p]) = snd (?closure cluster (cq_Name p) ?\<sigma>)" by (simp add: controller_events_def)
    note step = closure_step [where reconciler = reconciler, OF assms(1) IH(1) assms(3,6,7) start [OF p] IH(2) [OF p]]
    obtain x where x: "quota (ct_world (?run (es @ [p]))) = (quota (ct_world ?\<sigma>))(cq_Name p \<mapsto> x)"
      "alive p (Some x)" "finalized_in (cr_Finalizers r) (Some x)"
      using step(1) unfolding run by blast
    have "alive q (quota (ct_world (?run (es @ [p]))) (cq_Name q))" if "q \<in> Q" for q
      using IH(2) [OF that] x(1,2) differ(1) [OF p that] by (cases "p = q") auto
    moreover have "finalized_in (cr_Finalizers r) (quota (ct_world (?run (es @ [p]))) (cq_Name q))" if "q \<in> set (es @ [p])" for q
      using IH(3) [of q] x(1,3) that differ(1) [OF p, of q] snoc.prems by (cases "p = q") auto
    moreover have "enforced stored i cluster (stamped iden q) (?run (es @ [p]))" if q: "q \<in> Q" and two: "2 \<le> count_list (es @ [p]) q" for q
    proof (cases "p = q")
      case True
      then have "count_list es q \<noteq> 0" using two by simp
      then have "p \<in> set es" using True by (metis count_notin)
      then show ?thesis using step(3) IH(3) True unfolding run by blast
    next
      case False
      then have "enforced stored i cluster (stamped iden q) ?\<sigma>" using IH(4) [OF q] two by simp
      moreover have "cq_Name p \<noteq> cq_Name (stamped iden q)" using differ(1) [OF p q False] by simp
      ultimately show ?thesis
        unfolding run using closure_keeps_enforced [where reconciler = reconciler, OF assms(1) IH(1) assms(3-7) start [OF p] IH(2) [OF p]
            differ(2) [OF p q False]] by blast
    qed
    ultimately show ?case using step(2) unfolding run by blast
  qed
  then show ?thesis by blast
qed

section \<open>A workspace with two quotas\<close>

type_synonym demo_pair = "(string \<rightharpoonup> ConsumptionQuota) \<times> VWC option"

definition pair_quotas :: "demo_pair \<Rightarrow> string \<Rightarrow> ConsumptionQuota option" where
  "pair_quotas w n = (case fst w n of None \<Rightarrow> None | Some x \<Rightarrow> if cq_Name x = n then Some x else None)"

definition pair_reconciler :: "demo_pair ConsumptionQuotaReconciler" where
  "pair_reconciler =
     \<lparr>cr_Client = \<lparr>qc_Get = (\<lambda>n w. (case pair_quotas w n of None \<Rightarrow> Inl NotFound | Some x \<Rightarrow> Inr x, w)),
        qc_Update = (\<lambda>q w. (Inr q, ((fst w)(cq_Name q \<mapsto> q), snd w))),
        qc_StatusUpdate = (\<lambda>q w. (Inr q, ((fst w)(cq_Name q \<mapsto> q), snd w)))\<rparr>,
      cr_APIExportReader = (\<lambda>n w. (Inr \<lparr>ae_Resources = [], ae_IdentityHash = ''h1''\<rparr>, w)),
      cr_VWC =
       \<lparr>vc_Get = (\<lambda>w. case vc_Get demo_vwc (snd w) of (x, v) \<Rightarrow> (x, (fst w, v))),
        vc_Update = (\<lambda>c w. case vc_Update demo_vwc c (snd w) of (x, v) \<Rightarrow> (x, (fst w, v))),
        vc_Delete = (\<lambda>c w. case vc_Delete demo_vwc c (snd w) of (x, v) \<Rightarrow> (x, (fst w, v))),
        vc_CreateOrUpdate = (\<lambda>c f w. case vc_CreateOrUpdate demo_vwc c f (snd w) of (x, v) \<Rightarrow> (x, (fst w, v)))\<rparr>,
      cr_Finalizers = demo_finalizers, cr_Installer = Some demo_installer\<rparr>"

definition new_quota :: "string \<Rightarrow> string \<Rightarrow> ConsumptionQuota" where
  "new_quota n res = demo_new\<lparr>cq_Name := n,
     cq_Spec := (cq_Spec demo_new)\<lparr>cs_Governed := (cs_Governed (cq_Spec demo_new))\<lparr>gr_Resource := res\<rparr>\<rparr>\<rparr>"

definition pair_state :: "demo_pair controller_state" where
  "pair_state = new_controller_state ([''q'' \<mapsto> new_quota ''q'' ''buckets'', ''p'' \<mapsto> new_quota ''p'' ''objects''], None)"

definition pair_deps :: start_deps where
  "pair_deps = demo_deps\<lparr>sd_newClient := (\<lambda>_. Inr (demo_reader\<lparr>kr_GetExport := (\<lambda>_. Inr
     \<lparr>ae_Resources = [\<lparr>xr_Group = ''g'', xr_Name = ''buckets'', xr_Schema = ''v1.buckets.g''\<rparr>,
        \<lparr>xr_Group = ''g'', xr_Name = ''objects'', xr_Schema = ''v1.objects.g''\<rparr>], ae_IdentityHash = ''h1''\<rparr>)\<rparr>))\<rparr>"

lemma pair_laws:
  "faultless pair_reconciler pair_quotas snd (\<lambda>_. ''h1'')" "cq_laws (cr_Client pair_reconciler) snd" "cq_frame pair_reconciler snd"
proof -
  have "faultless_quotas (cr_Client pair_reconciler) pair_quotas snd"
    by (auto simp: faultless_quotas_def pair_reconciler_def pair_quotas_def write_accepted_def fun_eq_iff
        split: option.splits if_splits intro!: same_version [simplified])
  moreover have "faultless_exports (cr_APIExportReader pair_reconciler) (\<lambda>_. ''h1'')"
    by (simp add: faultless_exports_def pair_reconciler_def)
  moreover have "faultless_vwc (cr_VWC pair_reconciler) pair_quotas"
    by (simp add: faultless_vwc_def pair_reconciler_def demo_vwc_def pair_quotas_def fun_eq_iff)
  moreover have "finalizers_honest (cr_Finalizers pair_reconciler)"
    by (auto simp: finalizers_honest_def pair_reconciler_def demo_finalizers_def)
  moreover have "vwc_laws (cr_VWC pair_reconciler) snd"
    by (auto simp: vwc_laws_def vwc_get_law_def vwc_update_law_def vwc_delete_law_def vwc_upsert_law_def
        pair_reconciler_def demo_vwc_def split: option.splits if_splits)
  ultimately show "faultless pair_reconciler pair_quotas snd (\<lambda>_. ''h1'')"
    by (simp add: faultless_def) (simp add: pair_reconciler_def)
  show "cq_laws (cr_Client pair_reconciler) snd" "cq_frame pair_reconciler snd"
    by (simp_all add: cq_laws_def cq_frame_def pair_reconciler_def)
qed

lemma pair_apart:
  "apart (stamped (\<lambda>_. ''h1'') (new_quota ''q'' ''buckets'')) (new_quota ''p'' ''objects'')"
  "apart (stamped (\<lambda>_. ''h1'') (new_quota ''p'' ''objects'')) (new_quota ''q'' ''buckets'')"
  by (simp_all add: apart_def Let_def webhookEntryName_eq rule_key_def cq_resource_def quota_key_def accountingKey_def
      stamped_def new_quota_def demo_new_def demo_quota_def)

lemma pair_starts:
  "\<exists>ur. start_prepare pair_deps \<lparr>cfg_Host = ''h''\<rparr> (undefined :: unit Store) (\<lambda>c g w. (Inr [], w)) ''p''
     (governed_of (stamped (\<lambda>_. ''h1'') (new_quota n res))) = Inr ur" if "res = ''buckets'' \<or> res = ''objects''"
  using that
  by (auto simp: start_prepare_def pair_deps_def demo_deps_def require_def governed_of_def stamped_def new_quota_def demo_new_def
      demo_quota_def Let_def demo_reader_def ResolveKind_def EndpointSliceName_def VirtualWorkspaceURL_def VirtualWorkspaceURLs_def)

theorem workspace_reaches_enforcement_witness:
  "let q = new_quota ''q'' ''buckets''; p = new_quota ''p'' ''objects'';
       \<sigma> = controller_events (controller_reconcile (\<lambda>_. Inr pair_reconciler) sorted_range
         (code_start pair_deps \<lparr>cfg_Host = ''h''\<rparr> (undefined :: unit Store) (\<lambda>c g w. (Inr [], w)))) ''p''
         (map (\<lambda>q. (id, cq_Name q)) [q, p, p, q]) pair_state
   in enforced snd demo_installer ''p'' (stamped (\<lambda>_. ''h1'') q) \<sigma> \<and> enforced snd demo_installer ''p'' (stamped (\<lambda>_. ''h1'') p) \<sigma>"
proof -
  let ?q = "new_quota ''q'' ''buckets''" and ?p = "new_quota ''p'' ''objects''"
  let ?d = "pair_deps" and ?st = "undefined :: unit Store" and ?l = "\<lambda>(c :: string) (g :: string \<times> string \<times> string) (w :: unit). (Inr [] :: go_error + (string \<times> string) list, w)"
  have names: "cq_Name (new_quota n res) = n" "cq_DeletionTimestamp (new_quota n res) = None" for n res
    by (simp_all add: new_quota_def demo_new_def demo_quota_def)
  have ne: "?q \<noteq> ?p" using names(1) [of "''q''" "''buckets''"] names(1) [of "''p''" "''objects''"] by auto
  have inv: "refs_inv (ct_acct pair_state)"
    by (simp add: refs_inv_def pair_state_def new_controller_state_def newAccountingManager_def refs_of_def)
  have i: "cr_Installer pair_reconciler = Some demo_installer" by (simp add: pair_reconciler_def)
  have here: "\<forall>q \<in> {?q, ?p}. pair_quotas (ct_world pair_state) (cq_Name q) = Some q \<and> cq_DeletionTimestamp q = None \<and>
      (\<exists>ur. start_prepare ?d \<lparr>cfg_Host = ''h''\<rparr> ?st ?l ''p'' (governed_of (stamped (\<lambda>_. ''h1'') q)) = Inr ur)"
    using pair_starts [of "''buckets''" "''q''"] pair_starts [of "''objects''" "''p''"]
    by (simp add: names pair_quotas_def pair_state_def new_controller_state_def)
  have apart: "\<forall>q \<in> {?q, ?p}. \<forall>p \<in> {?q, ?p}. p \<noteq> q \<longrightarrow> cq_Name p \<noteq> cq_Name q \<and> apart (stamped (\<lambda>_. ''h1'') q) p"
    using pair_apart by (simp add: names)
  have "set [?q, ?p, ?p, ?q] \<subseteq> {?q, ?p}" by simp
  from workspace_reaches_enforcement [where reconciler = "\<lambda>_. Inr pair_reconciler" and cluster = "''p''",
      OF sorted_range inv pair_laws i refl here apart this] ne
  show ?thesis unfolding Let_def by auto
qed

end
