(* ===== verification/Webhook_Process.thy ===== *)
theory Webhook_Process
  imports Dispatch Watcher
begin

text \<open>
  The webhook process as \<open>main\<close> of \<open>cmd/webhook/main.go\<close> composes it: one registry fed by the
  watcher's events and seeded once by \<open>PopulateRegistry\<close>, whose success closes \<open>initialized\<close>
  and so opens the readiness check and the dispatcher. Events, the population and requests
  interleave freely; the ledgers change between them as the controller and the other replicas write.
\<close>

section \<open>State and steps\<close>

record 'w webhook_process =
  wp_world :: 'w
  wp_watcher :: registryWatcher
  wp_dispatcher :: "'w validatorDispatcher"

definition new_process :: "'w \<Rightarrow> 'w webhook_process" where
  "new_process w =
     \<lparr>wp_world = w, wp_watcher = new_watcher, wp_dispatcher = newValidatorDispatcher False\<rparr>"

text \<open>One request: the dispatcher's answer, and the validator's when it serves.\<close>

datatype answer = Refused nat string | Answered "Response option"

definition serve_request ::
  "(string \<Rightarrow> string) \<Rightarrow> ('w \<times> bool) retrier \<Rightarrow> 'w Store \<Rightarrow> (string \<Rightarrow> (string \<rightharpoonup> string) option)
     \<Rightarrow> string \<Rightarrow> Request \<Rightarrow> 'w webhook_process \<Rightarrow> answer \<times> 'w webhook_process" where
  "serve_request sha256 run s unmarshal path req p =
     (case ServeHTTP sha256 run s path (wp_dispatcher p) of
        (HttpError code msg, d) \<Rightarrow> (Refused code msg, p\<lparr>wp_dispatcher := d\<rparr>)
      | (Serve v, d) \<Rightarrow>
          (case Handle unmarshal (rw_reg (wp_watcher p)) v req (wp_world p) of
             (r, w') \<Rightarrow> (Answered r, p\<lparr>wp_world := w', wp_dispatcher := d\<rparr>)))"

text \<open>The runnable that populates: a failure ends the process, a success closes the channel.\<close>

definition populate_runnable ::
  "'x populate_state retrier \<Rightarrow> ('x \<Rightarrow> (go_error + 'c list) \<times> 'x) \<Rightarrow> ('c, 'x) cq_lister \<Rightarrow> 'x
     \<Rightarrow> 'w webhook_process \<Rightarrow> go_error + 'w webhook_process" where
  "populate_runnable poll vw_clients list_cqs x p =
     (case PopulateRegistry poll vw_clients list_cqs (wp_watcher p) x of
        (Some err, _, _) \<Rightarrow> Inl err
      | (None, _, w) \<Rightarrow>
          Inr (p\<lparr>wp_watcher := w, wp_dispatcher := (wp_dispatcher p)\<lparr>vd_initialized := True\<rparr>\<rparr>))"

inductive webhook_step ::
  "(string \<Rightarrow> string) \<Rightarrow> ('w \<times> bool) retrier \<Rightarrow> 'w Store \<Rightarrow> (string \<Rightarrow> (string \<rightharpoonup> string) option)
     \<Rightarrow> 'x populate_state retrier \<Rightarrow> ('x \<Rightarrow> (go_error + 'c list) \<times> 'x) \<Rightarrow> ('c, 'x) cq_lister
     \<Rightarrow> 'w webhook_process \<Rightarrow> 'w webhook_process \<Rightarrow> bool"
  for sha256 run s unmarshal poll vw_clients list_cqs where
  event: "Watcher_Reconcile cerr got cluster name (wp_watcher p) = (err, w) \<Longrightarrow>
    webhook_step sha256 run s unmarshal poll vw_clients list_cqs p (p\<lparr>wp_watcher := w\<rparr>)"
| populated: "populate_runnable poll vw_clients list_cqs x p = Inr p' \<Longrightarrow>
    webhook_step sha256 run s unmarshal poll vw_clients list_cqs p p'"
| request: "serve_request sha256 run s unmarshal path req p = (a, p') \<Longrightarrow>
    webhook_step sha256 run s unmarshal poll vw_clients list_cqs p p'"
| others: "webhook_step sha256 run s unmarshal poll vw_clients list_cqs p (p\<lparr>wp_world := w\<rparr>)"

definition webhook_reach ::
  "(string \<Rightarrow> string) \<Rightarrow> ('w \<times> bool) retrier \<Rightarrow> 'w Store \<Rightarrow> (string \<Rightarrow> (string \<rightharpoonup> string) option)
     \<Rightarrow> 'x populate_state retrier \<Rightarrow> ('x \<Rightarrow> (go_error + 'c list) \<times> 'x) \<Rightarrow> ('c, 'x) cq_lister
     \<Rightarrow> 'w \<Rightarrow> 'w webhook_process \<Rightarrow> bool" where
  "webhook_reach sha256 run s unmarshal poll vw_clients list_cqs w0 p \<longleftrightarrow>
     (webhook_step sha256 run s unmarshal poll vw_clients list_cqs)\<^sup>*\<^sup>* (new_process w0) p"

section \<open>The invariant\<close>

text \<open>The cached validators stay bound to their identity and to the store.\<close>

lemma serve_request_bound:
  assumes "dispatch_inv sha256 run s (wp_dispatcher p)"
    and "serve_request sha256 run s unmarshal path req p = (a, p')"
  shows "dispatch_inv sha256 run s (wp_dispatcher p')"
  using ServeHTTP_inv [OF assms(1), of path] assms(2)
  by (auto simp: serve_request_def split: prod.splits served.splits)

lemma webhook_step_bound:
  assumes "webhook_step sha256 run s unmarshal poll vw_clients list_cqs p p'"
    and "dispatch_inv sha256 run s (wp_dispatcher p)"
  shows "dispatch_inv sha256 run s (wp_dispatcher p')"
  using assms
proof (cases rule: webhook_step.cases)
  case (populated x)
  then show ?thesis using assms(2)
    by (auto simp: populate_runnable_def dispatch_inv_def split: prod.splits option.splits)
qed (auto simp: serve_request_bound)

lemma webhook_reach_bound:
  assumes "webhook_reach sha256 run s unmarshal poll vw_clients list_cqs w0 p"
  shows "dispatch_inv sha256 run s (wp_dispatcher p)"
proof -
  have "(webhook_step sha256 run s unmarshal poll vw_clients list_cqs)\<^sup>*\<^sup>* (new_process w0) p"
    using assms by (simp add: webhook_reach_def)
  then show ?thesis
  proof (induction rule: rtranclp_induct)
    case base
    then show ?case by (simp add: new_process_def dispatch_inv_new)
  next
    case (step p p')
    then show ?case using webhook_step_bound by blast
  qed
qed

text \<open>What a request meets: 503 before the population, 404 on a bad path, else the bound validator.\<close>

lemma serve_request_cases:
  assumes "webhook_reach sha256 run s unmarshal poll vw_clients list_cqs w0 p"
    and "serve_request sha256 run s unmarshal path req p = (Answered r, p')"
  shows "vd_initialized (wp_dispatcher p) \<and>
    (\<exists>ref. routable ref \<and> path = validate_path ref \<and>
       Handle unmarshal (rw_reg (wp_watcher p)) (bound_validator sha256 run s ref) req (wp_world p) = (r, wp_world p'))"
proof -
  obtain x d where sv: "ServeHTTP sha256 run s path (wp_dispatcher p) = (x, d)" by fastforce
  obtain v where v: "x = Serve v" using assms(2) sv by (cases x) (auto simp: serve_request_def)
  note route = ServeHTTP_routes [OF webhook_reach_bound [OF assms(1)], of path]
  then obtain ref where init: "vd_initialized (wp_dispatcher p)" and ref: "parseValidatePath path = Some ref"
    and "v = bound_validator sha256 run s ref"
    using sv v by (auto split: if_splits option.splits)
  then have "Handle unmarshal (rw_reg (wp_watcher p)) (bound_validator sha256 run s ref) req (wp_world p) = (r, wp_world p')"
    using assms(2) sv v by (auto simp: serve_request_def split: prod.splits)
  with init parse_sound [OF ref] show ?thesis by blast
qed

end
