(* ===== verification/Backoff_Schedule.thy ===== *)
theory Backoff_Schedule
  imports Prelude
begin

text \<open>
  The two backoff configurations of the program, and what they amount to under the documented
  behaviour of \<open>wait.Backoff\<close>: how often \<open>Apply\<close> tries (\<open>internal/quota/store.go\<close>) and how
  long \<open>retryStart\<close> waits (\<open>cmd/controller/accounting.go\<close>). \<open>Step\<close> belongs to
  k8s.io/apimachinery and is an argument.
\<close>

section \<open>Configurations\<close>

text \<open>Durations in nanoseconds; the factor and the jitter as fractions of ten.\<close>

record Backoff =
  bo_Duration :: go_duration
  bo_FactorTenths :: int
  bo_JitterTenths :: int
  bo_Steps :: int
  bo_Cap :: go_duration

abbreviation millisecond :: go_duration where
  "millisecond \<equiv> 1000000"

definition store_backoff :: Backoff where
  "store_backoff = \<lparr>bo_Duration = 5 * millisecond, bo_FactorTenths = 15, bo_JitterTenths = 5,
     bo_Steps = 30, bo_Cap = 250 * millisecond\<rparr>"

definition retry_backoff :: Backoff where
  "retry_backoff = \<lparr>bo_Duration = 5 * second, bo_FactorTenths = 20, bo_JitterTenths = 0,
     bo_Steps = 1000, bo_Cap = 120 * second\<rparr>"

section \<open>What \<open>Step\<close> documents\<close>

text \<open>
  It returns the duration plus a random part of at most \<open>jitter * duration\<close>. While \<open>Steps\<close> is
  positive it multiplies the duration by the factor, which does not count the jitter; a product over
  the cap is cut to the cap and sets \<open>Steps\<close> to zero; a \<open>Steps\<close> that is not positive leaves
  the duration alone.
\<close>

definition scaled :: "Backoff \<Rightarrow> go_duration" where
  "scaled b = bo_Duration b * bo_FactorTenths b div 10"

definition next_backoff :: "Backoff \<Rightarrow> Backoff" where
  "next_backoff b =
     (if bo_Steps b \<le> 0 then b
      else if bo_Cap b < scaled b then b\<lparr>bo_Duration := bo_Cap b, bo_Steps := 0\<rparr>
      else b\<lparr>bo_Duration := scaled b, bo_Steps := bo_Steps b - 1\<rparr>)"

definition documented_step :: "(Backoff \<Rightarrow> go_duration \<times> Backoff) \<Rightarrow> bool" where
  "documented_step step \<longleftrightarrow> (\<forall>b. snd (step b) = next_backoff b \<and>
     (0 \<le> bo_Duration b \<and> 0 \<le> bo_JitterTenths b \<longrightarrow>
        bo_Duration b \<le> fst (step b) \<and> 10 * fst (step b) \<le> (10 + bo_JitterTenths b) * bo_Duration b))"

lemma next_backoff_frame [simp]:
  "bo_JitterTenths (next_backoff b) = bo_JitterTenths b" "bo_Cap (next_backoff b) = bo_Cap b"
  "bo_FactorTenths (next_backoff b) = bo_FactorTenths b"
  by (simp_all add: next_backoff_def)

lemma step_next: "documented_step step \<Longrightarrow> snd (step b) = next_backoff b"
  unfolding documented_step_def by blast

lemma step_no_jitter:
  assumes "documented_step step" and "bo_JitterTenths b = 0" and "0 \<le> bo_Duration b"
  shows "fst (step b) = bo_Duration b"
proof -
  have "bo_Duration b \<le> fst (step b)" "10 * fst (step b) \<le> (10 + bo_JitterTenths b) * bo_Duration b"
    using assms unfolding documented_step_def by (metis order_refl)+
  with assms(2) show ?thesis by simp
qed

section \<open>The retries of a stopped accounting set\<close>

text \<open>The delay before round \<open>n\<close> of \<open>retryStart\<close>: it steps a copy of the configuration once per round.\<close>

fun retry_delay :: "(Backoff \<Rightarrow> go_duration \<times> Backoff) \<Rightarrow> Backoff \<Rightarrow> nat \<Rightarrow> go_duration" where
  "retry_delay step b 0 = fst (step b)"
| "retry_delay step b (Suc n) = retry_delay step (snd (step b)) n"

lemma retry_delay_exhausted:
  "documented_step step \<Longrightarrow> bo_JitterTenths b = 0 \<Longrightarrow> 0 \<le> bo_Duration b \<Longrightarrow> bo_Steps b \<le> 0 \<Longrightarrow>
     retry_delay step b n = bo_Duration b"
  by (induction n arbitrary: b) (simp_all add: step_no_jitter step_next next_backoff_def)

lemma retry_delay_doubling:
  assumes step: "documented_step step"
    and b: "bo_JitterTenths b = 0" "bo_FactorTenths b = 20" "0 < bo_Duration b" "bo_Duration b \<le> bo_Cap b"
      "bo_Cap b < bo_Duration b * 2 ^ nat (bo_Steps b)"
  shows "retry_delay step b n = min (bo_Duration b * 2 ^ n) (bo_Cap b)"
  using b
proof (induction n arbitrary: b)
  case 0
  then show ?case using step by (simp add: step_no_jitter)
next
  case (Suc n)
  have nxt: "snd (step b) = next_backoff b" using step by (rule step_next)
  have pos: "0 < bo_Steps b" using Suc.prems(4,5) by (cases "0 < bo_Steps b") auto
  have sc: "scaled b = 2 * bo_Duration b" using Suc.prems(2) by (simp add: scaled_def)
  show ?case
  proof (cases "bo_Cap b < 2 * bo_Duration b")
    case True
    then have "retry_delay step (next_backoff b) n = bo_Cap b"
      using retry_delay_exhausted [OF step, of "next_backoff b" n] pos sc Suc.prems(1,3,4)
      by (simp add: next_backoff_def)
    moreover have "2 * bo_Duration b \<le> bo_Duration b * 2 ^ Suc n"
      using Suc.prems(3) by simp
    then have "bo_Cap b < bo_Duration b * 2 ^ Suc n" using True by linarith
    ultimately show ?thesis by (simp add: nxt min_def)
  next
    case False
    have m: "nat (bo_Steps b) = Suc (nat (bo_Steps b - 1))" using pos by arith
    have "bo_Cap b < 2 * bo_Duration b * 2 ^ nat (bo_Steps b - 1)"
      using Suc.prems(5) by (simp add: m mult.assoc)
    then have "retry_delay step (next_backoff b) n = min (2 * bo_Duration b * 2 ^ n) (bo_Cap b)"
      using Suc.IH [of "next_backoff b"] Suc.prems False pos sc by (simp add: next_backoff_def)
    then show ?thesis by (simp add: nxt mult.commute mult.left_commute)
  qed
qed

section \<open>The attempts of \<open>Apply\<close>\<close>

text \<open>
  \<open>ExponentialBackoffWithContext\<close> documents: it checks the condition and sleeps for \<open>Step\<close>, until
  \<open>Steps\<close> checks were done or a sleep truncated by the cap was completed. \<open>gives_up b n t\<close> is a
  run whose condition is never done nor fails: \<open>n\<close> checks and \<open>t\<close> of sleep.
\<close>

definition documented_exponential :: "(Backoff \<Rightarrow> nat \<Rightarrow> go_duration \<Rightarrow> bool) \<Rightarrow> bool" where
  "documented_exponential gives_up \<longleftrightarrow> (\<forall>b n t. gives_up b n t \<longrightarrow>
     (if bo_Steps b \<le> 0 then n = 0 \<and> t = 0
      else \<exists>d m t'. 0 \<le> d \<and> 10 * d \<le> (10 + bo_JitterTenths b) * bo_Duration b \<and>
        (1 < bo_Steps b \<longrightarrow> bo_Duration b \<le> d) \<and> gives_up (next_backoff b) m t' \<and> n = Suc m \<and> t = d + t'))"

text \<open>The number of checks and the sleep without jitter; \<open>fuel\<close> as large as \<open>Steps\<close> is enough.\<close>

fun budget :: "nat \<Rightarrow> Backoff \<Rightarrow> nat \<times> go_duration" where
  "budget 0 b = (0, 0)"
| "budget (Suc fuel) b =
     (if bo_Steps b \<le> 0 then (0, 0)
      else case budget fuel (next_backoff b) of (n, t) \<Rightarrow> (Suc n, bo_Duration b + t))"

lemma gives_up_stopped:
  "documented_exponential gives_up \<Longrightarrow> gives_up b n t \<Longrightarrow> bo_Steps b \<le> 0 \<Longrightarrow> n = 0 \<and> t = 0"
  unfolding documented_exponential_def by meson

lemma gives_up_again:
  assumes "documented_exponential gives_up" and "gives_up b n t" and "0 < bo_Steps b"
  obtains d m t' where "10 * d \<le> (10 + bo_JitterTenths b) * bo_Duration b"
    and "gives_up (next_backoff b) m t'" and "n = Suc m" and "t = d + t'"
  using assms unfolding documented_exponential_def by (meson not_le)

lemma gives_up_budget:
  assumes doc: "documented_exponential gives_up"
  shows "gives_up b n t \<Longrightarrow> nat (bo_Steps b) \<le> fuel \<Longrightarrow>
    n = fst (budget fuel b) \<and> 10 * t \<le> (10 + bo_JitterTenths b) * snd (budget fuel b)"
proof (induction fuel arbitrary: b n t)
  case 0
  then have "bo_Steps b \<le> 0" by simp
  from gives_up_stopped [OF doc 0(1) this] show ?case by simp
next
  case (Suc fuel)
  show ?case
  proof (cases "bo_Steps b \<le> 0")
    case True
    from gives_up_stopped [OF doc Suc.prems(1) this] True show ?thesis by simp
  next
    case False
    then obtain d m t' where d: "10 * d \<le> (10 + bo_JitterTenths b) * bo_Duration b"
      and up: "gives_up (next_backoff b) m t'" and nt: "n = Suc m" "t = d + t'"
      using gives_up_again [OF doc Suc.prems(1)] by auto
    have "nat (bo_Steps (next_backoff b)) \<le> fuel"
      using Suc.prems(2) False by (auto simp: next_backoff_def nat_le_iff)
    from Suc.IH [OF up this] d nt False show ?thesis
      by (simp add: split_beta algebra_simps)
  qed
qed

text \<open>
  C26. \<open>Apply\<close> gives up on a contended ledger after ten attempts and less than a second of sleep: the
  eleventh duration would exceed the cap, which ends the documented backoff, so that most of the thirty
  steps and of the admission timeout are never used.
\<close>

theorem apply_gives_up_early:
  assumes "documented_exponential gives_up" and "gives_up store_backoff n t"
  shows "n = 10 \<and> t < second"
proof -
  have b: "budget 30 store_backoff = (10, 566650387)" by code_simp
  have "nat (bo_Steps store_backoff) \<le> 30" by (simp add: store_backoff_def)
  from gives_up_budget [OF assms this] show ?thesis unfolding b by (simp add: store_backoff_def)
qed

text \<open>A helper without jitter.\<close>

definition exact_helper :: "Backoff \<Rightarrow> nat \<Rightarrow> go_duration \<Rightarrow> bool" where
  "exact_helper b n t \<longleftrightarrow> (n, t) = budget (nat (bo_Steps b)) b \<and> 0 \<le> bo_Duration b \<and> 0 \<le> bo_JitterTenths b \<and>
     0 \<le> bo_FactorTenths b \<and> 0 \<le> bo_Cap b"

lemma budget_enough: "nat (bo_Steps b) \<le> f \<Longrightarrow> nat (bo_Steps b) \<le> f' \<Longrightarrow> budget f b = budget f' b"
proof (induction f arbitrary: b f')
  case 0
  then show ?case by (cases f') simp_all
next
  case (Suc f)
  show ?case
  proof (cases "bo_Steps b \<le> 0")
    case True
    then show ?thesis by (cases f') simp_all
  next
    case False
    then obtain g where f': "f' = Suc g" using Suc.prems(2) by (cases f') simp_all
    have "nat (bo_Steps (next_backoff b)) \<le> f" "nat (bo_Steps (next_backoff b)) \<le> g"
      using Suc.prems f' False by (auto simp: next_backoff_def nat_le_iff)
    from Suc.IH [OF this] show ?thesis using f' by simp
  qed
qed

lemma exact_helper_documented: "documented_exponential exact_helper"
  unfolding documented_exponential_def
proof (intro allI impI)
  fix b n t
  assume g: "exact_helper b n t"
  let ?b' = "next_backoff b"
  show "if bo_Steps b \<le> 0 then n = 0 \<and> t = 0
      else \<exists>d m t'. 0 \<le> d \<and> 10 * d \<le> (10 + bo_JitterTenths b) * bo_Duration b \<and>
        (1 < bo_Steps b \<longrightarrow> bo_Duration b \<le> d) \<and> exact_helper ?b' m t' \<and> n = Suc m \<and> t = d + t'"
  proof (cases "bo_Steps b \<le> 0")
    case True
    then show ?thesis using g by (simp add: exact_helper_def)
  next
    case False
    then have m: "nat (bo_Steps b) = Suc (nat (bo_Steps b - 1))" by arith
    have "budget (nat (bo_Steps b - 1)) ?b' = budget (nat (bo_Steps ?b')) ?b'"
      using False by (intro budget_enough) (auto simp: next_backoff_def)
    moreover have "0 \<le> bo_Duration ?b'" using g
      by (auto simp: exact_helper_def next_backoff_def scaled_def pos_imp_zdiv_nonneg_iff)
    ultimately have up: "exact_helper ?b' (fst (budget (nat (bo_Steps b - 1)) ?b')) (snd (budget (nat (bo_Steps b - 1)) ?b'))"
      using g by (simp add: exact_helper_def)
    have nt: "n = Suc (fst (budget (nat (bo_Steps b - 1)) ?b'))" "t = bo_Duration b + snd (budget (nat (bo_Steps b - 1)) ?b')"
      using g False by (simp_all add: exact_helper_def m split_beta)
    have "10 * bo_Duration b \<le> (10 + bo_JitterTenths b) * bo_Duration b"
      using g by (simp add: exact_helper_def algebra_simps)
    then show ?thesis using up nt g False by (auto simp: exact_helper_def)
  qed
qed

theorem apply_gives_up_early_witness: "fst (budget 30 store_backoff) = 10"
proof -
  have "nat (bo_Steps store_backoff) = 30" by (simp add: store_backoff_def)
  then have "exact_helper store_backoff (fst (budget 30 store_backoff)) (snd (budget 30 store_backoff))"
    by (simp add: exact_helper_def) (simp add: store_backoff_def)
  from apply_gives_up_early [OF exact_helper_documented this] show ?thesis by blast
qed

text \<open>
  The restarts of a stopped accounting set never end by themselves, and are paced as configured: the
  delay before round \<open>n\<close> is five seconds doubled \<open>n\<close> times, cut to two minutes.
\<close>

theorem retry_delays:
  assumes "documented_step step"
  shows "retry_delay step retry_backoff n = min (5 * second * 2 ^ n) (120 * second)"
proof -
  have "bo_Cap retry_backoff < bo_Duration retry_backoff * 2 ^ nat (bo_Steps retry_backoff)"
    by code_simp
  with retry_delay_doubling [OF assms, of retry_backoff n] show ?thesis by (simp add: retry_backoff_def)
qed

definition exact_step :: "Backoff \<Rightarrow> go_duration \<times> Backoff" where
  "exact_step b = (bo_Duration b, next_backoff b)"

theorem retry_delays_witness:
  "map (retry_delay exact_step retry_backoff) [0, 1, 5] = [5 * second, 10 * second, 120 * second]"
proof -
  have "documented_step exact_step" by (simp add: documented_step_def exact_step_def algebra_simps)
  from retry_delays [OF this] show ?thesis by (simp del: retry_delay.simps)
qed

end
