(* ===== verification/Retry.thy ===== *)
theory Retry
  imports Accounting_Manager Backoff_Schedule
begin

text \<open>
  \<open>retryStart\<close> of \<open>cmd/controller/accounting.go\<close> as one loop (\<open>Lifecycle\<close> has its sections as separate
  steps): a delay of the backoff, the check under the mutex, the start, and again after a failed
  start. The wait is an argument that answers whether the root context ended, and during which
  the other goroutines change the manager; so is \<open>startFn\<close>. The loop may run forever, so it has fuel:
  \<open>None\<close> is a loop that is still running after that many rounds.
\<close>

fun retryStart ::
  "(Backoff \<Rightarrow> go_duration \<times> Backoff) \<Rightarrow> (go_duration \<Rightarrow> accountingManager \<times> 'w \<Rightarrow> bool \<times> accountingManager \<times> 'w) \<Rightarrow>
     (accountingManager \<times> 'w \<Rightarrow> go_error option \<times> accountingManager \<times> 'w) \<Rightarrow> string \<Rightarrow> nat \<Rightarrow> Backoff \<Rightarrow>
     accountingManager \<times> 'w \<Rightarrow> (accountingManager \<times> 'w) option" where
  "retryStart step wait startFn key 0 backoff s = None"
| "retryStart step wait startFn key (Suc n) backoff s =
     (case step backoff of
        (delay, backoff') \<Rightarrow>
          (case wait delay s of
             (True, s1) \<Rightarrow> Some s1
           | (False, a, w) \<Rightarrow>
               (case retry_enter key a of
                  (False, a1) \<Rightarrow> Some (a1, w)
                | (True, a1) \<Rightarrow>
                    (case startFn (a1, w) of
                       (err, a2, w2) \<Rightarrow>
                         (let a3 = retry_exit key a2 in
                          if err \<noteq> None then retryStart step wait startFn key n backoff' (a3, w2) else Some (a3, w2))))))"

text \<open>How it can end: aborted in a wait, nothing to do after one, or after a start without an error.\<close>

lemma retryStart_outcome:
  assumes "retryStart step wait startFn key n backoff s = Some (a', w')"
  shows "(\<exists>d s. wait d s = (True, a', w')) \<or>
    (\<exists>d s a. wait d s = (False, a, w') \<and> retry_enter key a = (False, a')) \<or>
    (\<exists>a1 w a2. startFn (a1, w) = (None, a2, w') \<and> a' = retry_exit key a2)"
  using assms
proof (induction step wait startFn key n backoff s rule: retryStart.induct)
  case (2 step wait startFn key n backoff s)
  obtain d b where sb: "step backoff = (d, b)" by fastforce
  obtain stop a w where wt: "wait d s = (stop, a, w)" by (metis prod_cases3)
  show ?case
  proof (cases stop)
    case True
    with 2(2) sb wt have "wait d s = (True, a', w')" by simp
    then show ?thesis by blast
  next
    case False
    obtain go a1 where en: "retry_enter key a = (go, a1)" by fastforce
    obtain err a2 w2 where st: "startFn (a1, w) = (err, a2, w2)" by (metis prod_cases3)
    show ?thesis
    proof (cases go)
      case False': False
      with 2(2) sb wt en False have "wait d s = (False, a, w')" "retry_enter key a = (False, a')" by simp_all
      then show ?thesis by blast
    next
      case True
      show ?thesis
      proof (cases "err = None")
        case None: True
        with 2(2) sb wt en st False True have "startFn (a1, w) = (None, a2, w') \<and> a' = retry_exit key a2" by (simp add: Let_def)
        then show ?thesis by blast
      next
        case again: False
        with 2(2) sb wt en st False True
        have run: "retryStart step wait startFn key n b (retry_exit key a2, w2) = Some (a', w')" by (simp add: Let_def)
        have wt': "wait d s = (False, a, w)" and en': "retry_enter key a = (True, a1)" using wt en False True by simp_all
        from 2(1) [OF sb [symmetric] wt' [symmetric] refl refl en' [symmetric] refl st [symmetric] refl refl again run] show ?thesis .
      qed
    qed
  qed
qed simp

text \<open>Undisturbed rounds: the wait appends its delay to a log, and \<open>fails\<close> starts fail before one registers a set.\<close>

definition calm_wait :: "go_duration \<Rightarrow> accountingManager \<times> go_duration list \<Rightarrow> bool \<times> accountingManager \<times> go_duration list" where
  "calm_wait d s = (False, fst s, snd s @ [d])"

definition late_start ::
  "string \<Rightarrow> nat \<Rightarrow> accountingManager \<times> go_duration list \<Rightarrow> go_error option \<times> accountingManager \<times> go_duration list" where
  "late_start key fails s =
     (if length (snd s) \<le> fails then (Some (ErrMsg ''not ready''), s) else (None, snd (register_set key (fst s)), snd s))"

lemma retryStart_rounds:
  assumes "refs_of a key \<noteq> {}" and "am_sets a key = None" and "key \<notin> am_starting a" and "length l + m = Suc fails" and "0 < m"
  shows "\<exists>a'. retryStart step calm_wait (late_start key fails) key m b (a, l) =
      Some (a', l @ map (retry_delay step b) [0..<m]) \<and>
    am_sets a' = (am_sets a)(key \<mapsto> am_next a) \<and> am_starting a' = am_starting a \<and> am_refs a' = am_refs a"
  using assms(4,5)
proof (induction m arbitrary: b l)
  case (Suc m)
  obtain d b' where sb: "step b = (d, b')" by fastforce
  let ?in = "a\<lparr>am_starting := insert key (am_starting a)\<rparr>"
  have en: "retry_enter key a = (True, ?in)" using assms(1-3) by (simp add: retry_enter_def)
  have ex: "retry_exit key ?in = a" using assms(3) by (simp add: retry_exit_def)
  have ds: "map (retry_delay step b) [0..<Suc m] = d # map (retry_delay step b') [0..<m]"
    unfolding upt_conv_Cons [OF zero_less_Suc] map_Suc_upt [symmetric] by (simp add: sb)
  show ?case
  proof (cases m)
    case 0
    then show ?thesis using Suc.prems sb en ds assms(3)
      by (simp add: calm_wait_def late_start_def register_set_def retry_exit_def Let_def fun_upd_def)
  next
    case (Suc k)
    have early: "length (l @ [d]) \<le> fails" using Suc.prems Suc by simp
    have next_round: "retryStart step calm_wait (late_start key fails) key (Suc m) b (a, l) =
        retryStart step calm_wait (late_start key fails) key m b' (a, l @ [d])"
      using early sb en ex by (subst retryStart.simps) (simp add: calm_wait_def late_start_def Let_def)
    have "length (l @ [d]) + m = Suc fails" "0 < m" using Suc.prems(1) Suc by simp_all
    from Suc.IH [OF this, of b'] obtain a' where
      "retryStart step calm_wait (late_start key fails) key m b' (a, l @ [d]) = Some (a', (l @ [d]) @ map (retry_delay step b') [0..<m])"
      "am_sets a' = (am_sets a)(key \<mapsto> am_next a) \<and> am_starting a' = am_starting a \<and> am_refs a' = am_refs a" by blast
    then show ?thesis by (simp only: next_round ds append.assoc append_Cons append_Nil) blast
  qed
qed simp

text \<open>
  A set that stopped is restarted however often its start fails first: with nobody interfering,
  \<open>retryStart\<close> returns in the round of the first start that succeeds, with the new set registered, no
  start left in flight and every reference kept, after waits of five seconds doubled each round and
  cut to two minutes. \<open>Suc fails\<close> rounds of fuel are enough.
\<close>

theorem retryStart_recovers:
  assumes "documented_step step"
    and "refs_of a key \<noteq> {}" and "am_sets a key = None" and "key \<notin> am_starting a"
  shows "\<exists>a'. retryStart step calm_wait (late_start key fails) key (Suc fails) retry_backoff (a, []) =
      Some (a', map (\<lambda>i. min (5 * second * 2 ^ i) (120 * second)) [0..<Suc fails]) \<and>
    am_sets a' = (am_sets a)(key \<mapsto> am_next a) \<and> am_starting a' = am_starting a \<and> am_refs a' = am_refs a"
proof -
  have delays: "retry_delay step retry_backoff = (\<lambda>i. min (5 * second * 2 ^ i) (120 * second))"
    by (rule ext) (rule retry_delays [OF assms(1)])
  have "length ([] :: go_duration list) + Suc fails = Suc fails" "0 < Suc fails" by simp_all
  from retryStart_rounds [OF assms(2-4) this, of step retry_backoff] show ?thesis unfolding delays append_Nil .
qed

theorem retryStart_recovers_witness:
  "\<exists>a'. retryStart exact_step calm_wait (late_start ''k'' 2) ''k'' 3 retry_backoff
      (newAccountingManager\<lparr>am_refs := [''k'' \<mapsto> {''p/q''}]\<rparr>, []) =
      Some (a', [5 * second, 10 * second, 20 * second]) \<and> am_sets a' ''k'' = Some 0"
proof -
  let ?a = "newAccountingManager\<lparr>am_refs := [''k'' \<mapsto> {''p/q''}]\<rparr>"
  have step: "documented_step exact_step" by (simp add: documented_step_def exact_step_def algebra_simps)
  have a: "refs_of ?a ''k'' \<noteq> {}" "am_sets ?a ''k'' = None" "''k'' \<notin> am_starting ?a"
    by (simp_all add: refs_of_def newAccountingManager_def)
  have delays: "map (\<lambda>i. min (5 * second * 2 ^ i) (120 * second)) [0..<Suc 2] = [5 * second, 10 * second, 20 * second]"
    by (simp add: upt_rec)
  show ?thesis
    using retryStart_recovers [OF step a, of 2] unfolding delays by (auto simp: newAccountingManager_def numeral_3_eq_3)
qed

end
