(* ===== verification/Accounting_Heap.thy ===== *)
theory Accounting_Heap
  imports Accounting Slices
begin

text \<open>
  The ledger arithmetic once more, on Go's slices: a status holds a slice of reservations whose
  array other statuses may share, as \<open>before := u.Status\<close> in \<open>Apply\<close> does. The functions of
  \<open>internal/accounting/accounting.go\<close> are written with the allocations, the in-place filter and the
  \<open>append\<close> of the source, and proved to compute what theory \<open>Accounting\<close> says without touching
  any array of the status they were given.
\<close>

section \<open>Statuses that share arrays\<close>

record hStatus =
  h_Confirmed :: int32
  h_Reservations :: go_slice

type_synonym rheap = "Reservation Heap"

definition status_of :: "rheap \<Rightarrow> hStatus \<Rightarrow> QuotaUsageStatus" where
  "status_of h st = \<lparr>Confirmed = h_Confirmed st, Reservations = elems h (h_Reservations st)\<rparr>"

definition valid_status :: "rheap \<Rightarrow> hStatus \<Rightarrow> bool" where
  "valid_status h st \<longleftrightarrow> valid_slice h (h_Reservations st)"

section \<open>Operations\<close>

text \<open>\<open>for i := range *in { (*in)[i].DeepCopyInto(&(*out)[i]) }\<close>\<close>

function copy_range :: "nat \<Rightarrow> nat \<Rightarrow> nat \<Rightarrow> nat \<Rightarrow> rheap \<Rightarrow> rheap" where
  "copy_range src dst n i h =
     (if i < n then copy_range src dst n (Suc i) (put_at dst i (Reservation_DeepCopyInto (hp_arr h src ! i)) h) else h)"
  by pat_completeness auto
termination
  by (relation "measure (\<lambda>(src, dst, n, i, h). n - i)") auto

declare copy_range.simps [simp del]

definition DeepCopy_h :: "hStatus \<Rightarrow> rheap \<Rightarrow> hStatus \<times> rheap" where
  "DeepCopy_h st h =
     (case h_Reservations st of
        None \<Rightarrow> (st, h)
      | Some s \<Rightarrow>
          (case alloc (replicate (sl_len s) zero_Reservation) h of
             (a, h1) \<Rightarrow> (st\<lparr>h_Reservations := Some \<lparr>sl_base = a, sl_len = sl_len s\<rparr>\<rparr>,
               copy_range (sl_base s) a (sl_len s) 0 h1)))"

definition Used_h :: "rheap \<Rightarrow> hStatus \<Rightarrow> go_time \<Rightarrow> int32" where
  "Used_h h st now = h_Confirmed st + count_live now (elems h (h_Reservations st)) 0"

definition Reserve_h ::
  "(nat \<Rightarrow> nat) \<Rightarrow> hStatus \<Rightarrow> string \<Rightarrow> int32 \<Rightarrow> go_time \<Rightarrow> go_duration \<Rightarrow> rheap \<Rightarrow> (hStatus \<times> bool) \<times> rheap" where
  "Reserve_h grow st objKey limit now ttl h =
     (if list_ex (\<lambda>r. Key r = objKey \<and> live_at now r) (elems h (h_Reservations st)) then ((st, True), h)
      else if sint limit \<le> sint (Used_h h st now) then ((st, False), h)
      else
        (case DeepCopy_h st h of (out, h1) \<Rightarrow>
         case append_go grow zero_Reservation (h_Reservations out) \<lparr>Key = objKey, ExpiresAt = now + ttl\<rparr> h1 of
           (rs, h2) \<Rightarrow> ((out\<lparr>h_Reservations := rs\<rparr>, True), h2)))"

text \<open>\<open>kept := out.Reservations[:0]\<close>, the filter loop, \<open>out.Reservations = kept\<close>\<close>

definition filter_reservations ::
  "(nat \<Rightarrow> nat) \<Rightarrow> (Reservation \<Rightarrow> bool) \<Rightarrow> hStatus \<Rightarrow> rheap \<Rightarrow> hStatus \<times> rheap" where
  "filter_reservations grow keep out h =
     (case h_Reservations out of
        None \<Rightarrow> (out, h)
      | Some s \<Rightarrow>
          (case filter_loop grow zero_Reservation keep (sl_base s) (sl_len s) 0 (Some (s\<lparr>sl_len := 0\<rparr>)) h of
             (kept, h') \<Rightarrow> (out\<lparr>h_Reservations := kept\<rparr>, h')))"

definition Sweep_h :: "(nat \<Rightarrow> nat) \<Rightarrow> hStatus \<Rightarrow> go_time \<Rightarrow> rheap \<Rightarrow> hStatus \<times> rheap" where
  "Sweep_h grow st now h =
     (case DeepCopy_h st h of (out, h1) \<Rightarrow> filter_reservations grow (live_at now) out h1)"

definition FoldConfirmed_h ::
  "(nat \<Rightarrow> nat) \<Rightarrow> hStatus \<Rightarrow> int32 \<Rightarrow> string set \<Rightarrow> rheap \<Rightarrow> hStatus \<times> rheap" where
  "FoldConfirmed_h grow st trueCount liveKeys h =
     (case DeepCopy_h st h of (out, h1) \<Rightarrow>
        filter_reservations grow (\<lambda>r. Key r \<notin> liveKeys) (out\<lparr>h_Confirmed := trueCount\<rparr>) h1)"

section \<open>DeepCopy\<close>

lemma copy_range_spec:
  assumes "dst \<noteq> src" and "i \<le> n" and "n = length (hp_arr h dst)" and "n \<le> length (hp_arr h src)"
  shows "hp_arr (copy_range src dst n i h) dst = take i (hp_arr h dst) @ drop i (take n (hp_arr h src)) \<and>
    hp_next (copy_range src dst n i h) = hp_next h \<and> (\<forall>b. b \<noteq> dst \<longrightarrow> hp_arr (copy_range src dst n i h) b = hp_arr h b)"
  using assms
proof (induction "n - i" arbitrary: i h)
  case 0
  then show ?case by (subst (1 2 3) copy_range.simps) simp
next
  case (Suc m)
  then have i: "i < n" "m = n - Suc i" by simp_all
  let ?h = "put_at dst i (Reservation_DeepCopyInto (hp_arr h src ! i)) h"
  have step: "copy_range src dst n i h = copy_range src dst n (Suc i) ?h"
    using i by (subst copy_range.simps) simp
  have "take (Suc i) (hp_arr ?h dst) = take i (hp_arr h dst) @ [hp_arr h src ! i]"
    using i Suc.prems by (simp add: put_at_def Reservation_DeepCopyInto_def take_Suc_conv_app_nth)
  moreover have "drop i (take n (hp_arr h src)) = hp_arr h src ! i # drop (Suc i) (take n (hp_arr h src))"
    using i Suc.prems by (simp add: Cons_nth_drop_Suc [symmetric])
  ultimately show ?case
    using Suc.hyps(1) [OF i(2), of ?h] Suc.prems i unfolding step by (simp add: put_at_def)
qed

text \<open>The copy lives in an array of its own, filled to its length.\<close>

lemma DeepCopy_h_spec:
  assumes "DeepCopy_h st h = (out, h')" and "valid_status h st"
  shows "status_of h' out = status_of h st \<and> valid_status h' out \<and> keeps h h' \<and>
    (case h_Reservations out of None \<Rightarrow> True
     | Some s \<Rightarrow> hp_next h \<le> sl_base s \<and> sl_len s = length (hp_arr h' (sl_base s)))"
proof (cases "h_Reservations st")
  case None
  with assms show ?thesis by (auto simp: DeepCopy_h_def)
next
  case (Some s)
  obtain a h1 where al: "alloc (replicate (sl_len s) zero_Reservation) h = (a, h1)" by fastforce
  note new = keeps_alloc [OF al]
  have v: "sl_base s < hp_next h" "sl_len s \<le> length (hp_arr h (sl_base s))"
    using assms(2) Some by (simp_all add: valid_status_def valid_slice_def)
  have "hp_arr h1 (sl_base s) = hp_arr h (sl_base s)" using new v(1) by (simp add: keeps_def)
  moreover have ne: "a \<noteq> sl_base s" and len: "sl_len s = length (hp_arr h1 a)" using new v(1) by auto
  ultimately have copy: "hp_arr (copy_range (sl_base s) a (sl_len s) 0 h1) a = take (sl_len s) (hp_arr h (sl_base s))"
    "hp_next (copy_range (sl_base s) a (sl_len s) 0 h1) = Suc a"
    "\<And>b. b \<noteq> a \<Longrightarrow> hp_arr (copy_range (sl_base s) a (sl_len s) 0 h1) b = hp_arr h1 b"
    using copy_range_spec [OF ne, of 0 "sl_len s" h1] len new v by simp_all
  have out: "out = st\<lparr>h_Reservations := Some \<lparr>sl_base = a, sl_len = sl_len s\<rparr>\<rparr>"
    "h' = copy_range (sl_base s) a (sl_len s) 0 h1"
    using assms(1) Some al by (simp_all add: DeepCopy_h_def)
  then show ?thesis using copy new v Some
    by (auto simp: status_of_def valid_status_def valid_slice_def elems_def keeps_def)
qed

section \<open>The operations\<close>

lemma filter_reservations_spec:
  assumes "filter_reservations grow keep out h1 = (st', h2)" and "valid_status h1 out" and "keeps h h1"
    and "case h_Reservations out of None \<Rightarrow> True
      | Some s \<Rightarrow> hp_next h \<le> sl_base s \<and> sl_len s = length (hp_arr h1 (sl_base s))"
  shows "status_of h2 st' = (status_of h1 out)\<lparr>Reservations := compact_inplace keep (Reservations (status_of h1 out))\<rparr> \<and>
    valid_status h2 st' \<and> keeps h h2"
proof (cases "h_Reservations out")
  case None
  with assms show ?thesis
    by (auto simp: filter_reservations_def status_of_def elems_def)
next
  case (Some s)
  have s: "hp_next h \<le> sl_base s" "sl_len s = length (hp_arr h1 (sl_base s))" "sl_base s < hp_next h1"
    using assms(2,4) Some by (simp_all add: valid_status_def valid_slice_def)
  have zero: "\<lparr>sl_base = sl_base s, sl_len = 0\<rparr> = s\<lparr>sl_len := 0\<rparr>" by simp
  obtain k' h' where loop: "filter_loop grow zero_Reservation keep (sl_base s) (sl_len s) 0 (Some (s\<lparr>sl_len := 0\<rparr>)) h1 =
      (Some \<lparr>sl_base = sl_base s, sl_len = k'\<rparr>, h')"
    and res: "take k' (hp_arr h' (sl_base s)) = compact_loop keep (hp_arr h1 (sl_base s)) (sl_len s) 0 0"
      "k' \<le> length (hp_arr h' (sl_base s))" "hp_next h' = hp_next h1"
      "\<And>b. b \<noteq> sl_base s \<Longrightarrow> hp_arr h' b = hp_arr h1 b"
    using filter_loop_compact [of 0 0 "sl_len s" h1 "sl_base s" grow zero_Reservation keep, unfolded zero] s(2) by blast
  have out: "st' = out\<lparr>h_Reservations := Some \<lparr>sl_base = sl_base s, sl_len = k'\<rparr>\<rparr>" "h2 = h'"
    using assms(1) Some loop by (simp_all add: filter_reservations_def)
  have "elems h1 (Some s) = hp_arr h1 (sl_base s)" using s(2) by (simp add: elems_def)
  then have "elems h2 (h_Reservations st') = compact_inplace keep (elems h1 (h_Reservations out))"
    using out res(1) s(2) Some by (simp add: elems_def compact_inplace_def del: compact_inplace_filter)
  moreover have "keeps h h2" using assms(3) res(3,4) s(1) out by (auto simp: keeps_def)
  moreover have "valid_status h2 st'" using out res(2,3) s(3) by (simp add: valid_status_def valid_slice_def)
  ultimately show ?thesis using out by (simp add: status_of_def)
qed

lemma keeps_status: "keeps h h' \<Longrightarrow> valid_status h st \<Longrightarrow> status_of h' st = status_of h st"
  by (simp add: status_of_def valid_status_def keeps_elems)

lemma Used_h_eq: "Used_h h st now = Used (status_of h st) now"
  by (simp add: Used_h_def Used_def status_of_def)

lemma reservations_of: "Reservations (status_of h st) = elems h (h_Reservations st)"
  by (simp add: status_of_def)

lemma Sweep_h_refines:
  assumes "Sweep_h grow st now h = (st', h')" and "valid_status h st"
  shows "status_of h' st' = Sweep (status_of h st) now \<and> valid_status h' st' \<and> keeps h h'"
proof -
  obtain out h1 where dc: "DeepCopy_h st h = (out, h1)" by fastforce
  note copy = DeepCopy_h_spec [OF dc assms(2)]
  have "filter_reservations grow (live_at now) out h1 = (st', h')" using assms(1) dc by (simp add: Sweep_h_def)
  from filter_reservations_spec [OF this, of h] copy show ?thesis by (simp add: Sweep_def Let_def)
qed

lemma FoldConfirmed_h_refines:
  assumes "FoldConfirmed_h grow st n ks h = (st', h')" and "valid_status h st"
  shows "status_of h' st' = FoldConfirmed (status_of h st) n ks \<and> valid_status h' st' \<and> keeps h h'"
proof -
  obtain out h1 where dc: "DeepCopy_h st h = (out, h1)" by fastforce
  note copy = DeepCopy_h_spec [OF dc assms(2)]
  have "filter_reservations grow (\<lambda>r. Key r \<notin> ks) (out\<lparr>h_Confirmed := n\<rparr>) h1 = (st', h')"
    using assms(1) dc by (simp add: FoldConfirmed_h_def)
  moreover have "status_of h1 (out\<lparr>h_Confirmed := n\<rparr>) = (status_of h st)\<lparr>Confirmed := n\<rparr>"
    using copy by (simp add: status_of_def)
  ultimately show ?thesis
    using filter_reservations_spec [of grow "\<lambda>r. Key r \<notin> ks" "out\<lparr>h_Confirmed := n\<rparr>" h1 st' h' h] copy
    by (simp add: FoldConfirmed_def valid_status_def Let_def)
qed

lemma Reserve_h_refines:
  assumes "Reserve_h grow st k limit now ttl h = ((st', ok), h')" and "valid_status h st"
  shows "(status_of h' st', ok) = Reserve (status_of h st) k limit now ttl \<and> valid_status h' st' \<and> keeps h h'"
proof (cases "list_ex (\<lambda>r. Key r = k \<and> live_at now r) (Reservations (status_of h st)) \<or>
    sint limit \<le> sint (Used (status_of h st) now)")
  case True
  then have "st' = st" "h' = h" "(status_of h st, ok) = Reserve (status_of h st) k limit now ttl"
    using assms(1) unfolding Reserve_h_def Reserve_def Used_h_eq by (auto simp: reservations_of split: if_splits)
  with assms(2) show ?thesis by simp
next
  case False
  obtain out h1 where dc: "DeepCopy_h st h = (out, h1)" by fastforce
  note copy = DeepCopy_h_spec [OF dc assms(2)]
  let ?r = "\<lparr>Key = k, ExpiresAt = now + ttl\<rparr>"
  obtain rs h2 where ap: "append_go grow zero_Reservation (h_Reservations out) ?r h1 = (rs, h2)" by fastforce
  have "elems h2 rs = elems h1 (h_Reservations out) @ [?r] \<and> valid_slice h2 rs \<and> keeps h h2"
    using append_go_spec [OF ap, of h] copy by (auto simp: valid_status_def split: option.splits)
  moreover have out: "st' = out\<lparr>h_Reservations := rs\<rparr>" "ok" "h' = h2"
    using assms(1) False dc ap by (simp_all add: Reserve_h_def Used_h_eq reservations_of)
  moreover have "Reserve (status_of h st) k limit now ttl =
      ((status_of h st)\<lparr>Reservations := Reservations (status_of h st) @ [?r]\<rparr>, True)"
    using False by (simp add: Reserve_def Let_def)
  moreover have "status_of h2 (out\<lparr>h_Reservations := rs\<rparr>) = (status_of h1 out)\<lparr>Reservations := elems h2 rs\<rparr>"
    by (simp add: status_of_def)
  moreover have "elems h1 (h_Reservations out) = elems h (h_Reservations st)"
    using copy reservations_of by metis
  ultimately show ?thesis using copy by (simp add: valid_status_def reservations_of)
qed

section \<open>The property\<close>

text \<open>
  C10. The ledger operations do not write into the status they are given. On slices with shared arrays
  each computes the result of the list functions, and every array that existed before keeps its
  content, so the copy of the old status \<open>Apply\<close> compares the result with (which shares the
  array) still holds the old value, and the comparison says whether the mutation changed anything.
\<close>

theorem mutations_spare_shared_arrays:
  assumes "valid_status h st"
  shows "(\<forall>st' h'. Sweep_h grow st now h = (st', h') \<longrightarrow>
      status_of h' st' = Sweep (status_of h st) now \<and> status_of h' st = status_of h st) \<and>
    (\<forall>st' h'. FoldConfirmed_h grow st n ks h = (st', h') \<longrightarrow>
      status_of h' st' = FoldConfirmed (status_of h st) n ks \<and> status_of h' st = status_of h st) \<and>
    (\<forall>st' ok h'. Reserve_h grow st k limit now ttl h = ((st', ok), h') \<longrightarrow>
      (status_of h' st', ok) = Reserve (status_of h st) k limit now ttl \<and> status_of h' st = status_of h st)"
  using Sweep_h_refines [OF _ assms] FoldConfirmed_h_refines [OF _ assms] Reserve_h_refines [OF _ assms]
    keeps_status [OF _ assms] by blast

text \<open>A status whose array has spare room, where an in-place \<open>append\<close> would be possible.\<close>

definition demo_heap :: rheap where
  "demo_heap = \<lparr>hp_arr = (\<lambda>a. if a = 0 then [\<lparr>Key = ''a'', ExpiresAt = 5\<rparr>, \<lparr>Key = ''b'', ExpiresAt = 50\<rparr>, zero_Reservation] else []),
     hp_next = 1\<rparr>"

definition demo_status :: hStatus where
  "demo_status = \<lparr>h_Confirmed = 0, h_Reservations = Some \<lparr>sl_base = 0, sl_len = 2\<rparr>\<rparr>"

theorem mutations_spare_shared_arrays_witness:
  "let (st', h') = Sweep_h (\<lambda>_. 0) demo_status 10 demo_heap in
     map Key (Reservations (status_of h' demo_status)) = [''a'', ''b''] \<and>
     map Key (Reservations (status_of h' st')) = [''b'']"
proof -
  have v: "valid_status demo_heap demo_status"
    by (simp add: valid_status_def valid_slice_def demo_heap_def demo_status_def)
  obtain st' h' where r: "Sweep_h (\<lambda>_. 0) demo_status 10 demo_heap = (st', h')" by fastforce
  from mutations_spare_shared_arrays [OF v, THEN conjunct1, rule_format, OF r]
  have "status_of h' st' = Sweep (status_of demo_heap demo_status) 10" "status_of h' demo_status = status_of demo_heap demo_status"
    by blast+
  moreover have "status_of demo_heap demo_status =
      \<lparr>Confirmed = 0, Reservations = [\<lparr>Key = ''a'', ExpiresAt = 5\<rparr>, \<lparr>Key = ''b'', ExpiresAt = 50\<rparr>]\<rparr>"
    by (simp add: status_of_def elems_def demo_heap_def demo_status_def)
  ultimately show ?thesis by (simp add: r Sweep_def live_at_def Let_def)
qed

end
