(* ===== verification/Settling.thy ===== *)
theory Settling
  imports Prelude
begin

text \<open>
  The interface of a component that comes to rest by itself: steps that each use up some of a
  finite amount of work and keep the component in the states they are understood in. The
  accounting manager and the webhook's mirror of the quotas provide it.
\<close>

definition at_rest :: "('s \<Rightarrow> 's \<Rightarrow> bool) \<Rightarrow> 's \<Rightarrow> bool" where
  "at_rest step s \<longleftrightarrow> (\<forall>s'. \<not> step s s')"

locale settling =
  fixes step :: "'s \<Rightarrow> 's \<Rightarrow> bool" and good :: "'s \<Rightarrow> bool" and work :: "'s \<Rightarrow> nat"
  assumes uses_up: "good s \<Longrightarrow> step s s' \<Longrightarrow> work s' < work s"
    and keeps_good: "good s \<Longrightarrow> step s s' \<Longrightarrow> good s'"
begin

lemma path_good: "step\<^sup>*\<^sup>* s s' \<Longrightarrow> good s \<Longrightarrow> good s'"
  by (induction rule: rtranclp_induct) (auto intro: keeps_good)

lemma path_work: "(step ^^ n) s s' \<Longrightarrow> good s \<Longrightarrow> n + work s' \<le> work s"
proof (induction n arbitrary: s')
  case (Suc n)
  then obtain s1 where path: "(step ^^ n) s s1" and last: "step s1 s'" by auto
  have "good s1" using relpowp_imp_rtranclp [OF path] Suc.prems(2) by (rule path_good)
  from uses_up [OF this last] Suc.IH [OF path Suc.prems(2)] show ?case by simp
qed simp

lemma path_bound: "good s \<Longrightarrow> (step ^^ n) s s' \<Longrightarrow> n \<le> work s"
  using path_work by fastforce

lemma comes_to_rest: "good s \<Longrightarrow> \<exists>s'. step\<^sup>*\<^sup>* s s' \<and> at_rest step s'"
proof (induction "work s" arbitrary: s rule: less_induct)
  case less
  show ?case
  proof (cases "at_rest step s")
    case False
    then obtain s1 where step: "step s s1" by (auto simp: at_rest_def)
    from less.hyps [OF uses_up [OF less.prems step] keeps_good [OF less.prems step]] step
    show ?thesis by (meson converse_rtranclp_into_rtranclp)
  qed blast
qed

lemma no_infinite_run: "good (f 0) \<Longrightarrow> \<exists>i. \<not> step (f i) (f (Suc i))"
proof (rule ccontr)
  assume good: "good (f 0)" and run: "\<nexists>i. \<not> step (f i) (f (Suc i))"
  then have "(step ^^ n) (f 0) (f n)" for n by (induction n) auto
  from path_bound [OF good this [of "Suc (work (f 0))"]] show False by simp
qed

end

end
