(* ===== verification/Lifecycle_Progress.thy ===== *)
theory Lifecycle_Progress
  imports Lifecycle_Properties Settling
begin

text \<open>
  Progress of the accounting manager: a governed export some quota references is served, being
  started or about to be retried, as long as starts return promptly and no failing start takes
  the references of other quotas with it; and without further events and faults the manager comes
  to rest, with every referenced export served.
\<close>

section \<open>No referenced export is left alone\<close>

definition attended :: "lifecycle \<Rightarrow> string \<Rightarrow> bool" where
  "attended \<sigma> k \<longleftrightarrow> am_sets (lc_am \<sigma>) k \<noteq> None \<or> before_registration (lc_worker \<sigma>) (lc_gos \<sigma>) k \<or>
     (\<exists>i. lc_gos \<sigma> i = RetryWait k)"

definition all_attended :: "lifecycle \<Rightarrow> bool" where
  "all_attended \<sigma> \<longleftrightarrow> (\<forall>k. refs_of (lc_am \<sigma>) k \<noteq> {} \<longrightarrow> attended \<sigma> k)"

text \<open>A start that has registered its set, lost it again and not returned yet.\<close>

definition late :: "lifecycle \<Rightarrow> string \<Rightarrow> bool" where
  "late \<sigma> k \<longleftrightarrow> am_sets (lc_am \<sigma>) k = None \<and>
     ((\<exists>c. lc_worker \<sigma> = WStarted c k) \<or> (\<exists>i. lc_gos \<sigma> i = RetryStarted k))"

text \<open>
  The two conditions on a step. A start returns before its key is referenced anew or a retry of
  the key wakes (the shortest retry delay is 5 s, and what is left of the start is one section under
  the mutex); and a start of the worker fails only when its quota is alone in referencing the
  key.
\<close>

definition prompt :: "lifecycle \<Rightarrow> lifecycle \<Rightarrow> bool" where
  "prompt \<sigma> \<sigma>' \<longleftrightarrow> (\<forall>k. late \<sigma> k \<longrightarrow> (refs_of (lc_am \<sigma>') k \<noteq> {} \<longrightarrow> refs_of (lc_am \<sigma>) k \<noteq> {}) \<and>
     (\<forall>i. lc_gos \<sigma> i = RetryWait k \<longrightarrow> lc_gos \<sigma>' i = RetryWait k))"

definition fails_alone :: "lifecycle \<Rightarrow> lifecycle \<Rightarrow> bool" where
  "fails_alone \<sigma> \<sigma>' \<longleftrightarrow> (\<forall>c k. lc_worker \<sigma> = WStarting c k \<longrightarrow> lc_worker \<sigma>' = WIdle \<longrightarrow> refs_of (lc_am \<sigma>) k \<subseteq> {c})"

definition fair_step :: "map_range \<Rightarrow> lifecycle \<Rightarrow> lifecycle \<Rightarrow> bool" where
  "fair_step ord \<sigma> \<sigma>' \<longleftrightarrow> life_step ord \<sigma> \<sigma>' \<and> prompt \<sigma> \<sigma>' \<and> fails_alone \<sigma> \<sigma>'"

definition fair_reach :: "map_range \<Rightarrow> lifecycle \<Rightarrow> bool" where
  "fair_reach ord \<sigma> \<longleftrightarrow> (fair_step ord)\<^sup>*\<^sup>* life_init \<sigma>"

lemma fair_life: "fair_reach ord \<sigma> \<Longrightarrow> life_reach ord \<sigma>"
  unfolding fair_reach_def life_reach_def by (erule rtranclp_mono [THEN predicate2D, rotated]) (auto simp: fair_step_def)

text \<open>The sections of the code and what they do to sets and references.\<close>

lemma dropRef_attended:
  assumes "enumerates ord" and "refs_inv a" and "refs_of (dropRefLocked ord c keep a) k \<noteq> {}"
  shows "refs_of a k \<noteq> {} \<and> am_sets (dropRefLocked ord c keep a) k = am_sets a k"
  using assms(3) dropRef_effect(1,3) [OF assms(1,2), of c keep k]
  by (auto simp: last_ref_def split: if_splits)

lemma Ensure_enter_sets:
  assumes ord: "enumerates ord" and inv: "refs_inv a" and en: "Ensure_enter ord pc cq a = (go, a')"
    and refs: "refs_of a' k \<noteq> {}"
  shows "am_sets a' k = am_sets a k \<and> (k \<noteq> quota_key cq \<longrightarrow> refs_of a k \<noteq> {}) \<and>
    (go \<longleftrightarrow> am_sets a (quota_key cq) = None \<and> quota_key cq \<notin> am_starting a) "
proof -
  let ?key = "quota_key cq" and ?c = "cq_ref pc (cq_Name cq)"
  let ?d = "dropRefLocked ord ?c ?key a"
  have sets: "am_sets a' = am_sets ?d" and go: "go \<longleftrightarrow> am_sets ?d ?key = None \<and> ?key \<notin> am_starting ?d"
    using en by (auto simp: Ensure_enter_eq Let_def split: if_splits)
  have r: "refs_of a' k = (if k = ?key then insert ?c (refs_of a k) else refs_of a k - {?c})"
    using Ensure_enter_refs [OF ord inv, of pc cq k] en by simp
  have "am_sets ?d ?key = am_sets a ?key" "am_starting ?d = am_starting a"
    using dropRef_effect(3,5) [OF ord inv] by (auto simp: last_ref_def)
  moreover have "am_sets ?d k = am_sets a k"
    using dropRef_effect(3) [OF ord inv, of ?c ?key k] r refs by (auto simp: last_ref_def split: if_splits)
  ultimately show ?thesis using sets go r refs by auto
qed

text \<open>A start under way: before its registration, or late, or registered.\<close>

lemma starting_cases:
  assumes inv: "start_inv (lc_am \<sigma>) (lc_worker \<sigma>) (lc_gos \<sigma>)" and k: "k \<in> am_starting (lc_am \<sigma>)"
  shows "before_registration (lc_worker \<sigma>) (lc_gos \<sigma>) k \<or> late \<sigma> k \<or> am_sets (lc_am \<sigma>) k \<noteq> None"
proof -
  obtain x where x: "starts (lc_worker \<sigma>) (lc_gos \<sigma>) k x" using start_active [OF inv] k by blast
  show ?thesis
  proof (cases x)
    case None
    with x show ?thesis by (cases "lc_worker \<sigma>") (auto simp: before_registration_def late_def)
  next
    case (Some i)
    with x show ?thesis by (cases "lc_gos \<sigma> i") (auto simp: before_registration_def late_def)
  qed
qed


text \<open>Threads other than the one that moved keep their part.\<close>

lemma attendedI:
  "am_sets (lc_am \<sigma>) k \<noteq> None \<Longrightarrow> attended \<sigma> k" "lc_gos \<sigma> i = RetryWait k \<Longrightarrow> attended \<sigma> k"
  "lc_gos \<sigma> i = RetryStarting k \<Longrightarrow> attended \<sigma> k" "lc_worker \<sigma> = WStarting c k \<Longrightarrow> attended \<sigma> k"
  by (auto simp: attended_def before_registration_def)

lemma attendedE:
  assumes "attended \<sigma> k"
  obtains (running) inst where "am_sets (lc_am \<sigma>) k = Some inst" | (worker) c where "lc_worker \<sigma> = WStarting c k"
    | (retrying) i where "lc_gos \<sigma> i = RetryWait k \<or> lc_gos \<sigma> i = RetryStarting k"
  using assms by (auto simp: attended_def before_registration_def)

text \<open>Whoever attends to the key still does, thread by thread.\<close>

lemma attended_kept:
  assumes "attended \<sigma> k" and "am_sets (lc_am \<sigma>) k \<noteq> None \<Longrightarrow> am_sets (lc_am \<sigma>') k \<noteq> None \<or> attended \<sigma>' k"
    and "\<And>c. lc_worker \<sigma> = WStarting c k \<Longrightarrow> lc_worker \<sigma>' = WStarting c k \<or> attended \<sigma>' k"
    and "\<And>i. lc_gos \<sigma> i = RetryWait k \<or> lc_gos \<sigma> i = RetryStarting k \<Longrightarrow> lc_gos \<sigma>' i = lc_gos \<sigma> i \<or> attended \<sigma>' k"
  shows "attended \<sigma>' k"
  using assms(1)
proof (cases rule: attendedE)
  case (running inst)
  then show ?thesis using assms(2) attendedI(1) by auto
next
  case (worker c)
  then show ?thesis using assms(3) attendedI(4) by blast
next
  case (retrying i)
  then show ?thesis using assms(4) attendedI(2,3) by metis
qed

lemma ensure_attended:
  assumes ord: "enumerates ord" and inv: "life_inv \<sigma>" and all: "all_attended \<sigma>" and idle: "lc_worker \<sigma> = WIdle"
    and en: "Ensure_enter ord pc cq (lc_am \<sigma>) = (go, a)"
    and am: "lc_am \<sigma>' = a" and gos: "lc_gos \<sigma>' = lc_gos \<sigma>"
    and w: "go \<Longrightarrow> \<exists>c. lc_worker \<sigma>' = WStarting c (quota_key cq)" and prompt: "prompt \<sigma> \<sigma>'"
  shows "all_attended \<sigma>'"
  unfolding all_attended_def am
proof (intro allI impI)
  fix k
  assume refs: "refs_of a k \<noteq> {}"
  have ri: "refs_inv (lc_am \<sigma>)" and si: "start_inv (lc_am \<sigma>) (lc_worker \<sigma>) (lc_gos \<sigma>)" using inv by (simp_all add: life_inv_def)
  note e = Ensure_enter_sets [OF ord ri en refs]
  have keep: "attended \<sigma>' k" if "attended \<sigma> k"
    using that by (rule attended_kept) (use e am gos idle in \<open>auto intro: attendedI\<close>)
  show "attended \<sigma>' k"
  proof (cases "refs_of (lc_am \<sigma>) k = {}")
    case False
    then show ?thesis using all keep by (simp add: all_attended_def)
  next
    case True
    then have k: "k = quota_key cq" using e by auto
    consider "go" | "am_sets (lc_am \<sigma>) k \<noteq> None" | "k \<in> am_starting (lc_am \<sigma>)" by (metis e k)
    then show ?thesis
    proof cases
      case 1
      then show ?thesis using w k attendedI(4) by auto
    next
      case 2
      then show ?thesis using keep attendedI(1) by blast
    next
      case 3
      have "\<not> late \<sigma> k" using prompt True refs am by (auto simp: prompt_def)
      with starting_cases [OF si 3] have "attended \<sigma> k" by (auto simp: attended_def)
      then show ?thesis by (rule keep)
    qed
  qed
qed

lemma drop_attended:
  assumes ord: "enumerates ord" and ri: "refs_inv (lc_am \<sigma>)" and all: "all_attended \<sigma>"
    and am: "lc_am \<sigma>' = dropRefLocked ord c keep (lc_am \<sigma>)" and gos: "lc_gos \<sigma>' = lc_gos \<sigma>"
    and w: "lc_worker \<sigma>' = lc_worker \<sigma>"
  shows "all_attended \<sigma>'"
  unfolding all_attended_def am
proof (intro allI impI)
  fix k assume "refs_of (dropRefLocked ord c keep (lc_am \<sigma>)) k \<noteq> {}"
  from dropRef_attended [OF ord ri this] all am gos w show "attended \<sigma>' k"
    by (auto simp: all_attended_def attended_def)
qed


text \<open>The worker's key is never the empty \<open>keepKey\<close> of a removal.\<close>

definition worker_named :: "lifecycle \<Rightarrow> bool" where
  "worker_named \<sigma> \<longleftrightarrow> (\<forall>c. lc_worker \<sigma> \<noteq> WStarting c [])"

lemma worker_named_step: "life_step ord \<sigma> \<sigma>' \<Longrightarrow> worker_named \<sigma> \<Longrightarrow> worker_named \<sigma>'"
  by (induction rule: life_step.induct) (simp_all add: worker_named_def quota_key_def accountingKey_def)

text \<open>A step that leaves the references alone.\<close>

lemma moved_attended:
  assumes all: "all_attended \<sigma>" and refs: "refs_of (lc_am \<sigma>') = refs_of (lc_am \<sigma>)"
    and keep: "\<And>k. attended \<sigma> k \<Longrightarrow> refs_of (lc_am \<sigma>) k \<noteq> {} \<Longrightarrow> attended \<sigma>' k"
  shows "all_attended \<sigma>'"
  using all refs keep by (simp add: all_attended_def)

lemma sections_refs [simp]: "refs_of (snd (register_set k a)) = refs_of a" "refs_of (snd (runner_exit inst k a)) = refs_of a"
  "refs_of (snd (retry_enter k a)) = refs_of a" "refs_of (retry_exit k a) = refs_of a"
  "refs_of (Ensure_exit ord None c k a) = refs_of a"
  by (auto simp: register_set_def runner_exit_def retry_enter_def retry_exit_def Ensure_exit_def refs_of_def Let_def fun_eq_iff)

lemma failed_attended:
  assumes ord: "enumerates ord" and ri: "refs_inv (lc_am \<sigma>)" and all: "all_attended \<sigma>"
    and w: "lc_worker \<sigma> = WStarting c k" and k: "k \<noteq> []" and alone: "refs_of (lc_am \<sigma>) k \<subseteq> {c}"
    and \<sigma>': "\<sigma>' = \<sigma>\<lparr>lc_am := Ensure_exit ord (Some err) c k (lc_am \<sigma>), lc_worker := WIdle\<rparr>"
  shows "all_attended \<sigma>'"
proof -
  let ?a = "(lc_am \<sigma>)\<lparr>am_starting := am_starting (lc_am \<sigma>) - {k}\<rparr>"
  have ri': "refs_inv ?a" using ri by simp
  have am: "lc_am \<sigma>' = dropRefLocked ord c [] ?a" by (simp add: \<sigma>' Ensure_exit_def)
  show ?thesis unfolding all_attended_def am
  proof (intro allI impI)
    fix k' assume refs: "refs_of (dropRefLocked ord c [] ?a) k' \<noteq> {}"
    note d = dropRef_attended [OF ord ri' refs]
    have "k' \<noteq> k" using refs dropRef_effect(1) [OF ord ri', of c "[]" k'] alone k by auto
    moreover have "attended \<sigma> k'" using all d by (simp add: all_attended_def)
    ultimately show "attended \<sigma>' k'"
      using d w am by (auto simp: attended_def before_registration_def \<sigma>')
  qed
qed

lemma before_registration_upd:
  assumes "g i = RetryWait k0" and "before_registration w g k"
  shows "before_registration w (g(i := x)) k"
proof -
  have "(g(i := x)) j = RetryStarting k" if "g j = RetryStarting k" for j
    using that assms(1) by (cases "j = i") simp_all
  with assms(2) show ?thesis unfolding before_registration_def by blast
qed

lemma fair_step_attended:
  assumes ord: "enumerates ord" and step: "life_step ord \<sigma> \<sigma>'" and inv: "life_inv \<sigma>" and named: "worker_named \<sigma>"
    and fair: "prompt \<sigma> \<sigma>'" "fails_alone \<sigma> \<sigma>'" and all: "all_attended \<sigma>"
  shows "all_attended \<sigma>'"
  using step
proof cases
  case (ensure_joins pc cq a)
  then show ?thesis using ensure_attended [OF ord inv all _ ensure_joins(3)] fair(1) by simp
next
  case (ensure_starts pc cq a)
  then show ?thesis using ensure_attended [OF ord inv all _ ensure_starts(3)] fair(1) by simp
next
  case (start_registers c k i inst a)
  then have am: "lc_am \<sigma>' = snd (register_set k (lc_am \<sigma>))" by simp
  show ?thesis
  proof (rule moved_attended [OF all])
    fix k' assume "attended \<sigma> k'"
    then show "attended \<sigma>' k'"
      by (rule attended_kept) (use start_registers(2,3) am in \<open>auto simp: start_registers(1) register_set_def attended_def\<close>)
  qed (simp add: am)
next
  case (start_fails c k err)
  then show ?thesis
    using failed_attended [OF ord _ all, of c k] inv named fair(2)
    by (auto simp: life_inv_def worker_named_def fails_alone_def)
next
  case (start_returns c k)
  show ?thesis
    by (rule moved_attended [OF all]) (auto simp: start_returns Ensure_exit_def attended_def before_registration_def)
next
  case (removes pc cqName)
  then show ?thesis using drop_attended [OF ord _ all, of \<sigma>'] inv by (simp add: Remove_def life_inv_def)
next
  case (runner_stops i inst k again a)
  then have a: "a = snd (runner_exit inst k (lc_am \<sigma>))" by simp
  have gone: "again" if "am_sets a k \<noteq> am_sets (lc_am \<sigma>) k" "refs_of (lc_am \<sigma>) k \<noteq> {}"
    using runner_stops(3) that by (auto simp: runner_exit_def Let_def split: if_splits)
  have same: "am_sets a k' = am_sets (lc_am \<sigma>) k'" if "k' \<noteq> k" for k'
    using that by (simp add: a runner_exit_def Let_def)
  show ?thesis
  proof (rule moved_attended [OF all])
    fix k' assume at: "attended \<sigma> k'" and refs: "refs_of (lc_am \<sigma>) k' \<noteq> {}"
    show "attended \<sigma>' k'"
    proof (cases "am_sets a k' = am_sets (lc_am \<sigma>) k'")
      case True
      with at runner_stops(2) show ?thesis
        by (intro attended_kept [OF at]) (auto simp: runner_stops(1))
    next
      case False
      then have "k' = k" using same by blast
      with gone False refs show ?thesis by (auto simp: runner_stops(1) attended_def)
    qed
  qed (simp add: runner_stops(1) a)
next
  case (retry_wakes i k go a)
  have si: "start_inv (lc_am \<sigma>) (lc_worker \<sigma>) (lc_gos \<sigma>)" using inv by (simp add: life_inv_def)
  have a: "a = snd (retry_enter k (lc_am \<sigma>))" using retry_wakes(3) by simp
  have sets: "am_sets a = am_sets (lc_am \<sigma>)" by (simp add: a retry_enter_def)
  show ?thesis
  proof (rule moved_attended [OF all])
    fix k' assume at: "attended \<sigma> k'" and refs: "refs_of (lc_am \<sigma>) k' \<noteq> {}"
    show "attended \<sigma>' k'"
    proof (cases "k' = k \<and> \<not> go")
      case False
      with at retry_wakes(2) sets show ?thesis
        by (intro attended_kept [OF at]) (auto simp: retry_wakes(1) attended_def before_registration_def)
    next
      case True
      then have "am_sets (lc_am \<sigma>) k \<noteq> None \<or> k \<in> am_starting (lc_am \<sigma>)"
        using retry_wakes(3) refs by (auto simp: retry_enter_def split: if_splits)
      moreover have "\<not> late \<sigma> k"
        using fair(1) retry_wakes(1,2) True by (auto simp: prompt_def split: if_splits)
      ultimately have "before_registration (lc_worker \<sigma>) (lc_gos \<sigma>) k \<or> am_sets (lc_am \<sigma>) k \<noteq> None"
        using starting_cases [OF si] by blast
      then show ?thesis
      proof (elim disjE)
        assume "before_registration (lc_worker \<sigma>) (lc_gos \<sigma>) k"
        then have "before_registration (lc_worker \<sigma>') (lc_gos \<sigma>') k"
          using before_registration_upd [where g = "lc_gos \<sigma>", OF retry_wakes(2)] by (simp add: retry_wakes(1))
        then show ?thesis using True by (simp add: attended_def)
      next
        assume "am_sets (lc_am \<sigma>) k \<noteq> None"
        then show ?thesis using True sets by (simp add: retry_wakes(1) attended_def)
      qed
    qed
  qed (simp add: retry_wakes(1) a)
next
  case (retry_registers i k j inst a)
  then have am: "lc_am \<sigma>' = snd (register_set k (lc_am \<sigma>))" by simp
  show ?thesis
  proof (rule moved_attended [OF all])
    fix k' assume "attended \<sigma> k'"
    then show "attended \<sigma>' k'"
      by (rule attended_kept) (use retry_registers(2,3) am in \<open>auto simp: retry_registers(1) register_set_def attended_def\<close>)
  qed (simp add: am)
next
  case (retry_fails i k)
  show ?thesis
  proof (rule moved_attended [OF all])
    fix k' assume "attended \<sigma> k'"
    then show "attended \<sigma>' k'"
      by (rule attended_kept) (use retry_fails(2) in \<open>auto simp: retry_fails(1) retry_exit_def attended_def\<close>)
  qed (simp add: retry_fails(1))
next
  case (retry_returns i k)
  show ?thesis
  proof (rule moved_attended [OF all])
    fix k' assume "attended \<sigma> k'"
    then show "attended \<sigma>' k'"
      by (rule attended_kept) (use retry_returns(2) in \<open>auto simp: retry_returns(1) retry_exit_def attended_def\<close>)
  qed (simp add: retry_returns(1))
qed

lemma fair_reach_attended:
  assumes ord: "enumerates ord" and reach: "fair_reach ord \<sigma>"
  shows "all_attended \<sigma> \<and> worker_named \<sigma>"
  using reach unfolding fair_reach_def
proof (induction rule: rtranclp_induct)
  case base
  then show ?case by (simp add: all_attended_def worker_named_def life_init_def newAccountingManager_def refs_of_def)
next
  case (step \<sigma> \<sigma>')
  have "life_inv \<sigma>" using ord step.hyps(1) by (intro life_reach_inv fair_life) (simp_all add: fair_reach_def)
  with step show ?case
    using fair_step_attended [OF ord] worker_named_step by (auto simp: fair_step_def)
qed


section \<open>Coming to rest\<close>

text \<open>
  The steps the manager takes by itself when nothing fails: starts register and return, cancelled
  sets stop, retries wake (once a late start of their key is over) and restart.
\<close>

inductive quiet_step :: "lifecycle \<Rightarrow> lifecycle \<Rightarrow> bool" where
  quiet_registers: "lc_worker \<sigma> = WStarting c k \<Longrightarrow> lc_gos \<sigma> i = GNone \<Longrightarrow> register_set k (lc_am \<sigma>) = (inst, a) \<Longrightarrow>
    quiet_step \<sigma> (\<sigma>\<lparr>lc_am := a, lc_worker := WStarted c k, lc_gos := (lc_gos \<sigma>)(i := Runner inst k)\<rparr>)"
| quiet_returns: "lc_worker \<sigma> = WStarted c k \<Longrightarrow>
    quiet_step \<sigma> (\<sigma>\<lparr>lc_am := retry_exit k (lc_am \<sigma>), lc_worker := WIdle\<rparr>)"
| quiet_stops: "lc_gos \<sigma> i = Runner inst k \<Longrightarrow> inst \<in> am_cancelled (lc_am \<sigma>) \<Longrightarrow>
    runner_exit inst k (lc_am \<sigma>) = (again, a) \<Longrightarrow>
    quiet_step \<sigma> (\<sigma>\<lparr>lc_am := a, lc_gos := (lc_gos \<sigma>)(i := if again then RetryWait k else GNone)\<rparr>)"
| quiet_wakes: "lc_gos \<sigma> i = RetryWait k \<Longrightarrow> \<not> late \<sigma> k \<Longrightarrow> retry_enter k (lc_am \<sigma>) = (go, a) \<Longrightarrow>
    quiet_step \<sigma> (\<sigma>\<lparr>lc_am := a, lc_gos := (lc_gos \<sigma>)(i := if go then RetryStarting k else GNone)\<rparr>)"
| quiet_restarts: "lc_gos \<sigma> i = RetryStarting k \<Longrightarrow> lc_gos \<sigma> j = GNone \<Longrightarrow> register_set k (lc_am \<sigma>) = (inst, a) \<Longrightarrow>
    quiet_step \<sigma> (\<sigma>\<lparr>lc_am := a, lc_gos := (lc_gos \<sigma>)(i := RetryStarted k, j := Runner inst k)\<rparr>)"
| quiet_restarted: "lc_gos \<sigma> i = RetryStarted k \<Longrightarrow>
    quiet_step \<sigma> (\<sigma>\<lparr>lc_am := retry_exit k (lc_am \<sigma>), lc_gos := (lc_gos \<sigma>)(i := GNone)\<rparr>)"

lemma quiet_life: "quiet_step \<sigma> \<sigma>' \<Longrightarrow> life_step ord \<sigma> \<sigma>'"
proof (induction rule: quiet_step.induct)
  case (quiet_returns \<sigma> c k)
  have "Ensure_exit ord None c k (lc_am \<sigma>) = retry_exit k (lc_am \<sigma>)" by (simp add: Ensure_exit_def retry_exit_def)
  with start_returns [OF quiet_returns, of ord] show ?case by simp
qed (rule life_step.intros; assumption)+

lemma quiet_fair: "quiet_step \<sigma> \<sigma>' \<Longrightarrow> fair_step ord \<sigma> \<sigma>'"
proof -
  assume q: "quiet_step \<sigma> \<sigma>'"
  from q have "prompt \<sigma> \<sigma>' \<and> fails_alone \<sigma> \<sigma>'"
  proof cases
    case (quiet_registers c k i inst a)
    then have "refs_of a = refs_of (lc_am \<sigma>)" using sections_refs(1) [of k "lc_am \<sigma>"] by simp
    then show ?thesis using quiet_registers by (auto simp: prompt_def fails_alone_def)
  next
    case (quiet_stops i inst k again a)
    then have "refs_of a = refs_of (lc_am \<sigma>)" using sections_refs(2) [of inst k "lc_am \<sigma>"] by simp
    then show ?thesis using quiet_stops by (auto simp: prompt_def fails_alone_def)
  next
    case (quiet_wakes i k go a)
    then have "refs_of a = refs_of (lc_am \<sigma>)" using sections_refs(3) [of k "lc_am \<sigma>"] by simp
    then show ?thesis using quiet_wakes by (auto simp: prompt_def fails_alone_def)
  next
    case (quiet_restarts i k j inst a)
    then have "refs_of a = refs_of (lc_am \<sigma>)" using sections_refs(1) [of k "lc_am \<sigma>"] by simp
    then show ?thesis using quiet_restarts by (auto simp: prompt_def fails_alone_def)
  qed (auto simp: prompt_def fails_alone_def)
  then show ?thesis using quiet_life [OF q] by (simp add: fair_step_def)
qed

lemma quiet_fair_reach: "fair_reach ord \<sigma> \<Longrightarrow> quiet_step\<^sup>*\<^sup>* \<sigma> \<sigma>' \<Longrightarrow> fair_reach ord \<sigma>'"
  unfolding fair_reach_def
  by (rotate_tac, induction rule: rtranclp_induct) (auto intro: rtranclp.rtrancl_into_rtrancl quiet_fair)

text \<open>Finitely many goroutines at any time.\<close>

definition busy :: "(nat \<Rightarrow> gor) \<Rightarrow> nat set" where
  "busy g = {i. g i \<noteq> GNone}"

lemma busy_upd: "busy (g(i := x)) \<subseteq> insert i (busy g)"
  by (auto simp: busy_def)

lemma finite_busy_upd: "finite (busy g) \<Longrightarrow> finite (busy (g(i := x)))"
  using busy_upd finite_subset by (metis finite_insert)

lemma life_busy: "life_reach ord \<sigma> \<Longrightarrow> finite (busy (lc_gos \<sigma>))"
  unfolding life_reach_def
proof (induction rule: rtranclp_induct)
  case base
  then show ?case by (simp add: life_init_def busy_def)
next
  case (step \<sigma> \<sigma>')
  from step.hyps(2) step.IH show ?case by cases (simp_all add: finite_busy_upd del: fun_upd_apply)
qed

lemma free_slot: "finite (busy g) \<Longrightarrow> \<exists>i. g i = GNone"
  using ex_new_if_finite [of "busy g"] by (auto simp: busy_def)

text \<open>How many quiet steps are left to the worker and to each goroutine.\<close>

fun worker_work :: "worker \<Rightarrow> nat" where
  "worker_work WIdle = 0"
| "worker_work (WStarting c k) = 2"
| "worker_work (WStarted c k) = 1"

fun go_work :: "nat set \<Rightarrow> gor \<Rightarrow> nat" where
  "go_work C GNone = 0"
| "go_work C (Runner inst k) = (if inst \<in> C then 1 else 0)"
| "go_work C (RetryWait k) = 3"
| "go_work C (RetryStarting k) = 2"
| "go_work C (RetryStarted k) = 1"

definition work :: "lifecycle \<Rightarrow> nat" where
  "work \<sigma> = worker_work (lc_worker \<sigma>) + (\<Sum>i \<in> busy (lc_gos \<sigma>). go_work (am_cancelled (lc_am \<sigma>)) (lc_gos \<sigma> i))"

lemma go_work_upd:
  assumes "finite (busy g)"
  shows "(\<Sum>j \<in> busy (g(i := x)). go_work C ((g(i := x)) j)) + go_work C (g i) =
    (\<Sum>j \<in> busy g. go_work C (g j)) + go_work C x"
proof -
  let ?A = "insert i (busy g)"
  have "(\<Sum>j \<in> busy (g(i := x)). go_work C ((g(i := x)) j)) = (\<Sum>j \<in> ?A. go_work C ((g(i := x)) j))"
    using assms busy_upd [of g i x] by (intro sum.mono_neutral_left) (auto simp: busy_def)
  also have "\<dots> = go_work C x + (\<Sum>j \<in> ?A - {i}. go_work C (g j))"
    using assms by (subst sum.remove [of _ i]) (auto intro!: sum.cong)
  finally have 1: "(\<Sum>j \<in> busy (g(i := x)). go_work C ((g(i := x)) j)) =
      go_work C x + (\<Sum>j \<in> ?A - {i}. go_work C (g j))" .
  have "(\<Sum>j \<in> busy g. go_work C (g j)) = (\<Sum>j \<in> ?A. go_work C (g j))"
    using assms by (intro sum.mono_neutral_left) (auto simp: busy_def)
  also have "\<dots> = go_work C (g i) + (\<Sum>j \<in> ?A - {i}. go_work C (g j))"
    using assms by (subst sum.remove [of _ i]) auto
  finally show ?thesis using 1 by simp
qed


text \<open>Each quiet step is one of them.\<close>

lemma quiet_work:
  assumes step: "quiet_step \<sigma> \<sigma>'" and inv: "life_inv \<sigma>" and fin: "finite (busy (lc_gos \<sigma>))"
  shows "work \<sigma>' < work \<sigma>"
  using step
proof cases
  case (quiet_registers c k i inst a)
  have a: "am_cancelled a = am_cancelled (lc_am \<sigma>)" "inst = am_next (lc_am \<sigma>)"
    using quiet_registers(4) by (auto simp: register_set_def)
  have "inst \<notin> am_cancelled (lc_am \<sigma>)" using inv a(2) runner_cancelled by (fastforce simp: life_inv_def)
  with quiet_registers a go_work_upd [OF fin, of "am_cancelled (lc_am \<sigma>)" i "Runner inst k"] show ?thesis
    by (simp add: work_def del: fun_upd_apply)
next
  case (quiet_returns c k)
  then show ?thesis by (simp add: work_def retry_exit_def)
next
  case (quiet_stops i inst k again a)
  have "am_sets (lc_am \<sigma>) k \<noteq> Some inst" using inv quiet_stops(3) runner_registered by (auto simp: life_inv_def)
  then have a: "\<not> again" "am_cancelled a = am_cancelled (lc_am \<sigma>)"
    using quiet_stops(3,4) by (auto simp: runner_exit_def Let_def)
  then show ?thesis using quiet_stops go_work_upd [OF fin, of "am_cancelled (lc_am \<sigma>)" i GNone]
    by (simp add: work_def del: fun_upd_apply)
next
  case (quiet_wakes i k go a)
  have "am_cancelled a = am_cancelled (lc_am \<sigma>)" using quiet_wakes(4) by (auto simp: retry_enter_def split: if_splits)
  then show ?thesis using quiet_wakes go_work_upd [OF fin, of "am_cancelled (lc_am \<sigma>)" i GNone]
      go_work_upd [OF fin, of "am_cancelled (lc_am \<sigma>)" i "RetryStarting k"]
    by (cases go) (simp_all add: work_def del: fun_upd_apply)
next
  case (quiet_restarts i k j inst a)
  let ?C = "am_cancelled (lc_am \<sigma>)" and ?g = "(lc_gos \<sigma>)(i := RetryStarted k)"
  have a: "am_cancelled a = ?C" "inst = am_next (lc_am \<sigma>)"
    using quiet_restarts(4) by (auto simp: register_set_def)
  have "inst \<notin> ?C" using inv a(2) runner_cancelled by (fastforce simp: life_inv_def)
  moreover have "?g j = GNone" using quiet_restarts(2,3) by auto
  ultimately show ?thesis
    using quiet_restarts(1,2) a go_work_upd [OF fin, of ?C i "RetryStarted k"]
      go_work_upd [OF finite_busy_upd [OF fin, of i "RetryStarted k"], of ?C j "Runner inst k"]
    by (simp add: work_def del: fun_upd_apply)
next
  case (quiet_restarted i k)
  then show ?thesis using go_work_upd [OF fin, of "am_cancelled (lc_am \<sigma>)" i GNone]
    by (simp add: work_def retry_exit_def del: fun_upd_apply)
qed

interpretation accounting: settling quiet_step "\<lambda>\<sigma>. enumerates ord \<and> fair_reach ord \<sigma>" work for ord
proof
  fix \<sigma> \<sigma>' assume good: "enumerates ord \<and> fair_reach ord \<sigma>" and step: "quiet_step \<sigma> \<sigma>'"
  have life: "life_reach ord \<sigma>" using good fair_life by blast
  show "work \<sigma>' < work \<sigma>"
    using step life_reach_inv life_busy [OF life] good life by (intro quiet_work) blast+
  show "enumerates ord \<and> fair_reach ord \<sigma>'" using good quiet_fair_reach step by blast
qed

text \<open>Where no quiet step is left, nothing is under way.\<close>

lemma resting_threads:
  assumes rest: "at_rest quiet_step \<sigma>" and fin: "finite (busy (lc_gos \<sigma>))"
  shows "lc_worker \<sigma> = WIdle"
    and "lc_gos \<sigma> i = GNone \<or> (\<exists>inst k. lc_gos \<sigma> i = Runner inst k \<and> inst \<notin> am_cancelled (lc_am \<sigma>))"
proof -
  obtain j where free: "lc_gos \<sigma> j = GNone" using free_slot [OF fin] by blast
  have no: "\<not> quiet_step \<sigma> \<sigma>'" for \<sigma>' using rest by (simp add: at_rest_def)
  show worker: "lc_worker \<sigma> = WIdle"
    using no quiet_returns quiet_registers [OF _ free, unfolded register_set_def, OF _ refl]
    by (cases "lc_worker \<sigma>") blast+
  have started: "lc_gos \<sigma> l \<noteq> RetryStarted k" for l k using no quiet_restarted by blast
  then have "\<not> late \<sigma> k" for k using worker by (simp add: late_def)
  then have waiting: "lc_gos \<sigma> i \<noteq> RetryWait k" for k
    using no quiet_wakes by (metis surj_pair)
  show "lc_gos \<sigma> i = GNone \<or> (\<exists>inst k. lc_gos \<sigma> i = Runner inst k \<and> inst \<notin> am_cancelled (lc_am \<sigma>))"
  proof (cases "lc_gos \<sigma> i")
    case (Runner inst k)
    then show ?thesis using no quiet_stops by (metis surj_pair)
  next
    case (RetryStarting k)
    then show ?thesis using no quiet_restarts [OF RetryStarting free] by (metis surj_pair)
  qed (use waiting started in auto)
qed


section \<open>The properties\<close>

text \<open>
  C12. No referenced export is left alone: in every interleaving in which starts return before their
  key is referenced anew or retried, and the worker's start fails only for a quota that is alone
  in referencing its key, every key with a reference has a running set, or a start of it has
  not registered its set yet, or a retry of it is pending.
\<close>

theorem referenced_exports_attended:
  assumes "enumerates ord" and "fair_reach ord \<sigma>" and "refs_of (lc_am \<sigma>) k \<noteq> {}"
  shows "am_sets (lc_am \<sigma>) k \<noteq> None \<or> before_registration (lc_worker \<sigma>) (lc_gos \<sigma>) k \<or>
    (\<exists>i. lc_gos \<sigma> i = RetryWait k)"
  using fair_reach_attended [OF assms(1,2)] assms(3) by (simp add: all_attended_def attended_def)

text \<open>
  C13. The accounting manager comes to rest. From any state after a history in which starts return
  promptly and the start of an \<open>Ensure\<close> fails only for a lone quota (\<open>fair_reach\<close>), when no quota event
  arrives and nothing fails any more, it takes at most \<open>work\<close> more steps whatever their order; where no
  step is left, the worker and all retries are through, every referenced export is served by a
  registered set that is running and not cancelled, and every set that is running is the registered one
  of its export, be the export still referenced or not.
\<close>

theorem accounting_settles:
  assumes ord: "enumerates ord" and reach: "fair_reach ord \<sigma>"
  shows "(\<forall>n \<sigma>'. (quiet_step ^^ n) \<sigma> \<sigma>' \<longrightarrow> n \<le> work \<sigma>) \<and>
    (\<exists>\<sigma>'. quiet_step\<^sup>*\<^sup>* \<sigma> \<sigma>' \<and> at_rest quiet_step \<sigma>') \<and>
    (\<forall>\<sigma>'. quiet_step\<^sup>*\<^sup>* \<sigma> \<sigma>' \<and> at_rest quiet_step \<sigma>' \<longrightarrow> lc_worker \<sigma>' = WIdle \<and>
       (\<forall>k. refs_of (lc_am \<sigma>') k \<noteq> {} \<longrightarrow> (\<exists>inst i. am_sets (lc_am \<sigma>') k = Some inst \<and>
          lc_gos \<sigma>' i = Runner inst k \<and> inst \<notin> am_cancelled (lc_am \<sigma>'))) \<and>
       (\<forall>i. lc_gos \<sigma>' i = GNone \<or> (\<exists>inst k. lc_gos \<sigma>' i = Runner inst k \<and> am_sets (lc_am \<sigma>') k = Some inst)))"
proof (intro conjI allI impI)
  have good: "enumerates ord \<and> fair_reach ord \<sigma>" using ord reach by simp
  show "n \<le> work \<sigma>" if "(quiet_step ^^ n) \<sigma> \<sigma>'" for n \<sigma>'
    using good that by (rule accounting.path_bound)
  show "\<exists>\<sigma>'. quiet_step\<^sup>*\<^sup>* \<sigma> \<sigma>' \<and> at_rest quiet_step \<sigma>'" using good by (rule accounting.comes_to_rest)
next
  fix \<sigma>' assume path: "quiet_step\<^sup>*\<^sup>* \<sigma> \<sigma>' \<and> at_rest quiet_step \<sigma>'"
  then have reach': "fair_reach ord \<sigma>'" using quiet_fair_reach [OF reach] by blast
  have life: "life_reach ord \<sigma>'" using reach' by (rule fair_life)
  have ri: "runner_inv (lc_am \<sigma>') (lc_gos \<sigma>')" using life_reach_inv [OF ord life] by (simp add: life_inv_def)
  note threads = resting_threads [OF conjunct2 [OF path] life_busy [OF life]]
  show "lc_worker \<sigma>' = WIdle" by (rule threads(1))
  show "lc_gos \<sigma>' i = GNone \<or> (\<exists>inst k. lc_gos \<sigma>' i = Runner inst k \<and> am_sets (lc_am \<sigma>') k = Some inst)" for i
    using threads(2) [of i] runner_runs [OF ri] by blast
  fix k assume refs: "refs_of (lc_am \<sigma>') k \<noteq> {}"
  have gos: "lc_gos \<sigma>' i \<noteq> RetryWait k \<and> lc_gos \<sigma>' i \<noteq> RetryStarting k" for i using threads(2) [of i] by auto
  have "attended \<sigma>' k" using fair_reach_attended [OF ord reach'] refs by (simp add: all_attended_def)
  then obtain inst where "am_sets (lc_am \<sigma>') k = Some inst"
    using threads(1) gos by (auto elim: attendedE)
  with runner_registered [OF ri this] show "\<exists>inst i. am_sets (lc_am \<sigma>') k = Some inst \<and>
      lc_gos \<sigma>' i = Runner inst k \<and> inst \<notin> am_cancelled (lc_am \<sigma>')" by blast
qed

section \<open>A quota whose set stopped by itself\<close>

text \<open>The schedule of \<open>life_stopped\<close> is fair: nothing fails and no start is late.\<close>

lemma fair_go: "fair_reach ord \<sigma>1 \<Longrightarrow> life_step ord \<sigma>1 \<sigma>2 \<Longrightarrow> (\<And>k. \<not> late \<sigma>1 k) \<Longrightarrow> lc_worker \<sigma>2 \<noteq> WIdle \<or> lc_worker \<sigma>1 = WIdle \<or>
    (\<exists>c k. lc_worker \<sigma>1 = WStarted c k) \<Longrightarrow> fair_reach ord \<sigma>2"
  unfolding fair_reach_def by (erule rtranclp.rtrancl_into_rtrancl) (auto simp: fair_step_def prompt_def fails_alone_def)

lemma fair_stopped:
  "fair_reach sorted_range (life (one_key None {cq_ref ''p'' ''q''} False {0} 1) WIdle (RetryWait ''g/r/h'') GNone)"
proof -
  let ?c = "cq_ref ''p'' ''q''" and ?k = "''g/r/h''"
  let ?s0 = "life (one_key None {} False {} 0) WIdle GNone GNone"
  let ?s1 = "life (one_key None {?c} True {} 0) (WStarting ?c ?k) GNone GNone"
  let ?s2 = "life (one_key (Some 0) {?c} True {} 1) (WStarted ?c ?k) (Runner 0 ?k) GNone"
  let ?s3 = "life (one_key (Some 0) {?c} False {} 1) WIdle (Runner 0 ?k) GNone"
  let ?s4 = "life (one_key None {?c} False {0} 1) WIdle (RetryWait ?k) GNone"
  have s0: "fair_reach sorted_range ?s0"
    by (simp add: fair_reach_def life_init_def one_key_init fun_upd_idem)
  have "life_step sorted_range ?s0 ?s1"
    using ensure_starts [of ?s0 sorted_range "''p''" "demo_cq ''q''" "one_key None {?c} True {} 0"]
    by (simp add: life_rules)
  with s0 have s1: "fair_reach sorted_range ?s1" by (rule fair_go) (simp_all add: late_def)
  have "life_step sorted_range ?s1 ?s2"
    using start_registers [of ?s1 ?c ?k 0 0 "one_key (Some 0) {?c} True {} 1" sorted_range]
    by (simp add: life_rules fun_upd_twist)
  with s1 have s2: "fair_reach sorted_range ?s2" by (rule fair_go) (simp_all add: late_def)
  have "life_step sorted_range ?s2 ?s3"
    using start_returns [of ?s2 ?c ?k sorted_range] by (simp add: life_rules)
  with s2 have s3: "fair_reach sorted_range ?s3" by (rule fair_go) (auto simp: late_def)
  have "life_step sorted_range ?s3 ?s4"
    using runner_stops [of ?s3 0 0 ?k True "one_key None {?c} False {0} 1" sorted_range]
    by (simp add: life_rules fun_upd_twist)
  with s3 show ?thesis by (rule fair_go) (auto simp: late_def)
qed

theorem referenced_exports_attended_witness:
  "\<exists>i. ((\<lambda>_. GNone)(0 := RetryWait ''g/r/h'', 1 := GNone)) (i :: nat) = RetryWait ''g/r/h''"
  using referenced_exports_attended [OF sorted_range fair_stopped, of "''g/r/h''"]
  by (simp add: before_registration_def split: if_splits)

theorem accounting_settles_witness:
  "\<exists>\<sigma>'. quiet_step\<^sup>*\<^sup>* (life (one_key None {cq_ref ''p'' ''q''} False {0} 1) WIdle (RetryWait ''g/r/h'') GNone) \<sigma>' \<and>
     lc_worker \<sigma>' = WIdle"
  using accounting_settles [OF sorted_range fair_stopped] by blast


section \<open>A start that is late\<close>

text \<open>
  Why starts have to return promptly: a quota that is removed and reconciled again while a retry has
  registered its set and not left \<open>starting\<close> joins that start, whose set the removal has
  cancelled; the export then stays referenced with no set, no start and no retry.
\<close>

theorem late_start_loses_export:
  "\<exists>\<sigma> k. life_reach sorted_range \<sigma> \<and> refs_of (lc_am \<sigma>) k = {cq_ref ''p'' ''q''} \<and>
     am_sets (lc_am \<sigma>) k = None \<and> am_starting (lc_am \<sigma>) = {} \<and> lc_worker \<sigma> = WIdle \<and> (\<forall>i. lc_gos \<sigma> i = GNone)"
proof -
  let ?c = "cq_ref ''p'' ''q''" and ?k = "''g/r/h''"
  let ?s4 = "life (one_key None {?c} False {0} 1) WIdle (RetryWait ?k) GNone"
  let ?s5 = "life (one_key None {?c} True {0} 1) WIdle (RetryStarting ?k) GNone"
  let ?s6 = "life (one_key (Some 1) {?c} True {0} 2) WIdle (RetryStarted ?k) (Runner 1 ?k)"
  let ?s7 = "life (one_key None {} True {1, 0} 2) WIdle (RetryStarted ?k) (Runner 1 ?k)"
  let ?s8 = "life (one_key None {?c} True {1, 0} 2) WIdle (RetryStarted ?k) (Runner 1 ?k)"
  let ?s9 = "life (one_key None {?c} False {1, 0} 2) WIdle GNone (Runner 1 ?k)"
  let ?s10 = "life (one_key None {?c} False {1, 0} 2) WIdle GNone GNone"
  have "life_step sorted_range ?s4 ?s5"
    using retry_wakes [of ?s4 0 ?k True "one_key None {?c} True {0} 1" sorted_range]
    by (simp add: life_rules fun_upd_twist)
  moreover have "life_step sorted_range ?s5 ?s6"
    using retry_registers [of ?s5 0 ?k 1 1 "one_key (Some 1) {?c} True {0} 2" sorted_range]
    by (simp add: life_rules fun_upd_twist numeral_2_eq_2)
  moreover have "life_step sorted_range ?s6 ?s7"
    using removes [of ?s6 sorted_range "''p''" "''q''"] by (simp add: Remove_def life_rules)
  moreover have "life_step sorted_range ?s7 ?s8"
    using ensure_joins [of ?s7 sorted_range "''p''" "demo_cq ''q''" "one_key None {?c} True {1, 0} 2"]
    by (simp add: life_rules)
  moreover have "life_step sorted_range ?s8 ?s9"
    using retry_returns [of ?s8 0 ?k sorted_range] by (simp add: life_rules fun_upd_twist)
  moreover have "runner_exit 1 ?k (one_key None {?c} False {1, 0} 2) = (False, one_key None {?c} False {1, 0} 2)"
    by (simp add: runner_exit_def Let_def)
  then have "life_step sorted_range ?s9 ?s10"
    using runner_stops [of ?s9 1 1 ?k False "one_key None {?c} False {1, 0} 2" sorted_range]
    by (simp add: fun_upd_twist)
  ultimately have "life_reach sorted_range ?s10" using life_stopped life_go by blast
  then show ?thesis by (intro exI [of _ ?s10] exI [of _ ?k]) simp
qed

end
