(* ===== verification/Mirror.thy ===== *)
theory Mirror
  imports Watcher Settling
begin

text \<open>
  How the webhook's registry follows the quotas in the API server: the providers and the
  controller change \<open>ConsumptionQuota\<close> objects, the informers deliver each change to the cache and
  enqueue its key, the watcher's worker reconciles keys from what the cache holds, and
  \<open>PopulateRegistry\<close> lists the shards and seeds the registry, each of the two threads interleaved
  at the critical sections of \<open>cmd/webhook/registry_watcher.go\<close>: \<open>known\<close> under the watcher's mutex,
  then the limit under the registry's.
\<close>

section \<open>The critical sections\<close>

definition known_set :: "string \<Rightarrow> ResourceRef \<Rightarrow> registryWatcher \<Rightarrow> registryWatcher" where
  "known_set cqRef ref w = w\<lparr>rw_known := (rw_known w)(cqRef \<mapsto> ref)\<rparr>"

definition limit_set :: "ResourceRef \<Rightarrow> int32 \<Rightarrow> registryWatcher \<Rightarrow> registryWatcher" where
  "limit_set ref limit w = w\<lparr>rw_reg := Set_limit ref limit (rw_reg w)\<rparr>"

definition limit_delete :: "ResourceRef \<Rightarrow> registryWatcher \<Rightarrow> registryWatcher" where
  "limit_delete ref w = w\<lparr>rw_reg := Delete_limit ref (rw_reg w)\<rparr>"

text \<open>The worker: idle, or between the two sections of \<open>remember\<close> or \<open>forget\<close>.\<close>

datatype thread = TIdle | Remembering string ResourceRef int32 | Forgetting string ResourceRef

fun thread_key :: "thread \<Rightarrow> string option" where
  "thread_key TIdle = None"
| "thread_key (Remembering k ref limit) = Some k"
| "thread_key (Forgetting k ref) = Some k"

definition forget_enter :: "string \<Rightarrow> registryWatcher \<Rightarrow> thread \<times> registryWatcher" where
  "forget_enter cqRef w =
     (case rw_known w cqRef of Some ref \<Rightarrow> Forgetting cqRef ref | None \<Rightarrow> TIdle, w\<lparr>rw_known := (rw_known w)(cqRef := None)\<rparr>)"

text \<open>\<open>Reconcile\<close> up to the end of its first section, from what the cache holds.\<close>

definition reconcile_enter :: "string \<Rightarrow> ConsumptionQuota option \<Rightarrow> registryWatcher \<Rightarrow> thread \<times> registryWatcher" where
  "reconcile_enter cqRef got w =
     (case got of
        None \<Rightarrow> forget_enter cqRef w
      | Some cq \<Rightarrow>
          if cq_DeletionTimestamp cq \<noteq> None then forget_enter cqRef w
          else if ct_IdentityHash (cq_Status cq) = [] then (TIdle, w)
          else (Remembering cqRef (cq_resource cq) (cs_DefaultLimit (cq_Spec cq)), known_set cqRef (cq_resource cq) w))"

fun reconcile_exit :: "thread \<Rightarrow> registryWatcher \<Rightarrow> registryWatcher" where
  "reconcile_exit TIdle w = w"
| "reconcile_exit (Remembering k ref limit) w = limit_set ref limit w"
| "reconcile_exit (Forgetting k ref) w = limit_delete ref w"

text \<open>Run without interruption the sections are the code's functions.\<close>

lemma remember_sections:
  "remember c cq w = limit_set (cq_resource cq) (cs_DefaultLimit (cq_Spec cq)) (known_set c (cq_resource cq) w)"
  by (simp add: remember_def limit_set_def known_set_def Let_def)

lemma forget_sections: "forget c w = (case forget_enter c w of (t, w') \<Rightarrow> reconcile_exit t w')"
  by (simp add: forget_def forget_enter_def limit_delete_def Let_def split: option.split)

lemma reconcile_sections:
  "Watcher_Reconcile None (case got of None \<Rightarrow> Inl NotFound | Some cq \<Rightarrow> Inr cq) cluster name w =
     (None, case reconcile_enter (cluster @ ''/'' @ name) got w of (t, w') \<Rightarrow> reconcile_exit t w')"
  by (auto simp: Watcher_Reconcile_def reconcile_enter_def forget_sections remember_sections Let_def split: option.split)

section \<open>State and steps\<close>

text \<open>
  Quotas are keyed by \<open>cluster/name\<close>. \<open>mr_inflight\<close> are the keys with a change the informers have not
  delivered, \<open>mr_queue\<close> the keys waiting in the work queue, \<open>mr_listed\<close> what is left of the list of one
  shard and \<open>mr_seeding\<close> the item between the sections of its \<open>remember\<close>.
\<close>

record mirror =
  mr_server :: "string \<rightharpoonup> ConsumptionQuota"
  mr_cache :: "string \<rightharpoonup> ConsumptionQuota"
  mr_inflight :: "string set"
  mr_queue :: "string set"
  mr_worker :: thread
  mr_listed :: "(string \<times> ConsumptionQuota) list"
  mr_seeding :: "(string \<times> ResourceRef \<times> int32) option"
  mr_watcher :: registryWatcher
  mr_open :: bool

definition seeding_keys :: "mirror \<Rightarrow> string set" where
  "seeding_keys \<sigma> = fst ` set (mr_listed \<sigma>) \<union> (case mr_seeding \<sigma> of None \<Rightarrow> {} | Some (k, _, _) \<Rightarrow> {k})"

text \<open>
  What the webhook does by itself. The quotas in \<open>calm\<close> are those the population does not race with: the
  worker does not process an outdated copy of such a quota while that quota is being seeded. With
  \<open>calm\<close> empty these are all the interleavings of the code.
\<close>

inductive mirror_work :: "string set \<Rightarrow> mirror \<Rightarrow> mirror \<Rightarrow> bool" for calm where
  deliver: "k \<in> mr_inflight \<sigma> \<Longrightarrow>
    mirror_work calm \<sigma> (\<sigma>\<lparr>mr_cache := (mr_cache \<sigma>)(k := mr_server \<sigma> k), mr_inflight := mr_inflight \<sigma> - {k},
      mr_queue := insert k (mr_queue \<sigma>)\<rparr>)"
| reconcile: "mr_worker \<sigma> = TIdle \<Longrightarrow> k \<in> mr_queue \<sigma> \<Longrightarrow>
    k \<notin> calm \<or> k \<notin> seeding_keys \<sigma> \<or> mr_cache \<sigma> k = mr_server \<sigma> k \<Longrightarrow>
    reconcile_enter k (mr_cache \<sigma> k) (mr_watcher \<sigma>) = (t, w) \<Longrightarrow>
    mirror_work calm \<sigma> (\<sigma>\<lparr>mr_queue := mr_queue \<sigma> - {k}, mr_worker := t, mr_watcher := w\<rparr>)"
| finish: "mr_worker \<sigma> \<noteq> TIdle \<Longrightarrow>
    mirror_work calm \<sigma> (\<sigma>\<lparr>mr_worker := TIdle, mr_watcher := reconcile_exit (mr_worker \<sigma>) (mr_watcher \<sigma>)\<rparr>)"
| seed: "mr_listed \<sigma> = (k, cq) # rest \<Longrightarrow> mr_seeding \<sigma> = None \<Longrightarrow>
    mirror_work calm \<sigma> (\<sigma>\<lparr>mr_listed := rest, mr_seeding := Some (k, cq_resource cq, cs_DefaultLimit (cq_Spec cq)),
      mr_watcher := known_set k (cq_resource cq) (mr_watcher \<sigma>)\<rparr>)"
| seeded: "mr_seeding \<sigma> = Some (k, ref, limit) \<Longrightarrow>
    mirror_work calm \<sigma> (\<sigma>\<lparr>mr_seeding := None, mr_watcher := limit_set ref limit (mr_watcher \<sigma>)\<rparr>)"

text \<open>
  What happens to it: a quota is created, changed or deleted (\<open>env\<close> says which objects may be stored
  under a key), a key is enqueued again (a resync, or the retry of a failed reconcile), a shard is
  listed, and the gate opens when the last shard is seeded. A calm quota is not changed while it is
  being seeded, and its shard is not listed while the worker is between the sections of its reconcile.
\<close>

inductive mirror_step :: "(string \<Rightarrow> ConsumptionQuota \<Rightarrow> bool) \<Rightarrow> string set \<Rightarrow> mirror \<Rightarrow> mirror \<Rightarrow> bool" for env calm where
  own: "mirror_work calm \<sigma> \<sigma>' \<Longrightarrow> mirror_step env calm \<sigma> \<sigma>'"
| change: "pred_option (env k) obj \<Longrightarrow> k \<notin> calm \<or> k \<notin> seeding_keys \<sigma> \<Longrightarrow>
    mirror_step env calm \<sigma> (\<sigma>\<lparr>mr_server := (mr_server \<sigma>)(k := obj), mr_inflight := insert k (mr_inflight \<sigma>)\<rparr>)"
| requeue: "mirror_step env calm \<sigma> (\<sigma>\<lparr>mr_queue := insert k (mr_queue \<sigma>)\<rparr>)"
| list_shard: "mr_listed \<sigma> = [] \<Longrightarrow> mr_seeding \<sigma> = None \<Longrightarrow>
    (\<forall>(k, cq) \<in> set items. mr_server \<sigma> k = Some cq \<and> (k \<notin> calm \<or> thread_key (mr_worker \<sigma>) \<noteq> Some k)) \<Longrightarrow>
    mirror_step env calm \<sigma> (\<sigma>\<lparr>mr_listed := filter (\<lambda>(k, cq). enforceable cq) items\<rparr>)"
| populated: "mr_listed \<sigma> = [] \<Longrightarrow> mr_seeding \<sigma> = None \<Longrightarrow> mirror_step env calm \<sigma> (\<sigma>\<lparr>mr_open := True\<rparr>)"

text \<open>At the start every quota there is arrives as an addition.\<close>

definition mirror_init :: "(string \<rightharpoonup> ConsumptionQuota) \<Rightarrow> mirror" where
  "mirror_init server =
     \<lparr>mr_server = server, mr_cache = Map.empty, mr_inflight = dom server, mr_queue = {}, mr_worker = TIdle,
      mr_listed = [], mr_seeding = None, mr_watcher = new_watcher, mr_open = False\<rparr>"

definition mirror_start :: "(string \<Rightarrow> ConsumptionQuota \<Rightarrow> bool) \<Rightarrow> (string \<rightharpoonup> ConsumptionQuota) \<Rightarrow> bool" where
  "mirror_start env server \<longleftrightarrow> finite (dom server) \<and> (\<forall>k. pred_option (env k) (server k))"

definition mirror_reach :: "(string \<Rightarrow> ConsumptionQuota \<Rightarrow> bool) \<Rightarrow> string set \<Rightarrow> mirror \<Rightarrow> bool" where
  "mirror_reach env calm \<sigma> \<longleftrightarrow>
     (\<exists>server. mirror_start env server \<and> (mirror_step env calm)\<^sup>*\<^sup>* (mirror_init server) \<sigma>)"

text \<open>
  The quotas \<open>K\<close> govern the resource \<open>ref\<close> whenever they are stamped, and no other quota ever does. An
  environment in which every quota governs a resource of its own is \<open>governs f\<close> for an injective \<open>f\<close>.
\<close>

abbreviation has_identity :: "ConsumptionQuota \<Rightarrow> bool" where
  "has_identity cq \<equiv> ct_IdentityHash (cq_Status cq) \<noteq> []"

definition governed_by :: "(string \<Rightarrow> ConsumptionQuota \<Rightarrow> bool) \<Rightarrow> string set \<Rightarrow> ResourceRef \<Rightarrow> bool" where
  "governed_by env K ref \<longleftrightarrow> (\<forall>k cq. env k cq \<longrightarrow> has_identity cq \<longrightarrow> (cq_resource cq = ref \<longleftrightarrow> k \<in> K))"

abbreviation sole_governor :: "(string \<Rightarrow> ConsumptionQuota \<Rightarrow> bool) \<Rightarrow> string \<Rightarrow> ResourceRef \<Rightarrow> bool" where
  "sole_governor env k ref \<equiv> governed_by env {k} ref"

definition governs :: "(string \<Rightarrow> ResourceRef) \<Rightarrow> string \<Rightarrow> ConsumptionQuota \<Rightarrow> bool" where
  "governs f k cq \<longleftrightarrow> (has_identity cq \<longrightarrow> cq_resource cq = f k)"

lemma governs_sole: "inj f \<Longrightarrow> sole_governor (governs f) k (f k)"
  by (auto simp: governed_by_def governs_def dest: injD)

lemma governed_byD: "governed_by env K ref \<Longrightarrow> env k cq \<Longrightarrow> has_identity cq \<Longrightarrow> cq_resource cq = ref \<longleftrightarrow> k \<in> K"
  by (simp add: governed_by_def)

section \<open>Whose resource each part of the mirror holds\<close>

definition gone :: "ConsumptionQuota option \<Rightarrow> bool" where
  "gone obj \<longleftrightarrow> (case obj of None \<Rightarrow> True | Some cq \<Rightarrow> cq_DeletionTimestamp cq \<noteq> None)"

lemma enforceable_not_gone: "enforceable cq \<Longrightarrow> \<not> gone (Some cq)"
  by (simp add: enforceable_def gone_def)

lemma enforceable_stamped: "enforceable cq \<Longrightarrow> has_identity cq"
  by (simp add: enforceable_def)

abbreviation limit_at :: "mirror \<Rightarrow> ResourceRef \<Rightarrow> int32 option" where
  "limit_at \<sigma> ref \<equiv> LimitFor (rw_reg (mr_watcher \<sigma>)) [] ref"

definition pending :: "mirror \<Rightarrow> string \<Rightarrow> bool" where
  "pending \<sigma> k \<longleftrightarrow> k \<in> mr_inflight \<sigma> \<or> k \<in> mr_queue \<sigma>"

fun thread_ref :: "thread \<Rightarrow> (string \<times> ResourceRef) option" where
  "thread_ref TIdle = None"
| "thread_ref (Remembering k ref limit) = Some (k, ref)"
| "thread_ref (Forgetting k ref) = Some (k, ref)"

text \<open>Every copy of a quota is one the environment allows; the cache is behind only by what is in flight.\<close>

definition objects_inv :: "(string \<Rightarrow> ConsumptionQuota \<Rightarrow> bool) \<Rightarrow> mirror \<Rightarrow> bool" where
  "objects_inv env \<sigma> \<longleftrightarrow> (\<forall>k. pred_option (env k) (mr_server \<sigma> k) \<and> pred_option (env k) (mr_cache \<sigma> k) \<and>
        (k \<notin> mr_inflight \<sigma> \<longrightarrow> mr_cache \<sigma> k = mr_server \<sigma> k)) \<and>
     (\<forall>(k, cq) \<in> set (mr_listed \<sigma>). env k cq \<and> enforceable cq)"

text \<open>Only what belongs to a quota of \<open>K\<close> holds the resource \<open>ref\<close>, and it holds no other.\<close>

definition bound_inv :: "string set \<Rightarrow> ResourceRef \<Rightarrow> mirror \<Rightarrow> bool" where
  "bound_inv K ref \<sigma> \<longleftrightarrow> (\<forall>k r. rw_known (mr_watcher \<sigma>) k = Some r \<longrightarrow> (r = ref \<longleftrightarrow> k \<in> K)) \<and>
     (\<forall>k r. thread_ref (mr_worker \<sigma>) = Some (k, r) \<longrightarrow> (r = ref \<longleftrightarrow> k \<in> K)) \<and>
     (\<forall>k r l. mr_seeding \<sigma> = Some (k, r, l) \<longrightarrow> (r = ref \<longleftrightarrow> k \<in> K))"

lemma bound_invD:
  assumes "bound_inv K ref \<sigma>"
  shows "rw_known (mr_watcher \<sigma>) k = Some r \<Longrightarrow> r = ref \<longleftrightarrow> k \<in> K"
    and "thread_ref (mr_worker \<sigma>) = Some (k, r) \<Longrightarrow> r = ref \<longleftrightarrow> k \<in> K"
    and "mr_seeding \<sigma> = Some (k, r, l) \<Longrightarrow> r = ref \<longleftrightarrow> k \<in> K"
  using assms unfolding bound_inv_def by blast+

lemma sections_known [simp]:
  "rw_known (known_set k ref w) = (rw_known w)(k \<mapsto> ref)" "rw_known (limit_set ref l w) = rw_known w"
  "rw_known (limit_delete ref w) = rw_known w"
  by (simp_all add: known_set_def limit_set_def limit_delete_def)

lemma sections_limit [simp]:
  "LimitFor (rw_reg (known_set k ref w)) cl r = LimitFor (rw_reg w) cl r"
  "LimitFor (rw_reg (limit_set ref l w)) cl r = (if r = ref then Some l else LimitFor (rw_reg w) cl r)"
  "LimitFor (rw_reg (limit_delete ref w)) cl r = (if r = ref then None else LimitFor (rw_reg w) cl r)"
  by (simp_all add: known_set_def limit_set_def limit_delete_def limits.laws)

lemma reconcile_exit_known [simp]: "rw_known (reconcile_exit t w) = rw_known w"
  by (cases t) simp_all

text \<open>Where the first section of a reconcile takes a resource from.\<close>

lemma reconcile_enter_cases:
  assumes "reconcile_enter k got w = (t, w')"
  obtains (forget) ref where "gone got" "rw_known w k = Some ref" "t = Forgetting k ref"
      "w' = w\<lparr>rw_known := (rw_known w)(k := None)\<rparr>"
    | (absent) "gone got" "rw_known w k = None" "t = TIdle" "w' = w"
    | (unstamped) cq where "got = Some cq" "\<not> gone got" "\<not> enforceable cq" "t = TIdle" "w' = w"
    | (remember) cq where "got = Some cq" "enforceable cq" "t = Remembering k (cq_resource cq) (cs_DefaultLimit (cq_Spec cq))"
      "w' = known_set k (cq_resource cq) w"
proof (cases "gone got")
  case True
  then have enter: "reconcile_enter k got w = forget_enter k w"
    by (auto simp: reconcile_enter_def gone_def split: option.splits)
  show thesis
  proof (cases "rw_known w k")
    case None
    then have "w\<lparr>rw_known := (rw_known w)(k := None)\<rparr> = w" by (simp add: fun_upd_idem)
    with that(2) None True assms enter show thesis by (simp add: forget_enter_def)
  next
    case (Some ref)
    with that(1) True assms enter show thesis by (simp add: forget_enter_def)
  qed
next
  case False
  then obtain cq where cq: "got = Some cq" "cq_DeletionTimestamp cq = None" by (auto simp: gone_def split: option.splits)
  show thesis
  proof (cases "has_identity cq")
    case False
    with that(3) [OF cq(1)] assms cq \<open>\<not> gone got\<close> show thesis by (simp add: reconcile_enter_def enforceable_def)
  next
    case True
    with that(4) [OF cq(1)] assms cq show thesis by (simp add: reconcile_enter_def enforceable_def)
  qed
qed

lemma objects_inv_init: "mirror_start env server \<Longrightarrow> objects_inv env (mirror_init server)"
  by (auto simp: mirror_start_def objects_inv_def mirror_init_def) (metis not_None_eq)

lemma bound_inv_init: "bound_inv K ref (mirror_init server)"
  by (simp add: bound_inv_def mirror_init_def new_watcher_def)

lemma mirror_step_objects:
  assumes step: "mirror_step env calm \<sigma> \<sigma>'" and inv: "objects_inv env \<sigma>"
  shows "objects_inv env \<sigma>'"
  using step
proof cases
  case own
  then show ?thesis by cases (use inv in \<open>auto simp: objects_inv_def\<close>)
next
  case (list_shard items)
  then have "env k cq" if "(k, cq) \<in> set items" for k cq
    using inv that unfolding objects_inv_def by (metis (mono_tags, lifting) case_prodD option.pred_inject(2))
  with list_shard inv show ?thesis by (auto simp: objects_inv_def)
qed (use inv in \<open>auto simp: objects_inv_def\<close>)

lemma mirror_work_bound:
  assumes step: "mirror_work calm \<sigma> \<sigma>'" and objs: "objects_inv env \<sigma>" and gov: "governed_by env K ref"
    and inv: "bound_inv K ref \<sigma>"
  shows "bound_inv K ref \<sigma>'"
  using step
proof cases
  case (reconcile k' t w)
  have cache: "pred_option (env k') (mr_cache \<sigma> k')" using objs by (simp add: objects_inv_def)
  from reconcile(5) show ?thesis
  proof (cases rule: reconcile_enter_cases)
    case (remember cq)
    then have "cq_resource cq = ref \<longleftrightarrow> k' \<in> K"
      using cache governed_byD [OF gov, of k' cq] enforceable_stamped by simp
    then show ?thesis using inv reconcile(1) remember by (auto simp: bound_inv_def)
  qed (use inv reconcile(1) in \<open>auto simp: bound_inv_def\<close>)
next
  case (seed k' cq rest)
  then have "env k' cq" "has_identity cq" using objs by (auto simp: objects_inv_def enforceable_stamped)
  then have "cq_resource cq = ref \<longleftrightarrow> k' \<in> K" by (rule governed_byD [OF gov])
  then show ?thesis using inv seed(1) by (auto simp: bound_inv_def)
qed (use inv in \<open>auto simp: bound_inv_def\<close>)

lemma mirror_step_bound:
  assumes step: "mirror_step env calm \<sigma> \<sigma>'" and objs: "objects_inv env \<sigma>" and gov: "governed_by env K ref"
    and inv: "bound_inv K ref \<sigma>"
  shows "bound_inv K ref \<sigma>'"
  using step
proof cases
  case own
  then show ?thesis using mirror_work_bound objs gov inv by blast
qed (use inv in \<open>auto simp: bound_inv_def\<close>)

lemma mirror_reach_induct [consumes 1, case_names init step]:
  assumes "mirror_reach env calm \<sigma>"
    and "\<And>server. mirror_start env server \<Longrightarrow> P (mirror_init server)"
    and "\<And>\<sigma> \<sigma>'. mirror_reach env calm \<sigma> \<Longrightarrow> mirror_step env calm \<sigma> \<sigma>' \<Longrightarrow> P \<sigma> \<Longrightarrow> P \<sigma>'"
  shows "P \<sigma>"
proof -
  obtain server where start: "mirror_start env server" and path: "(mirror_step env calm)\<^sup>*\<^sup>* (mirror_init server) \<sigma>"
    using assms(1) unfolding mirror_reach_def by blast
  from path show ?thesis
  proof (induction rule: rtranclp_induct)
    case base
    show ?case using start by (rule assms(2))
  next
    case (step \<sigma> \<sigma>')
    have "mirror_reach env calm \<sigma>" using start step.hyps(1) unfolding mirror_reach_def by blast
    then show ?case using step.hyps(2) step.IH by (rule assms(3))
  qed
qed

lemma mirror_reach_objects: "mirror_reach env calm \<sigma> \<Longrightarrow> objects_inv env \<sigma>"
  by (induction rule: mirror_reach_induct) (auto intro: objects_inv_init mirror_step_objects)

lemma mirror_reach_bound:
  assumes "mirror_reach env calm \<sigma>" and "governed_by env K ref"
  shows "bound_inv K ref \<sigma>"
  using assms(1)
proof (induction rule: mirror_reach_induct)
  case (step \<sigma> \<sigma>')
  from mirror_step_bound [OF step(2) mirror_reach_objects [OF step(1)] assms(2) step(3)] show ?case .
qed (rule bound_inv_init)

section \<open>A calm quota is mirrored\<close>

text \<open>The registry holds what the object says; of an object without an identity it may know an older one.\<close>

definition mirrored_key :: "string \<Rightarrow> ResourceRef \<Rightarrow> mirror \<Rightarrow> bool" where
  "mirrored_key k ref \<sigma> \<longleftrightarrow>
     (gone (mr_server \<sigma> k) \<longrightarrow> rw_known (mr_watcher \<sigma>) k = None \<and> limit_at \<sigma> ref = None) \<and>
     (\<forall>cq. mr_server \<sigma> k = Some cq \<longrightarrow> enforceable cq \<longrightarrow>
        rw_known (mr_watcher \<sigma>) k = Some ref \<and> limit_at \<sigma> ref = Some (cs_DefaultLimit (cq_Spec cq)))"

definition says :: "mirror \<Rightarrow> string \<Rightarrow> int32 \<Rightarrow> bool" where
  "says \<sigma> k limit \<longleftrightarrow> (\<exists>cq. mr_server \<sigma> k = Some cq \<and> enforceable cq \<and> limit = cs_DefaultLimit (cq_Spec cq))"

definition registry_inv :: "string \<Rightarrow> ResourceRef \<Rightarrow> mirror \<Rightarrow> bool" where
  "registry_inv k ref \<sigma> \<longleftrightarrow> (limit_at \<sigma> ref \<noteq> None \<longrightarrow>
     rw_known (mr_watcher \<sigma>) k = Some ref \<or> mr_worker \<sigma> = Forgetting k ref)"

text \<open>What the thread in the middle of the reconcile of \<open>k\<close>, and the population, are about to write.\<close>

fun thread_inv :: "string \<Rightarrow> ResourceRef \<Rightarrow> mirror \<Rightarrow> thread \<Rightarrow> bool" where
  "thread_inv k ref \<sigma> TIdle \<longleftrightarrow> True"
| "thread_inv k ref \<sigma> (Remembering k' r limit) \<longleftrightarrow>
     (k' = k \<longrightarrow> rw_known (mr_watcher \<sigma>) k = Some ref \<and> (\<not> pending \<sigma> k \<longrightarrow> says \<sigma> k limit))"
| "thread_inv k ref \<sigma> (Forgetting k' r) \<longleftrightarrow>
     (k' = k \<longrightarrow> rw_known (mr_watcher \<sigma>) k = None \<and> k \<notin> seeding_keys \<sigma> \<and> (\<not> pending \<sigma> k \<longrightarrow> gone (mr_server \<sigma> k)))"

definition seeding_inv :: "string \<Rightarrow> ResourceRef \<Rightarrow> mirror \<Rightarrow> bool" where
  "seeding_inv k ref \<sigma> \<longleftrightarrow> (\<forall>cq. (k, cq) \<in> set (mr_listed \<sigma>) \<longrightarrow> mr_server \<sigma> k = Some cq) \<and>
     (\<forall>r limit. mr_seeding \<sigma> = Some (k, r, limit) \<longrightarrow> rw_known (mr_watcher \<sigma>) k = Some ref \<and> says \<sigma> k limit)"

definition mirror_inv :: "string \<Rightarrow> ResourceRef \<Rightarrow> mirror \<Rightarrow> bool" where
  "mirror_inv k ref \<sigma> \<longleftrightarrow> registry_inv k ref \<sigma> \<and> thread_inv k ref \<sigma> (mr_worker \<sigma>) \<and> seeding_inv k ref \<sigma> \<and>
     (\<not> pending \<sigma> k \<longrightarrow> thread_key (mr_worker \<sigma>) \<noteq> Some k \<longrightarrow> mirrored_key k ref \<sigma>)"

lemma mirror_invD:
  assumes "mirror_inv k ref \<sigma>"
  shows "registry_inv k ref \<sigma>" "thread_inv k ref \<sigma> (mr_worker \<sigma>)" "seeding_inv k ref \<sigma>"
    and "\<not> pending \<sigma> k \<Longrightarrow> thread_key (mr_worker \<sigma>) \<noteq> Some k \<Longrightarrow> mirrored_key k ref \<sigma>"
  using assms by (auto simp: mirror_inv_def)

lemma mirror_inv_init: "mirror_inv k ref (mirror_init server)"
  by (auto simp: mirror_inv_def registry_inv_def seeding_inv_def mirrored_key_def pending_def mirror_init_def new_watcher_def
      limits.laws)

lemma seeding_keysI:
  "(k, cq) \<in> set (mr_listed \<sigma>) \<Longrightarrow> k \<in> seeding_keys \<sigma>" "mr_seeding \<sigma> = Some (k, ref, limit) \<Longrightarrow> k \<in> seeding_keys \<sigma>"
  by (force simp: seeding_keys_def)+

text \<open>What a step leaves of the quota that it does not touch.\<close>

definition same_view :: "string \<Rightarrow> ResourceRef \<Rightarrow> mirror \<Rightarrow> mirror \<Rightarrow> bool" where
  "same_view k ref \<sigma> \<sigma>' \<longleftrightarrow> mr_server \<sigma>' k = mr_server \<sigma> k \<and> pending \<sigma>' k = pending \<sigma> k \<and>
     rw_known (mr_watcher \<sigma>') k = rw_known (mr_watcher \<sigma>) k \<and> limit_at \<sigma>' ref = limit_at \<sigma> ref \<and>
     (\<forall>cq. (k, cq) \<in> set (mr_listed \<sigma>') \<longleftrightarrow> (k, cq) \<in> set (mr_listed \<sigma>)) \<and>
     (\<forall>r l. mr_seeding \<sigma>' = Some (k, r, l) \<longleftrightarrow> mr_seeding \<sigma> = Some (k, r, l)) \<and>
     (mr_worker \<sigma>' = mr_worker \<sigma> \<or> thread_key (mr_worker \<sigma>') \<noteq> Some k \<and> thread_key (mr_worker \<sigma>) \<noteq> Some k)"

lemma in_seeding_keys:
  "k \<in> seeding_keys \<sigma> \<longleftrightarrow> (\<exists>cq. (k, cq) \<in> set (mr_listed \<sigma>)) \<or> (\<exists>r l. mr_seeding \<sigma> = Some (k, r, l))"
  by (auto simp: seeding_keys_def split: option.splits) force+

lemma same_view_inv:
  assumes view: "same_view k ref \<sigma> \<sigma>'" and inv: "mirror_inv k ref \<sigma>"
  shows "mirror_inv k ref \<sigma>'"
proof -
  have keys: "k \<in> seeding_keys \<sigma>' \<longleftrightarrow> k \<in> seeding_keys \<sigma>" using view by (simp add: in_seeding_keys same_view_def)
  have says: "says \<sigma>' k l \<longleftrightarrow> says \<sigma> k l" for l using view by (simp add: says_def same_view_def)
  have "mirrored_key k ref \<sigma>' \<longleftrightarrow> mirrored_key k ref \<sigma>" using view by (simp add: mirrored_key_def same_view_def)
  moreover have "seeding_inv k ref \<sigma>' \<longleftrightarrow> seeding_inv k ref \<sigma>" using view says by (simp add: seeding_inv_def same_view_def)
  moreover have "thread_key (mr_worker \<sigma>') \<noteq> Some k \<longleftrightarrow> thread_key (mr_worker \<sigma>) \<noteq> Some k"
    using view by (auto simp: same_view_def)
  moreover have "registry_inv k ref \<sigma>'" using mirror_invD(1) [OF inv] view
    by (auto simp: registry_inv_def same_view_def)
  moreover have "thread_inv k ref \<sigma>' (mr_worker \<sigma>')"
  proof (cases "thread_key (mr_worker \<sigma>') = Some k")
    case True
    then have "mr_worker \<sigma>' = mr_worker \<sigma>" using view by (auto simp: same_view_def)
    with mirror_invD(2) [OF inv] view keys says show ?thesis
      by (cases "mr_worker \<sigma>") (simp_all add: same_view_def)
  qed (cases "mr_worker \<sigma>'"; simp)
  ultimately show ?thesis using inv view by (simp add: mirror_inv_def same_view_def)
qed

text \<open>Steps of the outside world that leave \<open>k\<close> on its way: the registry and the threads stay as they are.\<close>

lemma keep_pending:
  assumes inv: "mirror_inv k ref \<sigma>" and seed: "seeding_inv k ref \<sigma>'"
    and keys: "k \<in> seeding_keys \<sigma>' \<longrightarrow> k \<in> seeding_keys \<sigma> \<or> thread_key (mr_worker \<sigma>) \<noteq> Some k"
    and same: "mr_watcher \<sigma>' = mr_watcher \<sigma>" "mr_worker \<sigma>' = mr_worker \<sigma>"
    and server: "\<not> pending \<sigma>' k \<Longrightarrow> mr_server \<sigma>' k = mr_server \<sigma> k \<and> \<not> pending \<sigma> k"
  shows "mirror_inv k ref \<sigma>'"
proof -
  have "registry_inv k ref \<sigma>'" using mirror_invD(1) [OF inv] same by (simp add: registry_inv_def)
  moreover have "thread_inv k ref \<sigma>' (mr_worker \<sigma>')"
    using mirror_invD(2) [OF inv] server keys same by (cases "mr_worker \<sigma>") (auto simp: says_def)
  moreover have "mirrored_key k ref \<sigma>'" if "\<not> pending \<sigma>' k" "thread_key (mr_worker \<sigma>') \<noteq> Some k"
    using mirror_invD(4) [OF inv] server [OF that(1)] that same by (simp add: mirrored_key_def)
  ultimately show ?thesis using seed by (simp add: mirror_inv_def)
qed

text \<open>
  The worker takes a key that the population is not seeding, or sees it as it is: its first section.
\<close>

lemma inv_reconcile:
  assumes inv: "mirror_inv k ref \<sigma>" and objs: "objects_inv env \<sigma>" and bound: "bound_inv {k} ref \<sigma>"
    and sole: "sole_governor env k ref" and idle: "mr_worker \<sigma> = TIdle" and k: "k \<in> mr_queue \<sigma>"
    and fresh: "k \<notin> seeding_keys \<sigma> \<or> mr_cache \<sigma> k = mr_server \<sigma> k"
    and enter: "reconcile_enter k (mr_cache \<sigma> k) (mr_watcher \<sigma>) = (t, w)"
  shows "mirror_inv k ref (\<sigma>\<lparr>mr_queue := mr_queue \<sigma> - {k}, mr_worker := t, mr_watcher := w\<rparr>)"
    (is "mirror_inv k ref ?\<sigma>")
proof -
  note ri = mirror_invD(1) [OF inv] and si = mirror_invD(3) [OF inv]
  have cache: "mr_cache \<sigma> k = mr_server \<sigma> k" if "\<not> pending ?\<sigma> k" using objs that by (auto simp: objects_inv_def pending_def)
  have keys: "seeding_keys ?\<sigma> = seeding_keys \<sigma>" by (simp add: seeding_keys_def)
  have seen: "\<not> gone (mr_server \<sigma> k)" if "k \<in> seeding_keys \<sigma>"
  proof -
    from that consider cq where "(k, cq) \<in> set (mr_listed \<sigma>)" | r l where "mr_seeding \<sigma> = Some (k, r, l)"
      by (auto simp: in_seeding_keys)
    then show ?thesis
    proof cases
      case (1 cq)
      then show ?thesis using si objs enforceable_not_gone by (auto simp: seeding_inv_def objects_inv_def)
    next
      case 2
      then show ?thesis using si enforceable_not_gone by (auto simp: seeding_inv_def says_def)
    qed
  qed
  have says: "says ?\<sigma> = says \<sigma>" by (simp add: says_def fun_eq_iff)
  from enter show ?thesis
  proof (cases rule: reconcile_enter_cases)
    case (forget r)
    then have free: "k \<notin> seeding_keys \<sigma>" using fresh seen by auto
    have ref: "r = ref" using bound_invD(1) [OF bound forget(2)] by simp
    show ?thesis
      using ri forget ref idle free keys cache says seeding_keysI unfolding mirror_inv_def
      by (auto simp: registry_inv_def seeding_inv_def pending_def)
  next
    case absent
    then have "limit_at \<sigma> ref = None" using ri idle by (simp add: registry_inv_def)
    then show ?thesis
      using ri si absent idle cache says enforceable_not_gone unfolding mirror_inv_def
      by (auto simp: registry_inv_def seeding_inv_def mirrored_key_def)
  next
    case (unstamped cq)
    then show ?thesis
      using ri si idle cache says unfolding mirror_inv_def
      by (auto simp: registry_inv_def seeding_inv_def mirrored_key_def)
  next
    case (remember cq)
    have "env k cq" using objs remember(1) unfolding objects_inv_def by (metis option.pred_inject(2))
    then have ref: "cq_resource cq = ref"
      using governed_byD [OF sole, of k cq] enforceable_stamped [OF remember(2)] by simp
    have "mr_server \<sigma> k = Some cq" if "\<not> pending ?\<sigma> k" using remember(1) cache [OF that] by simp
    then show ?thesis
      using ri si remember idle says ref unfolding mirror_inv_def
      by (auto simp: registry_inv_def seeding_inv_def says_def pending_def)
  qed
qed

text \<open>The second section of the worker.\<close>

lemma inv_finish:
  assumes inv: "mirror_inv k ref \<sigma>" and bound: "bound_inv {k} ref \<sigma>" and key: "thread_key (mr_worker \<sigma>) = Some k"
  shows "mirror_inv k ref (\<sigma>\<lparr>mr_worker := TIdle, mr_watcher := reconcile_exit (mr_worker \<sigma>) (mr_watcher \<sigma>)\<rparr>)"
    (is "mirror_inv k ref ?\<sigma>")
proof (cases "mr_worker \<sigma>")
  case (Remembering k' r limit)
  then have ref: "k' = k" "r = ref" using key bound_invD(2) [OF bound, of k' r] by simp_all
  with Remembering show ?thesis
    using mirror_invD(1-3) [OF inv] enforceable_not_gone unfolding mirror_inv_def
    by (auto simp: registry_inv_def seeding_inv_def mirrored_key_def says_def pending_def)
next
  case (Forgetting k' r)
  then have ref: "k' = k" "r = ref" using key bound_invD(2) [OF bound, of k' r] by simp_all
  with Forgetting show ?thesis
    using mirror_invD(1-3) [OF inv] enforceable_not_gone unfolding mirror_inv_def
    by (auto simp: registry_inv_def seeding_inv_def mirrored_key_def says_def pending_def)
qed (use key in simp)

text \<open>The two sections of the population, for an item that is as the server has it.\<close>

lemma inv_seed:
  assumes inv: "mirror_inv k ref \<sigma>" and objs: "objects_inv env \<sigma>" and sole: "sole_governor env k ref"
    and item: "mr_listed \<sigma> = (k, cq) # rest" and idle: "mr_seeding \<sigma> = None"
  shows "mirror_inv k ref (\<sigma>\<lparr>mr_listed := rest, mr_seeding := Some (k, cq_resource cq, cs_DefaultLimit (cq_Spec cq)),
      mr_watcher := known_set k (cq_resource cq) (mr_watcher \<sigma>)\<rparr>)" (is "mirror_inv k ref ?\<sigma>")
proof -
  note inn = mirror_invD(1-3) [OF inv]
  have cq: "env k cq" "enforceable cq" "mr_server \<sigma> k = Some cq"
    using objs inn(3) item by (auto simp: objects_inv_def seeding_inv_def)
  then have ref: "cq_resource cq = ref" using governed_byD [OF sole, of k cq] enforceable_stamped by simp
  have keys: "seeding_keys ?\<sigma> = seeding_keys \<sigma>" using item idle by (auto simp: seeding_keys_def)
  have busy: "mr_worker \<sigma> \<noteq> Forgetting k r" for r
    using inn(2) item seeding_keysI(1) [where \<sigma> = \<sigma> and k = k and cq = cq] by auto
  have says: "says ?\<sigma> = says \<sigma>" by (simp add: says_def fun_eq_iff)
  have "thread_inv k ref ?\<sigma> (mr_worker \<sigma>)"
    using inn(2) busy keys says by (cases "mr_worker \<sigma>") (auto simp: pending_def ref)
  moreover have "registry_inv k ref ?\<sigma>" by (simp add: registry_inv_def ref)
  moreover have "seeding_inv k ref ?\<sigma>" using inn(3) item cq ref by (auto simp: seeding_inv_def says_def)
  moreover have "mirrored_key k ref ?\<sigma>" if "mirrored_key k ref \<sigma>"
    using that cq ref enforceable_not_gone by (auto simp: mirrored_key_def)
  ultimately show ?thesis using mirror_invD(4) [OF inv] by (simp add: mirror_inv_def pending_def)
qed

lemma inv_seeded:
  assumes inv: "mirror_inv k ref \<sigma>" and bound: "bound_inv {k} ref \<sigma>" and item: "mr_seeding \<sigma> = Some (k, r, limit)"
  shows "mirror_inv k ref (\<sigma>\<lparr>mr_seeding := None, mr_watcher := limit_set r limit (mr_watcher \<sigma>)\<rparr>)" (is "mirror_inv k ref ?\<sigma>")
proof -
  note inn = mirror_invD(1-3) [OF inv]
  have ref: "r = ref" using bound_invD(3) [OF bound item] by simp
  have new: "rw_known (mr_watcher \<sigma>) k = Some ref" "says \<sigma> k limit" using inn(3) item by (auto simp: seeding_inv_def)
  have says: "says ?\<sigma> = says \<sigma>" by (simp add: says_def fun_eq_iff)
  have "seeding_keys ?\<sigma> \<subseteq> seeding_keys \<sigma>" by (auto simp: seeding_keys_def)
  then have "thread_inv k ref ?\<sigma> (mr_worker \<sigma>)" using inn(2) says by (cases "mr_worker \<sigma>") (auto simp: pending_def)
  moreover have "registry_inv k ref ?\<sigma>" using new by (simp add: registry_inv_def)
  moreover have "seeding_inv k ref ?\<sigma>" using inn(3) by (simp add: seeding_inv_def)
  moreover have "mirrored_key k ref ?\<sigma>"
    using new ref enforceable_not_gone by (auto simp: mirrored_key_def says_def)
  ultimately show ?thesis by (simp add: mirror_inv_def)
qed

text \<open>The steps of the other quotas.\<close>

lemma other_limit: "mr_seeding \<sigma> = Some (k', r, l) \<Longrightarrow> bound_inv {k} ref \<sigma> \<Longrightarrow> k' \<noteq> k \<Longrightarrow> r \<noteq> ref"
  using bound_invD(3) by blast

lemma view_finish:
  assumes bound: "bound_inv {k} ref \<sigma>" and key: "thread_key (mr_worker \<sigma>) \<noteq> Some k"
  shows "same_view k ref \<sigma> (\<sigma>\<lparr>mr_worker := TIdle, mr_watcher := reconcile_exit (mr_worker \<sigma>) (mr_watcher \<sigma>)\<rparr>)"
  using key bound_invD(2) [OF bound] by (cases "mr_worker \<sigma>") (auto simp: same_view_def pending_def)

lemma view_reconcile:
  assumes "k' \<noteq> k" and "mr_worker \<sigma> = TIdle" and enter: "reconcile_enter k' got (mr_watcher \<sigma>) = (t, w)"
  shows "same_view k ref \<sigma> (\<sigma>\<lparr>mr_queue := mr_queue \<sigma> - {k'}, mr_worker := t, mr_watcher := w\<rparr>)"
  using enter by (cases rule: reconcile_enter_cases) (use assms(1,2) in \<open>auto simp: same_view_def pending_def\<close>)

lemma mirror_work_inv:
  assumes step: "mirror_work calm \<sigma> \<sigma>'" and inv: "mirror_inv k ref \<sigma>" and objs: "objects_inv env \<sigma>"
    and bound: "bound_inv {k} ref \<sigma>" and sole: "sole_governor env k ref" and k: "k \<in> calm"
  shows "mirror_inv k ref \<sigma>'"
  using step
proof cases
  case (deliver k')
  show ?thesis
    by (rule keep_pending [OF inv])
      (use deliver(1) mirror_invD(3) [OF inv] in \<open>auto simp: seeding_inv_def pending_def seeding_keys_def says_def\<close>)
next
  case (reconcile k' t w)
  show ?thesis
  proof (cases "k' = k")
    case True
    then show ?thesis using inv_reconcile [OF inv objs bound sole] reconcile k by simp
  next
    case False
    from same_view_inv [OF view_reconcile [OF False reconcile(2,5)] inv] show ?thesis unfolding reconcile(1) .
  qed
next
  case finish
  then show ?thesis using inv_finish [OF inv bound] same_view_inv [OF view_finish [OF bound] inv] by blast
next
  case (seed k' cq rest)
  show ?thesis
  proof (cases "k' = k")
    case True
    then show ?thesis using inv_seed [OF inv objs sole] seed by simp
  next
    case False
    then have "same_view k ref \<sigma> \<sigma>'" using seed by (auto simp: same_view_def pending_def)
    then show ?thesis using inv by (rule same_view_inv)
  qed
next
  case (seeded k' r limit)
  show ?thesis
  proof (cases "k' = k")
    case True
    then show ?thesis using inv_seeded [OF inv bound] seeded by simp
  next
    case False
    then have "same_view k ref \<sigma> \<sigma>'" using seeded other_limit [OF seeded(2) bound] by (auto simp: same_view_def pending_def)
    then show ?thesis using inv by (rule same_view_inv)
  qed
qed

lemma mirror_step_inv:
  assumes step: "mirror_step env calm \<sigma> \<sigma>'" and inv: "mirror_inv k ref \<sigma>" and objs: "objects_inv env \<sigma>"
    and bound: "bound_inv {k} ref \<sigma>" and sole: "sole_governor env k ref" and k: "k \<in> calm"
  shows "mirror_inv k ref \<sigma>'"
  using step
proof cases
  case own
  then show ?thesis using mirror_work_inv [OF _ inv objs bound sole k] by blast
next
  case (change k' obj)
  have "seeding_inv k ref \<sigma>'"
    using mirror_invD(3) [OF inv] change k seeding_keysI [where \<sigma> = \<sigma> and k = k]
    by (fastforce simp: seeding_inv_def says_def)
  then show ?thesis by (rule keep_pending [OF inv]) (use change(1) in \<open>auto simp: seeding_keys_def pending_def\<close>)
next
  case (requeue k')
  show ?thesis
    by (rule keep_pending [OF inv])
      (use requeue mirror_invD(3) [OF inv] in \<open>auto simp: seeding_inv_def pending_def seeding_keys_def says_def\<close>)
next
  case (list_shard items)
  then have items: "\<And>cq. (k, cq) \<in> set items \<Longrightarrow> mr_server \<sigma> k = Some cq \<and> thread_key (mr_worker \<sigma>) \<noteq> Some k"
    using k by fastforce
  show ?thesis
    by (rule keep_pending [OF inv])
      (use list_shard items mirror_invD(3) [OF inv] in \<open>auto simp: seeding_inv_def pending_def seeding_keys_def says_def\<close>)
next
  case populated
  show ?thesis
    by (rule keep_pending [OF inv])
      (use populated mirror_invD(3) [OF inv] in \<open>auto simp: seeding_inv_def pending_def seeding_keys_def says_def\<close>)
qed

lemma mirror_reach_inv:
  assumes "mirror_reach env calm \<sigma>" and sole: "sole_governor env k ref" and k: "k \<in> calm"
  shows "mirror_inv k ref \<sigma>"
  using assms(1)
proof (induction rule: mirror_reach_induct)
  case (step \<sigma> \<sigma>')
  from mirror_step_inv [OF step(2,3) mirror_reach_objects [OF step(1)] mirror_reach_bound [OF step(1) sole] sole k]
  show ?case .
qed (rule mirror_inv_init)

section \<open>A resource that nobody governs\<close>

lemma ungoverned_step:
  assumes step: "mirror_step env calm \<sigma> \<sigma>'" and bound: "bound_inv {} ref \<sigma>" and unset: "limit_at \<sigma> ref = None"
  shows "limit_at \<sigma>' ref = None"
  using step
proof cases
  case own
  then show ?thesis
  proof cases
    case (reconcile k t w)
    from reconcile(5) unset show ?thesis unfolding reconcile(1) by (cases rule: reconcile_enter_cases) simp_all
  next
    case finish
    then show ?thesis using unset bound_invD(2) [OF bound] by (cases "mr_worker \<sigma>") simp_all
  next
    case (seeded k r l)
    then show ?thesis using unset bound_invD(3) [OF bound seeded(2)] by simp
  qed (use unset in simp_all)
qed (use unset in simp_all)

lemma ungoverned_limit:
  assumes "mirror_reach env calm \<sigma>" and gov: "governed_by env {} ref"
  shows "LimitFor (rw_reg (mr_watcher \<sigma>)) cl ref = None"
proof -
  from assms(1) have "limit_at \<sigma> ref = None"
  proof (induction rule: mirror_reach_induct)
    case (init server)
    show ?case by (simp add: mirror_init_def new_watcher_def limits.laws)
  next
    case (step \<sigma> \<sigma>')
    from ungoverned_step [OF step(2) mirror_reach_bound [OF step(1) gov] step(3)] show ?case .
  qed
  then show ?thesis by (simp add: LimitFor_any_cluster [of _ cl _ "[]"])
qed

section \<open>A change heals what a race left behind\<close>

text \<open>
  Once nothing is being seeded any more a stale limit lasts only until the next change of its quota:
  this holds of every quota, calm or not, from any state on in which it has a change on its way.
\<close>

definition healing_inv :: "string \<Rightarrow> ResourceRef \<Rightarrow> mirror \<Rightarrow> bool" where
  "healing_inv k ref \<sigma> \<longleftrightarrow> seeding_keys \<sigma> = {} \<and> (\<not> pending \<sigma> k \<longrightarrow>
     (case mr_worker \<sigma> of
        Remembering k' r limit \<Rightarrow> k' = k \<longrightarrow> says \<sigma> k limit
      | Forgetting k' r \<Rightarrow> k' = k \<longrightarrow> gone (mr_server \<sigma> k)
      | TIdle \<Rightarrow> True) \<and>
     (thread_key (mr_worker \<sigma>) \<noteq> Some k \<longrightarrow> (\<forall>limit. says \<sigma> k limit \<longrightarrow> limit_at \<sigma> ref = Some limit)))"

lemma healing_start: "pending \<sigma> k \<Longrightarrow> seeding_keys \<sigma> = {} \<Longrightarrow> healing_inv k ref \<sigma>"
  by (simp add: healing_inv_def)

lemma says_not_gone: "says \<sigma> k limit \<Longrightarrow> \<not> gone (mr_server \<sigma> k)"
  using enforceable_not_gone by (auto simp: says_def)

lemma healing_work:
  assumes step: "mirror_work calm \<sigma> \<sigma>'" and inv: "healing_inv k ref \<sigma>" and objs: "objects_inv env \<sigma>"
    and bound: "bound_inv {k} ref \<sigma>" and sole: "sole_governor env k ref"
  shows "healing_inv k ref \<sigma>'"
  using step
proof cases
  case (deliver k')
  then show ?thesis using inv
    by (auto simp: healing_inv_def pending_def seeding_keys_def says_def split: thread.splits)
next
  case (reconcile k' t w)
  have cache: "mr_cache \<sigma> k = mr_server \<sigma> k" if "\<not> pending \<sigma>' k" "k' = k"
    using objs that reconcile(1) by (auto simp: objects_inv_def pending_def)
  have keys: "seeding_keys \<sigma>' = {}" using inv reconcile(1) by (simp add: healing_inv_def seeding_keys_def)
  have says: "says \<sigma>' = says \<sigma>" using reconcile(1) by (simp add: says_def fun_eq_iff)
  show ?thesis
  proof (cases "k' = k")
    case False
    then have "same_view k ref \<sigma> \<sigma>'" unfolding reconcile(1) by (rule view_reconcile [OF _ reconcile(2,5)])
    then show ?thesis using inv keys says by (auto simp: healing_inv_def same_view_def split: thread.splits)
  next
    case True
    from reconcile(5) show ?thesis
    proof (cases rule: reconcile_enter_cases)
      case (remember cq)
      have "says \<sigma> k (cs_DefaultLimit (cq_Spec cq))" if "\<not> pending \<sigma>' k"
        using cache [OF that True] remember(1,2) True by (auto simp: says_def)
      then show ?thesis using keys says remember(3) reconcile(1) True by (simp add: healing_inv_def)
    qed (use True keys says cache reconcile(1) says_not_gone in
          \<open>auto simp: healing_inv_def says_def enforceable_not_gone\<close>)
  qed
next
  case finish
  show ?thesis
  proof (cases "thread_key (mr_worker \<sigma>) = Some k")
    case True
    then obtain r where "thread_ref (mr_worker \<sigma>) = Some (k, r)" by (cases "mr_worker \<sigma>") auto
    then have "r = ref" "thread_ref (mr_worker \<sigma>) = Some (k, ref)" using bound_invD(2) [OF bound] by auto
    then show ?thesis using inv finish(1) True says_not_gone
      by (cases "mr_worker \<sigma>") (auto simp: healing_inv_def pending_def seeding_keys_def says_def gone_def enforceable_def)
  next
    case False
    then have "same_view k ref \<sigma> \<sigma>'" unfolding finish(1) by (rule view_finish [OF bound])
    then show ?thesis using inv False finish(1)
      by (auto simp: healing_inv_def same_view_def seeding_keys_def says_def)
  qed
next
  case (seed k' cq rest)
  then show ?thesis using inv by (simp add: healing_inv_def seeding_keys_def)
next
  case (seeded k' r limit)
  then show ?thesis using inv by (simp add: healing_inv_def seeding_keys_def)
qed

lemma healing_outside:
  assumes "healing_inv k ref \<sigma>" and "mr_watcher \<sigma>' = mr_watcher \<sigma>" and "mr_worker \<sigma>' = mr_worker \<sigma>"
    and "seeding_keys \<sigma>' = {}" and "\<not> pending \<sigma>' k \<Longrightarrow> mr_server \<sigma>' k = mr_server \<sigma> k \<and> \<not> pending \<sigma> k"
  shows "healing_inv k ref \<sigma>'"
  using assms by (auto simp: healing_inv_def says_def split: thread.splits)

lemma healing_limit:
  assumes "healing_inv k ref \<sigma>" and "\<not> pending \<sigma> k" and "thread_key (mr_worker \<sigma>) \<noteq> Some k"
    and "mr_server \<sigma> k = Some cq" and "enforceable cq"
  shows "LimitFor (rw_reg (mr_watcher \<sigma>)) cl ref = Some (cs_DefaultLimit (cq_Spec cq))"
  using assms by (auto simp: healing_inv_def says_def LimitFor_any_cluster [of _ cl _ "[]"])

end
