(* ===== verification/Mirror_Properties.thy ===== *)
theory Mirror_Properties
  imports Mirror Watcher_Properties
begin

text \<open>
  What the webhook's mirror of the quotas promises in every interleaving of changes, deliveries,
  reconciles and the population: each calm quota that alone governs its resource and is not on its way
  through a queue is mirrored exactly, the webhook comes to rest after the last change, and the one race
  in which it rests on an old limit.
\<close>

section \<open>The population\<close>

text \<open>Run without interruption, the sections of the population are the loop over the items.\<close>

lemma seeds_as_steps:
  "mr_listed \<sigma> = items \<Longrightarrow> mr_seeding \<sigma> = None \<Longrightarrow> list_all (\<lambda>(k, cq). enforceable cq \<and> k = cq_Cluster cq @ ''/'' @ cq_Name cq) items \<Longrightarrow>
     (mirror_work calm)\<^sup>*\<^sup>* \<sigma>
       (\<sigma>\<lparr>mr_listed := [], mr_watcher := fst (seed_loop (map snd items) (mr_watcher \<sigma>, n))\<rparr>)"
proof (induction items arbitrary: \<sigma> n)
  case Nil
  then have "\<sigma>\<lparr>mr_listed := [], mr_watcher := fst (seed_loop (map snd []) (mr_watcher \<sigma>, n))\<rparr> = \<sigma>" by simp
  then show ?case by simp
next
  case (Cons item items)
  obtain k cq where item: "item = (k, cq)" by fastforce
  let ?\<sigma>1 = "\<sigma>\<lparr>mr_listed := items, mr_seeding := Some (k, cq_resource cq, cs_DefaultLimit (cq_Spec cq)),
      mr_watcher := known_set k (cq_resource cq) (mr_watcher \<sigma>)\<rparr>"
  let ?\<sigma>2 = "\<sigma>\<lparr>mr_listed := items, mr_watcher := remember k cq (mr_watcher \<sigma>)\<rparr>"
  have 1: "mirror_work calm \<sigma> ?\<sigma>1" using Cons.prems item by (intro seed) simp_all
  have "mirror_work calm ?\<sigma>1 (?\<sigma>1\<lparr>mr_seeding := None,
      mr_watcher := limit_set (cq_resource cq) (cs_DefaultLimit (cq_Spec cq)) (mr_watcher ?\<sigma>1)\<rparr>)"
    by (rule seeded) simp
  moreover have "?\<sigma>1\<lparr>mr_seeding := None,
      mr_watcher := limit_set (cq_resource cq) (cs_DefaultLimit (cq_Spec cq)) (mr_watcher ?\<sigma>1)\<rparr> = ?\<sigma>2"
    using Cons.prems(2) by (simp add: remember_sections)
  ultimately have 2: "mirror_work calm ?\<sigma>1 ?\<sigma>2" by simp
  have "(mirror_work calm)\<^sup>*\<^sup>* ?\<sigma>2
      (?\<sigma>2\<lparr>mr_listed := [], mr_watcher := fst (seed_loop (map snd items) (mr_watcher ?\<sigma>2, n + 1))\<rparr>)"
    using Cons.prems by (intro Cons.IH) simp_all
  moreover have "seed_loop (map snd (item # items)) (mr_watcher \<sigma>, n) = seed_loop (map snd items) (mr_watcher ?\<sigma>2, n + 1)"
    using Cons.prems(3) item by (auto simp: enforceable_def)
  ultimately show ?case using 1 2 by (simp add: converse_rtranclp_into_rtranclp)
qed

section \<open>Coming to rest\<close>

definition mirror_left :: "mirror \<Rightarrow> nat" where
  "mirror_left \<sigma> = 3 * card (mr_inflight \<sigma>) + 2 * card (mr_queue \<sigma>) + (if mr_worker \<sigma> = TIdle then 0 else 1) +
     2 * length (mr_listed \<sigma>) + (if mr_seeding \<sigma> = None then 0 else 1)"

lemma mirror_left_step:
  assumes step: "mirror_work calm \<sigma> \<sigma>'" and fin: "finite (mr_inflight \<sigma>)" "finite (mr_queue \<sigma>)"
  shows "mirror_left \<sigma>' < mirror_left \<sigma>"
  using step
proof cases
  case (deliver k)
  then have "card (mr_inflight \<sigma> - {k}) < card (mr_inflight \<sigma>)" using fin by (intro card_Diff1_less) simp_all
  moreover have "card (insert k (mr_queue \<sigma>)) \<le> Suc (card (mr_queue \<sigma>))" using fin by (simp add: card_insert_if)
  ultimately show ?thesis unfolding deliver(1) mirror_left_def by simp
next
  case (reconcile k t w)
  then have "card (mr_queue \<sigma> - {k}) < card (mr_queue \<sigma>)" using fin by (intro card_Diff1_less) simp_all
  then show ?thesis using reconcile(2) unfolding reconcile(1) mirror_left_def by simp
qed (auto simp: mirror_left_def)

lemma mirror_step_finite:
  "mirror_step env calm \<sigma> \<sigma>' \<Longrightarrow> finite (mr_inflight \<sigma>) \<and> finite (mr_queue \<sigma>) \<Longrightarrow>
     finite (mr_inflight \<sigma>') \<and> finite (mr_queue \<sigma>')"
  by (induction rule: mirror_step.induct) (auto elim: mirror_work.cases)

lemma mirror_reach_finite: "mirror_reach env calm \<sigma> \<Longrightarrow> finite (mr_inflight \<sigma>) \<and> finite (mr_queue \<sigma>)"
proof (induction rule: mirror_reach_induct)
  case (init server)
  then show ?case by (simp add: mirror_start_def mirror_init_def)
next
  case (step \<sigma> \<sigma>')
  from mirror_step_finite [OF step(2,3)] show ?case .
qed

interpretation mirror: settling "mirror_work calm" "\<lambda>\<sigma>. finite (mr_inflight \<sigma>) \<and> finite (mr_queue \<sigma>)" mirror_left for calm
proof
  fix \<sigma> \<sigma>' assume good: "finite (mr_inflight \<sigma>) \<and> finite (mr_queue \<sigma>)" and step: "mirror_work calm \<sigma> \<sigma>'"
  then show "mirror_left \<sigma>' < mirror_left \<sigma>" using mirror_left_step [OF step] by simp
  show "finite (mr_inflight \<sigma>') \<and> finite (mr_queue \<sigma>')"
    using mirror_step_finite [OF own [OF step] good] .
qed

lemma mirror_at_rest:
  "at_rest (mirror_work calm) \<sigma> \<longleftrightarrow> mr_inflight \<sigma> = {} \<and> mr_queue \<sigma> = {} \<and> mr_worker \<sigma> = TIdle \<and>
     mr_listed \<sigma> = [] \<and> mr_seeding \<sigma> = None" (is "_ \<longleftrightarrow> ?still")
proof
  assume rest: "at_rest (mirror_work calm) \<sigma>"
  then have no: "\<not> mirror_work calm \<sigma> \<sigma>'" for \<sigma>' by (simp add: at_rest_def)
  have idle: "mr_worker \<sigma> = TIdle" using no finish by blast
  have none: "mr_seeding \<sigma> = None" using no seeded by (metis option.exhaust surj_pair)
  have nil: "mr_listed \<sigma> = []" using no seed [OF _ none] by (metis neq_Nil_conv surj_pair)
  have "seeding_keys \<sigma> = {}" by (simp add: seeding_keys_def none nil)
  then have "mr_queue \<sigma> = {}" using no reconcile [OF idle] by (metis all_not_in_conv surj_pair)
  then show ?still using no deliver idle none nil by blast
next
  assume ?still
  then show "at_rest (mirror_work calm) \<sigma>" by (auto simp: at_rest_def elim: mirror_work.cases)
qed

lemma mirror_work_server: "(mirror_work calm)\<^sup>*\<^sup>* \<sigma> \<sigma>' \<Longrightarrow> mr_server \<sigma>' = mr_server \<sigma>"
  by (induction rule: rtranclp_induct) (auto elim: mirror_work.cases)

lemma mirror_work_reach:
  assumes "(mirror_work calm)\<^sup>*\<^sup>* \<sigma> \<sigma>'" and "mirror_reach env calm \<sigma>"
  shows "mirror_reach env calm \<sigma>'"
  using assms
proof (induction rule: rtranclp_induct)
  case (step \<sigma>1 \<sigma>2)
  from step.IH [OF step.prems] own [OF step.hyps(2), of env] show ?case
    unfolding mirror_reach_def by (meson rtranclp.rtrancl_into_rtrancl)
qed


section \<open>Schedules\<close>

text \<open>Names outside the table govern a resource of their own.\<close>

definition resource_of :: "(string \<times> ResourceRef) list \<Rightarrow> string \<Rightarrow> ResourceRef" where
  "resource_of tab k = (case map_of tab k of Some ref \<Rightarrow> ref
     | None \<Rightarrow> \<lparr>rf_Group = ''*'' @ k, rf_Resource = [], rf_IdentityHash = []\<rparr>)"

text \<open>An executable scheduler for concrete runs; each action is one step, or is refused.\<close>

datatype mirror_action =
    MChange string "ConsumptionQuota option" | MDeliver string | MReconcile string | MFinish
  | MList "(string \<times> ConsumptionQuota) list" | MSeed | MSeeded | MOpen

fun mirror_exec :: "(string \<times> ResourceRef) list \<Rightarrow> string set \<Rightarrow> mirror_action \<Rightarrow> mirror \<Rightarrow> mirror option" where
  "mirror_exec tab calm (MChange k obj) \<sigma> =
     (if (case obj of None \<Rightarrow> True | Some cq \<Rightarrow> governs (resource_of tab) k cq) \<and> (k \<notin> calm \<or> k \<notin> seeding_keys \<sigma>) then
        Some (\<sigma>\<lparr>mr_server := (mr_server \<sigma>)(k := obj), mr_inflight := insert k (mr_inflight \<sigma>)\<rparr>) else None)"
| "mirror_exec tab calm (MDeliver k) \<sigma> =
     (if k \<in> mr_inflight \<sigma> then
        Some (\<sigma>\<lparr>mr_cache := (mr_cache \<sigma>)(k := mr_server \<sigma> k), mr_inflight := mr_inflight \<sigma> - {k},
          mr_queue := insert k (mr_queue \<sigma>)\<rparr>) else None)"
| "mirror_exec tab calm (MReconcile k) \<sigma> =
     (if mr_worker \<sigma> = TIdle \<and> k \<in> mr_queue \<sigma> \<and> (k \<notin> calm \<or> k \<notin> seeding_keys \<sigma> \<or> mr_cache \<sigma> k = mr_server \<sigma> k) then
        case reconcile_enter k (mr_cache \<sigma> k) (mr_watcher \<sigma>) of (t, w) \<Rightarrow>
          Some (\<sigma>\<lparr>mr_queue := mr_queue \<sigma> - {k}, mr_worker := t, mr_watcher := w\<rparr>) else None)"
| "mirror_exec tab calm MFinish \<sigma> =
     (if mr_worker \<sigma> \<noteq> TIdle then
        Some (\<sigma>\<lparr>mr_worker := TIdle, mr_watcher := reconcile_exit (mr_worker \<sigma>) (mr_watcher \<sigma>)\<rparr>) else None)"
| "mirror_exec tab calm (MList items) \<sigma> =
     (if mr_listed \<sigma> = [] \<and> mr_seeding \<sigma> = None \<and>
         list_all (\<lambda>(k, cq). mr_server \<sigma> k = Some cq \<and> (k \<notin> calm \<or> thread_key (mr_worker \<sigma>) \<noteq> Some k)) items then
        Some (\<sigma>\<lparr>mr_listed := filter (\<lambda>(k, cq). enforceable cq) items\<rparr>) else None)"
| "mirror_exec tab calm MSeed \<sigma> =
     (case (mr_listed \<sigma>, mr_seeding \<sigma>) of
        ((k, cq) # rest, None) \<Rightarrow>
          Some (\<sigma>\<lparr>mr_listed := rest, mr_seeding := Some (k, cq_resource cq, cs_DefaultLimit (cq_Spec cq)),
            mr_watcher := known_set k (cq_resource cq) (mr_watcher \<sigma>)\<rparr>)
      | _ \<Rightarrow> None)"
| "mirror_exec tab calm MSeeded \<sigma> =
     (case mr_seeding \<sigma> of
        Some (k, ref, limit) \<Rightarrow> Some (\<sigma>\<lparr>mr_seeding := None, mr_watcher := limit_set ref limit (mr_watcher \<sigma>)\<rparr>)
      | None \<Rightarrow> None)"
| "mirror_exec tab calm MOpen \<sigma> =
     (if mr_listed \<sigma> = [] \<and> mr_seeding \<sigma> = None then Some (\<sigma>\<lparr>mr_open := True\<rparr>) else None)"

fun mirror_execs :: "(string \<times> ResourceRef) list \<Rightarrow> string set \<Rightarrow> mirror_action list \<Rightarrow> mirror \<Rightarrow> mirror option" where
  "mirror_execs tab calm [] \<sigma> = Some \<sigma>"
| "mirror_execs tab calm (a # as) \<sigma> =
     (case mirror_exec tab calm a \<sigma> of None \<Rightarrow> None | Some \<sigma>' \<Rightarrow> mirror_execs tab calm as \<sigma>')"

lemma mirror_exec_step:
  assumes "mirror_exec tab calm a \<sigma> = Some \<sigma>'" shows "mirror_step (governs (resource_of tab)) calm \<sigma> \<sigma>'"
proof (cases a)
  case (MChange k obj)
  then show ?thesis using assms by (auto split: if_splits option.splits intro!: change)
next
  case (MList items)
  then show ?thesis using assms by (auto simp: list_all_iff split: if_splits intro!: list_shard)
next
  case MOpen
  then show ?thesis using assms by (auto split: if_splits intro: populated)
next
  case (MDeliver k)
  then show ?thesis using assms by (auto split: if_splits intro!: own deliver)
next
  case (MReconcile k)
  then show ?thesis using assms by (auto split: if_splits prod.splits intro!: own reconcile)
next
  case MFinish
  then show ?thesis using assms by (auto split: if_splits intro!: own finish)
next
  case MSeed
  then show ?thesis using assms by (auto split: list.splits option.splits intro!: own seed)
next
  case MSeeded
  then show ?thesis using assms by (auto split: option.splits intro!: own seeded)
qed

text \<open>No quota is there at the start of these runs.\<close>

definition mirror_empty :: mirror where
  "mirror_empty = \<lparr>mr_server = Map.empty, mr_cache = Map.empty, mr_inflight = {}, mr_queue = {}, mr_worker = TIdle,
     mr_listed = [], mr_seeding = None, mr_watcher = new_watcher, mr_open = False\<rparr>"

lemma mirror_execs_reach:
  assumes "mirror_execs tab calm as mirror_empty = Some \<sigma>"
  shows "mirror_reach (governs (resource_of tab)) calm \<sigma>"
proof -
  have "(mirror_step (governs (resource_of tab)) calm)\<^sup>*\<^sup>* \<sigma>0 \<sigma>" if "mirror_execs tab calm as \<sigma>0 = Some \<sigma>" for \<sigma>0
    using that
  proof (induction as arbitrary: \<sigma>0)
    case (Cons a as)
    then obtain \<sigma>1 where "mirror_exec tab calm a \<sigma>0 = Some \<sigma>1" "mirror_execs tab calm as \<sigma>1 = Some \<sigma>"
      by (auto split: option.splits)
    with Cons.IH mirror_exec_step show ?case by (meson converse_rtranclp_into_rtranclp)
  qed simp
  from this [OF assms] show ?thesis
    unfolding mirror_reach_def
    by (intro exI [of _ Map.empty]) (simp add: mirror_empty_def mirror_init_def mirror_start_def)
qed


section \<open>The properties\<close>

lemma mirrored_limit:
  assumes "mirror_reach env calm \<sigma>" and "sole_governor env k ref" and "k \<in> calm"
    and "\<not> pending \<sigma> k" and "thread_key (mr_worker \<sigma>) \<noteq> Some k"
  shows "(gone (mr_server \<sigma> k) \<longrightarrow> LimitFor (rw_reg (mr_watcher \<sigma>)) cl ref = None) \<and>
    (\<forall>cq. mr_server \<sigma> k = Some cq \<and> enforceable cq \<longrightarrow>
       LimitFor (rw_reg (mr_watcher \<sigma>)) cl ref = Some (cs_DefaultLimit (cq_Spec cq)))"
  using mirror_invD(4) [OF mirror_reach_inv [OF assms(1-3)] assms(4,5)]
  by (auto simp: mirrored_key_def LimitFor_any_cluster [of _ cl _ "[]"])


text \<open>
  C14. The mirror settles: after the last change it takes at most \<open>mirror_left\<close> more steps in whatever
  order, whatever races there were and whichever quotas share a resource, and it can always go on to
  a state where none is left; where none is left, every quota that is the only one to govern its
  resource and that the population did not race with has exactly its limit in the registry, or none
  when it is gone, and a resource that no quota ever governed has none.
\<close>

theorem mirror_settles:
  assumes reach: "mirror_reach env calm \<sigma>"
  shows "(\<forall>n \<sigma>'. (mirror_work calm ^^ n) \<sigma> \<sigma>' \<longrightarrow> n \<le> mirror_left \<sigma>) \<and>
    (\<exists>\<sigma>'. (mirror_work calm)\<^sup>*\<^sup>* \<sigma> \<sigma>' \<and> at_rest (mirror_work calm) \<sigma>') \<and>
    (\<forall>\<sigma>'. (mirror_work calm)\<^sup>*\<^sup>* \<sigma> \<sigma>' \<and> at_rest (mirror_work calm) \<sigma>' \<longrightarrow> mr_server \<sigma>' = mr_server \<sigma> \<and>
       (\<forall>k ref cl. sole_governor env k ref \<and> k \<in> calm \<longrightarrow>
          (gone (mr_server \<sigma> k) \<longrightarrow> LimitFor (rw_reg (mr_watcher \<sigma>')) cl ref = None) \<and>
          (\<forall>cq. mr_server \<sigma> k = Some cq \<and> enforceable cq \<longrightarrow>
             LimitFor (rw_reg (mr_watcher \<sigma>')) cl ref = Some (cs_DefaultLimit (cq_Spec cq)))) \<and>
       (\<forall>ref cl. governed_by env {} ref \<longrightarrow> LimitFor (rw_reg (mr_watcher \<sigma>')) cl ref = None))"
proof (rule conjI [OF _ conjI])
  have good: "finite (mr_inflight \<sigma>) \<and> finite (mr_queue \<sigma>)" using reach by (rule mirror_reach_finite)
  show "\<forall>n \<sigma>'. (mirror_work calm ^^ n) \<sigma> \<sigma>' \<longrightarrow> n \<le> mirror_left \<sigma>" using mirror.path_bound [OF good] by blast
  show "\<exists>\<sigma>'. (mirror_work calm)\<^sup>*\<^sup>* \<sigma> \<sigma>' \<and> at_rest (mirror_work calm) \<sigma>'" using good by (rule mirror.comes_to_rest)
next
  show "\<forall>\<sigma>'. (mirror_work calm)\<^sup>*\<^sup>* \<sigma> \<sigma>' \<and> at_rest (mirror_work calm) \<sigma>' \<longrightarrow> mr_server \<sigma>' = mr_server \<sigma> \<and>
       (\<forall>k ref cl. sole_governor env k ref \<and> k \<in> calm \<longrightarrow>
          (gone (mr_server \<sigma> k) \<longrightarrow> LimitFor (rw_reg (mr_watcher \<sigma>')) cl ref = None) \<and>
          (\<forall>cq. mr_server \<sigma> k = Some cq \<and> enforceable cq \<longrightarrow>
             LimitFor (rw_reg (mr_watcher \<sigma>')) cl ref = Some (cs_DefaultLimit (cq_Spec cq)))) \<and>
       (\<forall>ref cl. governed_by env {} ref \<longrightarrow> LimitFor (rw_reg (mr_watcher \<sigma>')) cl ref = None)"
    (is "\<forall>\<sigma>'. _ \<longrightarrow> ?good \<sigma>'")
  proof (intro allI impI)
    fix \<sigma>' assume "(mirror_work calm)\<^sup>*\<^sup>* \<sigma> \<sigma>' \<and> at_rest (mirror_work calm) \<sigma>'"
    then have path: "(mirror_work calm)\<^sup>*\<^sup>* \<sigma> \<sigma>'" and still: "\<not> pending \<sigma>' k" "thread_key (mr_worker \<sigma>') \<noteq> Some k" for k
      by (simp_all add: mirror_at_rest pending_def)
    note reach' = mirror_work_reach [OF path reach]
    from mirrored_limit [OF reach' _ _ still, unfolded mirror_work_server [OF path]] ungoverned_limit [OF reach']
      mirror_work_server [OF path]
    show "?good \<sigma>'" by blast
  qed
qed

text \<open>A quota is created, seeded by the population, and lowered while the first reconcile is pending.\<close>

abbreviation demo_q :: string where "demo_q \<equiv> ''root:p/q''"

definition demo_table :: "(string \<times> ResourceRef) list" where
  "demo_table = [(demo_q, cq_resource (quota_for ''q'' ''h'' 5))]"

definition follow_run :: "mirror_action list" where
  "follow_run = [MChange demo_q (Some (quota_for ''q'' ''h'' 5)), MList [(demo_q, quota_for ''q'' ''h'' 5)], MSeed, MSeeded, MOpen,
     MDeliver demo_q, MChange demo_q (Some (quota_for ''q'' ''h'' 3)), MReconcile demo_q, MFinish]"

lemma inj_resource_of:
  assumes "distinct (map snd tab)" and "\<forall>ref \<in> snd ` set tab. \<forall>k. rf_Group ref \<noteq> ''*'' @ k"
  shows "inj (resource_of tab)"
proof (rule injI)
  fix k k' assume eq: "resource_of tab k = resource_of tab k'"
  have in_tab: "(k, ref) \<in> set tab" if "map_of tab k = Some ref" for k ref using that by (rule map_of_SomeD)
  show "k = k'"
  proof (cases "map_of tab k"; cases "map_of tab k'")
    fix ref ref' assume m: "map_of tab k = Some ref" "map_of tab k' = Some ref'"
    then have "ref = ref'" using eq by (simp add: resource_of_def)
    with in_tab [OF m(1)] in_tab [OF m(2)] assms(1) show ?thesis by (metis eq_key_imp_eq_value distinct_map inj_onD snd_conv prod.inject)
  qed (use eq assms(2) in_tab in \<open>force simp: resource_of_def\<close>)+
qed

lemma demo_table_inj: "inj (resource_of demo_table)"
  by (rule inj_resource_of) (simp_all add: demo_table_def cq_resource_def quota_for_def Let_def)

definition rest_at :: "mirror \<Rightarrow> int32 option \<Rightarrow> bool" where
  "rest_at \<sigma> limit \<longleftrightarrow> mr_inflight \<sigma> = {} \<and> mr_queue \<sigma> = {} \<and> mr_worker \<sigma> = TIdle \<and>
     mr_listed \<sigma> = [] \<and> mr_seeding \<sigma> = None \<and> mr_open \<sigma> \<and> limit_at \<sigma> (cq_resource (quota_for ''q'' ''h'' 5)) = limit"

lemma demo_sole: "sole_governor (governs (resource_of demo_table)) demo_q (cq_resource (quota_for ''q'' ''h'' 5))"
proof -
  have "resource_of demo_table demo_q = cq_resource (quota_for ''q'' ''h'' 5)"
    by (simp add: resource_of_def demo_table_def)
  with governs_sole [OF demo_table_inj, of demo_q] show ?thesis by simp
qed


theorem mirror_settles_witness:
  "\<exists>\<sigma> \<sigma>'. mirror_execs demo_table {demo_q} follow_run mirror_empty = Some \<sigma> \<and> (mirror_work {demo_q})\<^sup>*\<^sup>* \<sigma> \<sigma>' \<and>
     at_rest (mirror_work {demo_q}) \<sigma>' \<and> LimitFor (rw_reg (mr_watcher \<sigma>')) [] (cq_resource (quota_for ''q'' ''h'' 5)) = Some 3"
proof -
  have "map_option (\<lambda>\<sigma>. mr_server \<sigma> demo_q) (mirror_execs demo_table {demo_q} follow_run mirror_empty) =
      Some (Some (quota_for ''q'' ''h'' 3))" by code_simp
  then obtain \<sigma> where run: "mirror_execs demo_table {demo_q} follow_run mirror_empty = Some \<sigma>"
    and server: "mr_server \<sigma> demo_q = Some (quota_for ''q'' ''h'' 3)" by auto
  have "enforceable (quota_for ''q'' ''h'' 3)" "cs_DefaultLimit (cq_Spec (quota_for ''q'' ''h'' 3)) = 3"
    by (simp_all add: enforceable_def quota_for_def)
  then show ?thesis
    using mirror_settles [OF mirror_execs_reach [OF run]] demo_sole server run by (metis singletonI)
qed

section \<open>The race of the population\<close>

definition late_seed_run :: "ConsumptionQuota option \<Rightarrow> mirror_action list" where
  "late_seed_run obj = [MChange demo_q (Some (quota_for ''q'' ''h'' 5)), MDeliver demo_q, MReconcile demo_q, MFinish,
     MList [(demo_q, quota_for ''q'' ''h'' 5)], MChange demo_q obj, MDeliver demo_q, MReconcile demo_q, MFinish, MSeed, MSeeded, MOpen]"

text \<open>
  C19. Why the population must not race with the worker: a quota that is lowered, or deleted, between
  the list and the seeding of its item is reconciled first and seeded with the old limit after; the
  webhook then rests, open and with nothing queued, on a limit of 5 for a quota whose limit is 3,
  or for a quota that does not exist.
\<close>

theorem population_race_sticks:
  "(\<exists>\<sigma>. mirror_reach (governs (resource_of demo_table)) {} \<sigma> \<and> at_rest (mirror_work {}) \<sigma> \<and> mr_open \<sigma> \<and>
      mr_server \<sigma> demo_q = Some (quota_for ''q'' ''h'' 3) \<and>
      limit_at \<sigma> (cq_resource (quota_for ''q'' ''h'' 3)) = Some 5) \<and>
   (\<exists>\<sigma>. mirror_reach (governs (resource_of demo_table)) {} \<sigma> \<and> at_rest (mirror_work {}) \<sigma> \<and> mr_open \<sigma> \<and>
      mr_server \<sigma> demo_q = None \<and> limit_at \<sigma> (cq_resource (quota_for ''q'' ''h'' 3)) = Some 5)"
proof -
  have same: "cq_resource (quota_for ''q'' ''h'' 3) = cq_resource (quota_for ''q'' ''h'' 5)"
    by (simp add: cq_resource_def quota_for_def)
  have stuck: "\<exists>\<sigma>. mirror_reach (governs (resource_of demo_table)) {} \<sigma> \<and> at_rest (mirror_work {}) \<sigma> \<and> mr_open \<sigma> \<and>
      mr_server \<sigma> demo_q = obj \<and> limit_at \<sigma> (cq_resource (quota_for ''q'' ''h'' 3)) = Some 5"
    if run: "map_option (\<lambda>\<sigma>. (rest_at \<sigma> (Some 5), mr_server \<sigma> demo_q)) (mirror_execs demo_table {} (late_seed_run obj) mirror_empty) = Some (True, obj)"
    for obj
  proof -
    obtain \<sigma> where "mirror_execs demo_table {} (late_seed_run obj) mirror_empty = Some \<sigma>" "rest_at \<sigma> (Some 5)" "mr_server \<sigma> demo_q = obj"
      using run unfolding map_option_eq_Some prod.inject by blast
    with mirror_execs_reach show ?thesis unfolding rest_at_def same mirror_at_rest by blast
  qed
  show ?thesis by (intro conjI; rule stuck; code_simp)
qed

end
