(* ===== verification/Replica.thy ===== *)
theory Replica
  imports Mirror_Properties Webhook_Process
begin

text \<open>
  One replica of the webhook as a whole: the mirror of the quotas at its critical sections, the
  population of \<open>PopulateRegistry\<close> shard by shard and attempt by attempt, the gate it opens, and the
  requests the dispatcher serves from the mirrored registry, all interleaved. \<open>shards\<close> are the quotas
  that each advertised endpoint lists; \<open>still\<close> are quotas that nobody changes in the run, and \<open>calm\<close>
  quotas whose seeding does not race with an outdated reconcile, as in \<open>Mirror\<close>. With both empty these
  are all the runs of the code.
\<close>

section \<open>State and steps\<close>

text \<open>\<open>rp_todo\<close> are the shards the current attempt has not listed; \<open>None\<close> before the first attempt.\<close>

record 'w replica =
  rp_mirror :: mirror
  rp_todo :: "string set list option"
  rp_dispatcher :: "'w validatorDispatcher"
  rp_world :: 'w

definition replica_init :: "(string \<rightharpoonup> ConsumptionQuota) \<Rightarrow> 'w \<Rightarrow> 'w replica" where
  "replica_init server w =
     \<lparr>rp_mirror = mirror_init server, rp_todo = None, rp_dispatcher = newValidatorDispatcher False, rp_world = w\<rparr>"

text \<open>What a request sees: the registry of the mirror, the dispatcher and the ledgers.\<close>

definition as_process :: "'w replica \<Rightarrow> 'w webhook_process" where
  "as_process p =
     \<lparr>wp_world = rp_world p, wp_watcher = mr_watcher (rp_mirror p), wp_dispatcher = rp_dispatcher p\<rparr>"

definition replica_serve ::
  "(string \<Rightarrow> string) \<Rightarrow> ('w \<times> bool) retrier \<Rightarrow> 'w Store \<Rightarrow> (string \<Rightarrow> (string \<rightharpoonup> string) option)
     \<Rightarrow> string \<Rightarrow> Request \<Rightarrow> 'w replica \<Rightarrow> answer \<times> 'w replica" where
  "replica_serve sha256 run s unmarshal path req p =
     (case serve_request sha256 run s unmarshal path req (as_process p) of
        (a, q) \<Rightarrow> (a, p\<lparr>rp_world := wp_world q, rp_dispatcher := wp_dispatcher q\<rparr>))"

text \<open>The shard's answer: each of its quotas, as the server has it.\<close>

definition shard_items :: "string set \<Rightarrow> mirror \<Rightarrow> (string \<times> ConsumptionQuota) list \<Rightarrow> bool" where
  "shard_items K m items \<longleftrightarrow> set items = {(k, cq). k \<in> K \<and> mr_server m k = Some cq}"

text \<open>
  A failed list ends an attempt between two shards, and the next one starts over; a requeued key is
  one whose informer has delivered. The last step stands for the controller and the other replicas.
\<close>

inductive replica_step ::
  "(string \<Rightarrow> ConsumptionQuota \<Rightarrow> bool) \<Rightarrow> string set \<Rightarrow> (string \<Rightarrow> string) \<Rightarrow> ('w \<times> bool) retrier \<Rightarrow> 'w Store
     \<Rightarrow> (string \<Rightarrow> (string \<rightharpoonup> string) option) \<Rightarrow> string set list \<Rightarrow> string set \<Rightarrow> 'w replica \<Rightarrow> 'w replica \<Rightarrow> bool"
  for env calm sha256 run s unmarshal shards still where
  works: "mirror_work calm (rp_mirror p) m \<Longrightarrow>
    replica_step env calm sha256 run s unmarshal shards still p (p\<lparr>rp_mirror := m\<rparr>)"
| changes: "pred_option (env k) obj \<Longrightarrow> k \<notin> calm \<or> k \<notin> seeding_keys (rp_mirror p) \<Longrightarrow> k \<notin> still \<Longrightarrow>
    replica_step env calm sha256 run s unmarshal shards still p (p\<lparr>rp_mirror := (rp_mirror p)\<lparr>
      mr_server := (mr_server (rp_mirror p))(k := obj), mr_inflight := insert k (mr_inflight (rp_mirror p))\<rparr>\<rparr>)"
| requeues: "k \<in> still \<longrightarrow> mr_cache (rp_mirror p) k = mr_server (rp_mirror p) k \<Longrightarrow>
    replica_step env calm sha256 run s unmarshal shards still p (p\<lparr>rp_mirror := (rp_mirror p)\<lparr>
      mr_queue := insert k (mr_queue (rp_mirror p))\<rparr>\<rparr>)"
| attempts: "\<not> mr_open (rp_mirror p) \<Longrightarrow> mr_listed (rp_mirror p) = [] \<Longrightarrow> mr_seeding (rp_mirror p) = None \<Longrightarrow>
    replica_step env calm sha256 run s unmarshal shards still p (p\<lparr>rp_todo := Some shards\<rparr>)"
| lists: "rp_todo p = Some (K # Ks) \<Longrightarrow> mr_listed (rp_mirror p) = [] \<Longrightarrow> mr_seeding (rp_mirror p) = None \<Longrightarrow>
    shard_items K (rp_mirror p) items \<Longrightarrow> \<forall>k \<in> fst ` set items. k \<notin> calm \<or> thread_key (mr_worker (rp_mirror p)) \<noteq> Some k \<Longrightarrow>
    replica_step env calm sha256 run s unmarshal shards still p (p\<lparr>rp_todo := Some Ks, rp_mirror := (rp_mirror p)\<lparr>
      mr_listed := filter (\<lambda>(k, cq). enforceable cq) items\<rparr>\<rparr>)"
| opens: "rp_todo p = Some [] \<Longrightarrow> mr_listed (rp_mirror p) = [] \<Longrightarrow> mr_seeding (rp_mirror p) = None \<Longrightarrow>
    replica_step env calm sha256 run s unmarshal shards still p (p\<lparr>rp_mirror := (rp_mirror p)\<lparr>mr_open := True\<rparr>,
      rp_dispatcher := (rp_dispatcher p)\<lparr>vd_initialized := True\<rparr>\<rparr>)"
| serves: "replica_serve sha256 run s unmarshal path req p = (a, p') \<Longrightarrow>
    replica_step env calm sha256 run s unmarshal shards still p p'"
| elsewhere: "replica_step env calm sha256 run s unmarshal shards still p (p\<lparr>rp_world := w\<rparr>)"

definition replica_reach ::
  "(string \<Rightarrow> ConsumptionQuota \<Rightarrow> bool) \<Rightarrow> string set \<Rightarrow> (string \<Rightarrow> string) \<Rightarrow> ('w \<times> bool) retrier \<Rightarrow> 'w Store
     \<Rightarrow> (string \<Rightarrow> (string \<rightharpoonup> string) option) \<Rightarrow> string set list \<Rightarrow> string set
     \<Rightarrow> (string \<rightharpoonup> ConsumptionQuota) \<Rightarrow> 'w replica \<Rightarrow> bool" where
  "replica_reach env calm sha256 run s unmarshal shards still server p \<longleftrightarrow>
     mirror_start env server \<and>
     (\<exists>w. (replica_step env calm sha256 run s unmarshal shards still)\<^sup>*\<^sup>* (replica_init server w) p)"

section \<open>The parts of a replica\<close>

text \<open>Its mirror takes the mirror's steps, or none.\<close>

lemma replica_step_mirror:
  assumes "replica_step env calm sha256 run s unmarshal shards still p p'"
  shows "(mirror_step env calm)\<^sup>*\<^sup>* (rp_mirror p) (rp_mirror p')"
  using assms
proof cases
  case (works m)
  then show ?thesis using own by (auto intro: r_into_rtranclp)
next
  case (changes k obj)
  then show ?thesis using change [of env k obj calm "rp_mirror p"] by (auto intro: r_into_rtranclp)
next
  case (requeues k)
  then show ?thesis using requeue by (auto intro: r_into_rtranclp)
next
  case (lists K Ks items)
  then have "\<forall>(k, cq) \<in> set items. mr_server (rp_mirror p) k = Some cq \<and>
      (k \<notin> calm \<or> thread_key (mr_worker (rp_mirror p)) \<noteq> Some k)"
    by (force simp: shard_items_def)
  then show ?thesis using lists list_shard by (auto intro: r_into_rtranclp)
next
  case opens
  then show ?thesis using mirror_step.populated by (auto intro: r_into_rtranclp)
qed (auto simp: replica_serve_def split: prod.splits)

lemma replica_reach_mirror:
  assumes "replica_reach env calm sha256 run s unmarshal shards still server p"
  shows "mirror_reach env calm (rp_mirror p)"
proof -
  obtain w where path: "(replica_step env calm sha256 run s unmarshal shards still)\<^sup>*\<^sup>* (replica_init server w) p"
    and init: "mirror_start env server"
    using assms unfolding replica_reach_def by blast
  from path have "(mirror_step env calm)\<^sup>*\<^sup>* (mirror_init server) (rp_mirror p)"
  proof (induction rule: rtranclp_induct)
    case base
    show ?case by (simp add: replica_init_def)
  next
    case (step p p')
    from step.IH replica_step_mirror [OF step.hyps(2)] show ?case by simp
  qed
  with init show ?thesis unfolding mirror_reach_def by blast
qed

text \<open>The dispatcher is open exactly when the gate is, and its validators stay bound to their paths.\<close>

definition gate_inv :: "(string \<Rightarrow> string) \<Rightarrow> ('w \<times> bool) retrier \<Rightarrow> 'w Store \<Rightarrow> 'w replica \<Rightarrow> bool" where
  "gate_inv sha256 run s p \<longleftrightarrow> dispatch_inv sha256 run s (rp_dispatcher p) \<and>
     vd_initialized (rp_dispatcher p) = mr_open (rp_mirror p) \<and>
     (mr_open (rp_mirror p) \<longrightarrow> rp_todo p = Some [] \<and> seeding_keys (rp_mirror p) = {})"

lemma seeding_keys_cases:
  "seeding_keys \<sigma> = {} \<longleftrightarrow> mr_listed \<sigma> = [] \<and> mr_seeding \<sigma> = None"
  by (auto simp: seeding_keys_def split: option.splits)

lemma mirror_work_open:
  "mirror_work calm \<sigma> \<sigma>' \<Longrightarrow> mr_open \<sigma>' = mr_open \<sigma> \<and> mr_server \<sigma>' = mr_server \<sigma> \<and> seeding_keys \<sigma>' \<subseteq> seeding_keys \<sigma>"
  by (induction rule: mirror_work.induct) (auto simp: seeding_keys_def)

lemma replica_serve_frame:
  assumes "replica_serve sha256 run s unmarshal path req p = (a, p')"
  shows "rp_mirror p' = rp_mirror p \<and> rp_todo p' = rp_todo p"
  using assms by (auto simp: replica_serve_def split: prod.splits)

lemma serve_request_initialized:
  assumes "dispatch_inv sha256 run s (wp_dispatcher p)"
    and "serve_request sha256 run s unmarshal path req p = (a, p')"
  shows "vd_initialized (wp_dispatcher p') = vd_initialized (wp_dispatcher p)"
  using ServeHTTP_inv [OF assms(1), of path] assms(2)
  by (auto simp: serve_request_def split: prod.splits served.splits)

lemma replica_serve_gate:
  assumes "dispatch_inv sha256 run s (rp_dispatcher p)"
    and "replica_serve sha256 run s unmarshal path req p = (a, p')"
  shows "dispatch_inv sha256 run s (rp_dispatcher p') \<and> vd_initialized (rp_dispatcher p') = vd_initialized (rp_dispatcher p)"
proof -
  obtain q where q: "serve_request sha256 run s unmarshal path req (as_process p) = (a, q)"
    and p': "rp_dispatcher p' = wp_dispatcher q"
    using assms(2) by (auto simp: replica_serve_def split: prod.splits)
  have d: "dispatch_inv sha256 run s (wp_dispatcher (as_process p))" using assms(1) by (simp add: as_process_def)
  from serve_request_bound [OF d q] serve_request_initialized [OF d q] show ?thesis
    by (simp add: p' as_process_def)
qed

lemma replica_step_gate:
  assumes "replica_step env calm sha256 run s unmarshal shards still p p'" and inv: "gate_inv sha256 run s p"
  shows "gate_inv sha256 run s p'"
  using assms(1)
proof cases
  case (works m)
  then show ?thesis using inv mirror_work_open [OF works(2)] by (auto simp: gate_inv_def)
next
  case (lists K Ks items)
  then show ?thesis using inv by (auto simp: gate_inv_def)
next
  case opens
  then show ?thesis using inv by (auto simp: gate_inv_def dispatch_inv_def seeding_keys_cases)
next
  case (serves path req a)
  then show ?thesis
    using inv replica_serve_gate [OF _ serves] replica_serve_frame [OF serves] by (auto simp: gate_inv_def)
qed (use inv in \<open>auto simp: gate_inv_def seeding_keys_def\<close>)

lemma replica_reach_gate:
  assumes "replica_reach env calm sha256 run s unmarshal shards still server p"
  shows "gate_inv sha256 run s p"
proof -
  obtain w where "(replica_step env calm sha256 run s unmarshal shards still)\<^sup>*\<^sup>* (replica_init server w) p"
    using assms unfolding replica_reach_def by blast
  then show ?thesis
  proof (induction rule: rtranclp_induct)
    case base
    show ?case by (simp add: gate_inv_def replica_init_def mirror_init_def dispatch_inv_new) (simp add: newValidatorDispatcher_def)
  next
    case (step p p')
    from replica_step_gate [OF step.hyps(2) step.IH] show ?case .
  qed
qed

section \<open>What an open replica decides by\<close>

text \<open>An open dispatcher decides every CREATE on a path by the limit the registry has for it.\<close>

lemma open_decides:
  assumes inv: "dispatch_inv sha256 run s (wp_dispatcher p)" "vd_initialized (wp_dispatcher p)"
    and req: "routable ref" "rq_Operation req = ''CREATE''" "clusterFromRequest unmarshal req \<noteq> []"
    and served: "serve_request sha256 run s unmarshal (validate_path ref) req p = (a, p')"
  shows "(LimitFor (rw_reg (wp_watcher p)) (clusterFromRequest unmarshal req) ref = None \<longrightarrow>
      a = Answered (Some (Errored 500 (ErrMsg (not_synced_msg ref)))) \<and> wp_world p' = wp_world p) \<and>
    (\<forall>limit. LimitFor (rw_reg (wp_watcher p)) (clusterFromRequest unmarshal req) ref = Some limit \<longrightarrow>
      (\<exists>r. a = Answered (Some r) \<and>
         (allowed r \<longleftrightarrow> fst (Store_Reserve sha256 run s (usage_key ref (clusterFromRequest unmarshal req))
            (objKey_of req) limit (wp_world p)) = Inr True)))"
proof -
  let ?v = "bound_validator sha256 run s ref" and ?cl = "clusterFromRequest unmarshal req"
    and ?reg = "rw_reg (wp_watcher p)"
  obtain d where "ServeHTTP sha256 run s (validate_path ref) (wp_dispatcher p) = (Serve ?v, d)"
    using ServeHTTP_routes [OF inv(1), of "validate_path ref"] inv(2) parse_validate_path [OF req(1)]
    by (metis option.simps(5) prod.collapse)
  then have a: "a = Answered (fst (Handle unmarshal ?reg ?v req (wp_world p)))"
    and w: "wp_world p' = snd (Handle unmarshal ?reg ?v req (wp_world p))"
    using served by (auto simp: serve_request_def split: prod.splits)
  have handle: "Handle unmarshal ?reg ?v req (wp_world p) =
      (case LimitFor ?reg ?cl ref of
         None \<Rightarrow> (Some (Errored 500 (ErrMsg (not_synced_msg ref))), wp_world p)
       | Some limit \<Rightarrow> (case Store_Reserve sha256 run s (usage_key ref ?cl) (objKey_of req) limit (wp_world p) of
           (Inl err, w') \<Rightarrow> (Some (Errored 500 err), w')
         | (Inr ok, w') \<Rightarrow> (Some (if ok then Allowed ''within quota'' else Denied (exceeded_msg limit ref)), w')))"
    using req(2,3) by (auto simp: Handle_def bound_validator_def split: option.split prod.split sum.split)
  show ?thesis
    unfolding a w handle by (auto split: prod.splits sum.splits)
qed

lemma replica_decides:
  assumes reach: "replica_reach env calm sha256 run s unmarshal shards still server p" and gate: "mr_open (rp_mirror p)"
    and req: "routable ref" "rq_Operation req = ''CREATE''" "clusterFromRequest unmarshal req \<noteq> []"
    and served: "replica_serve sha256 run s unmarshal (validate_path ref) req p = (a, p')"
  shows "(LimitFor (rw_reg (mr_watcher (rp_mirror p))) (clusterFromRequest unmarshal req) ref = None \<longrightarrow>
      a = Answered (Some (Errored 500 (ErrMsg (not_synced_msg ref)))) \<and> rp_world p' = rp_world p) \<and>
    (\<forall>limit. LimitFor (rw_reg (mr_watcher (rp_mirror p))) (clusterFromRequest unmarshal req) ref = Some limit \<longrightarrow>
      (\<exists>r. a = Answered (Some r) \<and>
         (allowed r \<longleftrightarrow> fst (Store_Reserve sha256 run s (usage_key ref (clusterFromRequest unmarshal req))
            (objKey_of req) limit (rp_world p)) = Inr True)))"
proof -
  have inv: "dispatch_inv sha256 run s (wp_dispatcher (as_process p))" "vd_initialized (wp_dispatcher (as_process p))"
    using replica_reach_gate [OF reach] gate by (simp_all add: gate_inv_def as_process_def)
  obtain q where q: "serve_request sha256 run s unmarshal (validate_path ref) req (as_process p) = (a, q)"
    and p': "rp_world p' = wp_world q"
    using served by (auto simp: replica_serve_def split: prod.splits)
  from open_decides [OF inv req q] show ?thesis by (simp add: p' as_process_def)
qed

end
