(* ===== verification/Replica_Properties.thy ===== *)
theory Replica_Properties
  imports Replica Webhook_Properties
begin

text \<open>
  What an open replica decides by: for quotas that are at rest in its mirror, for quotas nobody
  changed while it started, for quotas that change after it has opened, and for identities no quota
  governs.
\<close>

section \<open>Quotas that do not change\<close>

text \<open>What holds of a live stamped quota \<open>cq\<close> under \<open>k\<close> that is there from the start.\<close>

definition steady :: "string \<Rightarrow> ConsumptionQuota \<Rightarrow> mirror \<Rightarrow> bool" where
  "steady k cq m \<longleftrightarrow> mr_server m k = Some cq \<and> (mr_cache m k = None \<or> mr_cache m k = Some cq) \<and>
     (k \<in> mr_queue m \<longrightarrow> mr_cache m k = Some cq) \<and> (\<forall>ref. mr_worker m \<noteq> Forgetting k ref) \<and>
     (\<forall>ref l. mr_worker m = Remembering k ref l \<longrightarrow> l = cs_DefaultLimit (cq_Spec cq)) \<and>
     (\<forall>c. (k, c) \<in> set (mr_listed m) \<longrightarrow> c = cq) \<and>
     (\<forall>ref l. mr_seeding m = Some (k, ref, l) \<longrightarrow> l = cs_DefaultLimit (cq_Spec cq))"

definition seeded_limit :: "ResourceRef \<Rightarrow> string \<Rightarrow> ConsumptionQuota \<Rightarrow> mirror \<Rightarrow> bool" where
  "seeded_limit ref k cq m \<longleftrightarrow> k \<in> seeding_keys m \<or> limit_at m ref = Some (cs_DefaultLimit (cq_Spec cq))"

lemma steadyD:
  assumes "steady k cq m"
  shows "mr_server m k = Some cq" and "mr_cache m k = None \<or> mr_cache m k = Some cq"
    and "k \<in> mr_queue m \<Longrightarrow> mr_cache m k = Some cq" and "mr_worker m \<noteq> Forgetting k ref"
    and "mr_worker m = Remembering k ref l \<Longrightarrow> l = cs_DefaultLimit (cq_Spec cq)"
    and "(k, c) \<in> set (mr_listed m) \<Longrightarrow> c = cq"
    and "mr_seeding m = Some (k, ref, l) \<Longrightarrow> l = cs_DefaultLimit (cq_Spec cq)"
  using assms unfolding steady_def by blast+

lemma steady_work:
  assumes live: "enforceable cq" and st: "steady k cq m" and step: "mirror_work calm m m'"
  shows "steady k cq m'"
  using step
proof cases
  case (deliver k')
  then show ?thesis using st by (auto simp: steady_def)
next
  case (reconcile k' t w)
  show ?thesis
  proof (cases "k' = k")
    case True
    then have "mr_cache m k = Some cq" using steadyD(3) [OF st] reconcile by simp
    then have "t = Remembering k (cq_resource cq) (cs_DefaultLimit (cq_Spec cq))"
      using reconcile(5) live True by (simp add: reconcile_enter_def enforceable_def)
    with True st reconcile show ?thesis by (simp add: steady_def)
  next
    case False
    then have "thread_key t \<noteq> Some k"
      using reconcile(5) by (auto simp: reconcile_enter_def forget_enter_def split: option.splits if_splits)
    then show ?thesis using st reconcile by (auto simp: steady_def)
  qed
qed (use st in \<open>auto simp: steady_def\<close>)

text \<open>Once seeded, a quota keeps its limit: every section writes the limits of its own quota only.\<close>

lemma seeded_work:
  assumes bound: "bound_inv {k} ref m" and st: "steady k cq m"
    and step: "mirror_work calm m m'" and old: "seeded_limit ref k cq m"
  shows "seeded_limit ref k cq m'"
  using step
proof cases
  case (deliver k')
  then show ?thesis using old by (simp add: seeded_limit_def seeding_keys_def)
next
  case (reconcile k' t w)
  from reconcile(5) have "LimitFor (rw_reg w) [] ref = limit_at m ref"
    by (cases rule: reconcile_enter_cases) simp_all
  then show ?thesis using old reconcile(1) by (simp add: seeded_limit_def seeding_keys_def)
next
  case finish
  have "limit_at m' ref = Some (cs_DefaultLimit (cq_Spec cq))" if lim: "limit_at m ref = Some (cs_DefaultLimit (cq_Spec cq))"
  proof (cases "mr_worker m")
    case TIdle
    then show ?thesis using finish lim by simp
  next
    case (Remembering k' r l)
    then have "r = ref \<longleftrightarrow> k' = k" using bound_invD(2) [OF bound, of k' r] by simp
    then show ?thesis using steadyD(5) [OF st] Remembering finish(1) lim by auto
  next
    case (Forgetting k' r)
    then have "r \<noteq> ref" using bound_invD(2) [OF bound, of k' r] steadyD(4) [OF st] by auto
    then show ?thesis using Forgetting finish(1) lim by simp
  qed
  then show ?thesis using old finish(1) by (auto simp: seeded_limit_def seeding_keys_def)
next
  case (seed k' cq' rest)
  then have "seeding_keys m' = seeding_keys m" by (auto simp: seeding_keys_def)
  then show ?thesis using old seed(1) by (simp add: seeded_limit_def)
next
  case (seeded k' r l)
  then have r: "r = ref \<longleftrightarrow> k' = k" using bound_invD(3) [OF bound seeded(2)] by simp
  show ?thesis
  proof (cases "k' = k")
    case True
    then show ?thesis using seeded r steadyD(7) [OF st] by (simp add: seeded_limit_def)
  next
    case False
    then have "k \<in> seeding_keys m \<Longrightarrow> k \<in> seeding_keys m'" using seeded by (auto simp: seeding_keys_def)
    then show ?thesis using old seeded(1) r False by (auto simp: seeded_limit_def)
  qed
qed

text \<open>The population has been through the shard of \<open>k\<close> in this attempt.\<close>

definition passed :: "'w replica \<Rightarrow> string \<Rightarrow> bool" where
  "passed p k \<longleftrightarrow> (\<exists>Ks. rp_todo p = Some Ks \<and> (\<forall>K \<in> set Ks. k \<notin> K))"

definition still_inv :: "ResourceRef \<Rightarrow> string \<Rightarrow> ConsumptionQuota \<Rightarrow> 'w replica \<Rightarrow> bool" where
  "still_inv ref k cq p \<longleftrightarrow> steady k cq (rp_mirror p) \<and> (passed p k \<longrightarrow> seeded_limit ref k cq (rp_mirror p))"

lemma still_step:
  assumes bound: "bound_inv {k} ref (rp_mirror p)" and live: "enforceable cq"
    and k: "k \<in> still" "\<exists>K \<in> set shards. k \<in> K"
    and step: "replica_step env calm sha256 run s unmarshal shards still p p'" and old: "still_inv ref k cq p"
  shows "still_inv ref k cq p'"
proof -
  have st: "steady k cq (rp_mirror p)" and lim: "passed p k \<Longrightarrow> seeded_limit ref k cq (rp_mirror p)"
    using old by (simp_all add: still_inv_def)
  show ?thesis
    using step
  proof cases
    case (works m)
    then show ?thesis using steady_work [OF live st works(2)] seeded_work [OF bound st works(2)] lim
      by (auto simp: still_inv_def passed_def)
  next
    case (changes k' obj)
    then have "k' \<noteq> k" using k by auto
    then show ?thesis using changes st lim
      by (auto simp: still_inv_def passed_def steady_def seeded_limit_def seeding_keys_def)
  next
    case (requeues k')
    then show ?thesis using k st lim
      by (auto simp: still_inv_def passed_def steady_def seeded_limit_def seeding_keys_def)
  next
    case attempts
    then show ?thesis using k st by (auto simp: still_inv_def passed_def)
  next
    case (lists K Ks items)
    have "k \<in> seeding_keys (rp_mirror p')" if "k \<in> K"
      using that lists steadyD(1) [OF st] live by (force simp: shard_items_def seeding_keys_def)
    moreover have "passed p k" if "passed p' k" "k \<notin> K" using that lists by (auto simp: passed_def)
    moreover have "limit_at (rp_mirror p') ref = limit_at (rp_mirror p) ref" "seeding_keys (rp_mirror p) = {}"
      using lists by (simp_all add: seeding_keys_cases)
    ultimately have "passed p' k \<longrightarrow> seeded_limit ref k cq (rp_mirror p')"
      using lim by (auto simp: seeded_limit_def)
    moreover have "c = cq" if "(k, c) \<in> set items" for c
      using that lists(5) steadyD(1) [OF st] by (auto simp: shard_items_def)
    ultimately show ?thesis using lists st by (auto simp: still_inv_def steady_def)
  next
    case opens
    then show ?thesis using st lim
      by (auto simp: still_inv_def passed_def steady_def seeded_limit_def seeding_keys_def)
  next
    case (serves path req a)
    from replica_serve_frame [OF serves] old show ?thesis by (simp add: still_inv_def passed_def)
  next
    case (elsewhere w)
    then show ?thesis using old by (simp add: still_inv_def passed_def)
  qed
qed

lemma replica_reach_induct [consumes 1, case_names init step]:
  assumes "replica_reach env calm sha256 run s unmarshal shards still server p"
    and "\<And>w. P (replica_init server w)"
    and "\<And>p p'. replica_reach env calm sha256 run s unmarshal shards still server p \<Longrightarrow>
      replica_step env calm sha256 run s unmarshal shards still p p' \<Longrightarrow> P p \<Longrightarrow> P p'"
  shows "P p"
proof -
  obtain w where start: "mirror_start env server"
    and path: "(replica_step env calm sha256 run s unmarshal shards still)\<^sup>*\<^sup>* (replica_init server w) p"
    using assms(1) unfolding replica_reach_def by blast
  from path show ?thesis
  proof (induction rule: rtranclp_induct)
    case base
    show ?case by (rule assms(2))
  next
    case (step p p')
    have "replica_reach env calm sha256 run s unmarshal shards still server p"
      using start step.hyps(1) unfolding replica_reach_def by blast
    then show ?case using step.hyps(2) step.IH by (rule assms(3))
  qed
qed

lemma replica_reach_still:
  assumes reach: "replica_reach env calm sha256 run s unmarshal shards still server p" and sole: "sole_governor env k ref"
    and k: "k \<in> still" "\<exists>K \<in> set shards. k \<in> K" "server k = Some cq" "enforceable cq"
  shows "still_inv ref k cq p"
  using reach
proof (induction rule: replica_reach_induct)
  case (init w)
  show ?case using k by (simp add: still_inv_def passed_def steady_def replica_init_def mirror_init_def)
next
  case (step p p')
  have "bound_inv {k} ref (rp_mirror p)" using replica_reach_mirror [OF step(1)] sole by (rule mirror_reach_bound)
  from still_step [OF this k(4,1,2) step(2,3)] show ?case .
qed

lemma open_still_limit:
  assumes reach: "replica_reach env calm sha256 run s unmarshal shards still server p" and sole: "sole_governor env k ref"
    and k: "k \<in> still" "\<exists>K \<in> set shards. k \<in> K" "server k = Some cq" "enforceable cq"
    and gate: "mr_open (rp_mirror p)"
  shows "LimitFor (rw_reg (mr_watcher (rp_mirror p))) cl ref = Some (cs_DefaultLimit (cq_Spec cq))"
proof -
  have "rp_todo p = Some []" "seeding_keys (rp_mirror p) = {}"
    using replica_reach_gate [OF reach] gate by (simp_all add: gate_inv_def)
  with replica_reach_still [OF reach sole k] show ?thesis
    by (simp add: still_inv_def passed_def seeded_limit_def LimitFor_any_cluster [of _ cl _ "[]"])
qed

text \<open>An identity that no quota governs has no limit in any replica.\<close>

lemma ungoverned_no_limit:
  assumes "replica_reach env calm sha256 run s unmarshal shards still server p" and "governed_by env {} ref"
  shows "LimitFor (rw_reg (mr_watcher (rp_mirror p))) cl ref = None"
  using replica_reach_mirror [OF assms(1)] assms(2) by (rule ungoverned_limit)

section \<open>Quotas that change after the replica has opened\<close>

lemma healing_step:
  assumes reach: "replica_reach env calm sha256 run s unmarshal shards still server p" and gate: "mr_open (rp_mirror p)"
    and sole: "sole_governor env k ref" and inv: "healing_inv k ref (rp_mirror p)"
    and step: "replica_step env calm sha256 run s unmarshal shards still p p'"
  shows "healing_inv k ref (rp_mirror p') \<and> mr_open (rp_mirror p')"
proof -
  note m = replica_reach_mirror [OF reach]
  have todo: "rp_todo p = Some []" "seeding_keys (rp_mirror p) = {}"
    using replica_reach_gate [OF reach] gate by (simp_all add: gate_inv_def)
  show ?thesis
    using step
  proof cases
    case (works m')
    then show ?thesis
      using healing_work [OF works(2) inv mirror_reach_objects [OF m] mirror_reach_bound [OF m sole] sole]
        mirror_work_open [OF works(2)] gate by simp
  next
    case (changes k' obj)
    have "healing_inv k ref (rp_mirror p')"
      by (rule healing_outside [OF inv]) (use todo changes(1) in \<open>auto simp: seeding_keys_def pending_def\<close>)
    then show ?thesis using gate changes(1) by simp
  next
    case (requeues k')
    have "healing_inv k ref (rp_mirror p')"
      by (rule healing_outside [OF inv]) (use todo requeues(1) in \<open>auto simp: seeding_keys_def pending_def\<close>)
    then show ?thesis using gate requeues(1) by simp
  next
    case opens
    have "healing_inv k ref (rp_mirror p')"
      by (rule healing_outside [OF inv]) (use todo opens(1) in \<open>auto simp: seeding_keys_def pending_def\<close>)
    then show ?thesis using opens(1) by simp
  next
    case (serves path req a)
    from replica_serve_frame [OF serves] inv gate show ?thesis by simp
  qed (use inv gate todo in simp_all)
qed

lemma healing_path:
  assumes reach: "replica_reach env calm sha256 run s unmarshal shards still server p0" and gate: "mr_open (rp_mirror p0)"
    and sole: "sole_governor env k ref" and pend: "pending (rp_mirror p0) k"
    and path: "(replica_step env calm sha256 run s unmarshal shards still)\<^sup>*\<^sup>* p0 p"
  shows "replica_reach env calm sha256 run s unmarshal shards still server p \<and> healing_inv k ref (rp_mirror p) \<and>
    mr_open (rp_mirror p)"
  using path
proof (induction rule: rtranclp_induct)
  case base
  show ?case using reach gate pend healing_start replica_reach_gate [OF reach] by (simp add: gate_inv_def)
next
  case (step p p')
  then have "replica_reach env calm sha256 run s unmarshal shards still server p'"
    unfolding replica_reach_def by (meson rtranclp.rtrancl_into_rtrancl)
  with healing_step [OF _ _ sole _ step.hyps(2)] step.IH show ?case by blast
qed

section \<open>The properties\<close>


text \<open>
  C24. A change heals: whatever races the population had, once the replica is open and a change of a
  quota is on its way, from the moment that the quota is next at rest in the mirror each CREATE on its
  path is decided by its present limit, while it is live. It is assumed that the quota \<open>k\<close> is the only one
  that governs the resource, throughout.
\<close>

theorem change_heals_replica:
  assumes "replica_reach env calm sha256 run s unmarshal shards still server p0" and "mr_open (rp_mirror p0)"
    and "sole_governor env k ref" and "pending (rp_mirror p0) k"
    and "(replica_step env calm sha256 run s unmarshal shards still)\<^sup>*\<^sup>* p0 p"
    and "\<not> pending (rp_mirror p) k" and "thread_key (mr_worker (rp_mirror p)) \<noteq> Some k"
    and "mr_server (rp_mirror p) k = Some cq" and "enforceable cq"
    and "routable ref" and "rq_Operation req = ''CREATE''" and "clusterFromRequest unmarshal req \<noteq> []"
    and "replica_serve sha256 run s unmarshal (validate_path ref) req p = (a, p')"
  shows "\<exists>r. a = Answered (Some r) \<and>
    (allowed r \<longleftrightarrow> fst (Store_Reserve sha256 run s (usage_key ref (clusterFromRequest unmarshal req))
       (objKey_of req) (cs_DefaultLimit (cq_Spec cq)) (rp_world p)) = Inr True)"
proof -
  have reach: "replica_reach env calm sha256 run s unmarshal shards still server p" and gate: "mr_open (rp_mirror p)"
    and heal: "healing_inv k ref (rp_mirror p)"
    using healing_path [OF assms(1-5)] by simp_all
  from replica_decides [OF reach gate assms(10-13)] healing_limit [OF heal assms(6-9), of "clusterFromRequest unmarshal req"]
  show ?thesis by simp
qed

text \<open>
  C6. The readiness gate is sound: when a replica opens, no matter how often its population failed and
  started over, what the informers had delivered by then and how the worker raced with the population,
  it decides every CREATE on the path of every live stamped quota that a shard lists and nobody changed
  meanwhile by that quota's limit: no request is refused for a policy that is not synced. It is assumed
  that no other quota ever governs the same resource, and that the key of the quota is queued again only
  after its informer has delivered it.
\<close>

theorem open_replica_knows_listed_quotas:
  assumes "replica_reach env calm sha256 run s unmarshal shards still server p" and "mr_open (rp_mirror p)"
    and "sole_governor env k ref"
    and "k \<in> still" and "\<exists>K \<in> set shards. k \<in> K" and "server k = Some cq" and "enforceable cq"
    and "routable ref" and "rq_Operation req = ''CREATE''" and "clusterFromRequest unmarshal req \<noteq> []"
    and "replica_serve sha256 run s unmarshal (validate_path ref) req p = (a, p')"
  shows "\<exists>r. a = Answered (Some r) \<and>
    (allowed r \<longleftrightarrow> fst (Store_Reserve sha256 run s (usage_key ref (clusterFromRequest unmarshal req))
       (objKey_of req) (cs_DefaultLimit (cq_Spec cq)) (rp_world p)) = Inr True)"
  using replica_decides [OF assms(1,2,8-11)]
    open_still_limit [OF assms(1,3,4-7,2), of "clusterFromRequest unmarshal req"]
  by simp

section \<open>A run\<close>

text \<open>
  One shard with one quota: the replica populates and opens before the informer has delivered the
  quota; then the quota is delivered and reconciled.
\<close>

definition policy_quota :: ConsumptionQuota where
  "policy_quota = quota_for ''q'' ''h1'' 1"

abbreviation policy_resource :: "string \<Rightarrow> ResourceRef" where
  "policy_resource \<equiv> resource_of [(demo_q, demo_ref)]"

abbreviation policy_watcher :: registryWatcher where
  "policy_watcher \<equiv> remember demo_q policy_quota new_watcher"

definition opened_replica :: "demo replica" where
  "opened_replica = \<lparr>rp_mirror = (mirror_init [demo_q \<mapsto> policy_quota])\<lparr>mr_watcher := policy_watcher, mr_open := True\<rparr>,
     rp_todo = Some [], rp_dispatcher = newValidatorDispatcher True, rp_world = demo_world\<rparr>"

definition synced_replica :: "demo replica" where
  "synced_replica = opened_replica\<lparr>rp_mirror := (rp_mirror opened_replica)\<lparr>mr_cache := [demo_q \<mapsto> policy_quota],
     mr_inflight := {}\<rparr>\<rparr>"

abbreviation policy_step :: "demo replica \<Rightarrow> demo replica \<Rightarrow> bool" where
  "policy_step \<equiv> replica_step (governs policy_resource) {demo_q} demo_sha (retry_n 2) (demo_store (60 * second)) demo_unmarshal
     [{demo_q}] {demo_q}"

abbreviation policy_reach :: "demo replica \<Rightarrow> bool" where
  "policy_reach \<equiv> replica_reach (governs policy_resource) {demo_q} demo_sha (retry_n 2) (demo_store (60 * second)) demo_unmarshal
     [{demo_q}] {demo_q} [demo_q \<mapsto> policy_quota]"

lemma policy_quota_simps [simp]:
  "cq_resource policy_quota = demo_ref" "enforceable policy_quota" "cs_DefaultLimit (cq_Spec policy_quota) = 1"
  "cq_DeletionTimestamp policy_quota = None" "ct_IdentityHash (cq_Status policy_quota) \<noteq> []"
  by (simp_all add: policy_quota_def quota_for_def cq_resource_def demo_ref_def enforceable_def Let_def)

lemma policy_path: "policy_step\<^sup>*\<^sup>* (replica_init [demo_q \<mapsto> policy_quota] demo_world) opened_replica"
proof -
  let ?p0 = "replica_init [demo_q \<mapsto> policy_quota] demo_world"
  let ?m0 = "mirror_init [demo_q \<mapsto> policy_quota]"
  let ?p1 = "?p0\<lparr>rp_todo := Some [{demo_q}]\<rparr>"
  let ?m2 = "?m0\<lparr>mr_listed := [(demo_q, policy_quota)]\<rparr>"
  let ?p2 = "?p1\<lparr>rp_todo := Some [], rp_mirror := ?m2\<rparr>"
  let ?m3 = "?m0\<lparr>mr_seeding := Some (demo_q, demo_ref, 1), mr_watcher := known_set demo_q demo_ref new_watcher\<rparr>"
  let ?m4 = "?m0\<lparr>mr_watcher := policy_watcher\<rparr>"
  have 1: "policy_step ?p0 ?p1" by (rule attempts) (simp_all add: replica_init_def mirror_init_def)
  have "shard_items {demo_q} (rp_mirror ?p1) [(demo_q, policy_quota)]"
    by (auto simp: shard_items_def replica_init_def mirror_init_def)
  then have 2: "policy_step ?p1 ?p2"
    using lists [of ?p1 "{demo_q}" "[]" "[(demo_q, policy_quota)]"] by (simp add: replica_init_def mirror_init_def)
  have "mirror_work {demo_q} ?m2 ?m3"
    using seed [of ?m2 demo_q policy_quota "[]" "{demo_q}"] by (simp add: mirror_init_def)
  then have 3: "policy_step ?p2 (?p2\<lparr>rp_mirror := ?m3\<rparr>)" by (intro works) simp
  have "mirror_work {demo_q} ?m3 ?m4"
    using seeded [of ?m3 demo_q demo_ref 1 "{demo_q}"] by (simp add: mirror_init_def remember_sections)
  then have 4: "policy_step (?p2\<lparr>rp_mirror := ?m3\<rparr>) (?p2\<lparr>rp_mirror := ?m4\<rparr>)"
    using works [of _ "?p2\<lparr>rp_mirror := ?m3\<rparr>" ?m4] by simp
  have 5: "policy_step (?p2\<lparr>rp_mirror := ?m4\<rparr>) opened_replica"
    using opens [of "?p2\<lparr>rp_mirror := ?m4\<rparr>"]
    by (simp add: replica_init_def mirror_init_def opened_replica_def newValidatorDispatcher_def)
  from 1 2 3 4 5 show ?thesis by (meson converse_rtranclp_into_rtranclp r_into_rtranclp)
qed

lemma policy_path_synced: "policy_step\<^sup>*\<^sup>* opened_replica synced_replica"
proof -
  let ?m = "rp_mirror opened_replica"
  let ?m1 = "?m\<lparr>mr_cache := [demo_q \<mapsto> policy_quota], mr_inflight := {}, mr_queue := {demo_q}\<rparr>"
  let ?m2 = "?m1\<lparr>mr_queue := {}, mr_worker := Remembering demo_q demo_ref 1\<rparr>"
  have known: "known_set demo_q demo_ref policy_watcher = policy_watcher"
    "limit_set demo_ref 1 policy_watcher = policy_watcher"
    by (simp_all add: remember_sections known_set_def limit_set_def Set_limit_def)
  have "mirror_work {demo_q} ?m ?m1"
    using deliver [of demo_q ?m "{demo_q}"] by (simp add: opened_replica_def mirror_init_def)
  moreover have "mirror_work {demo_q} ?m1 ?m2"
    using reconcile [of ?m1 demo_q "{demo_q}" "Remembering demo_q demo_ref 1" policy_watcher] known
    by (simp add: opened_replica_def mirror_init_def seeding_keys_def reconcile_enter_def)
  moreover have "mirror_work {demo_q} ?m2 (rp_mirror synced_replica)"
    using finish [of ?m2 "{demo_q}"] known by (simp add: opened_replica_def synced_replica_def mirror_init_def)
  ultimately have "policy_step opened_replica (opened_replica\<lparr>rp_mirror := ?m1\<rparr>)"
    "policy_step (opened_replica\<lparr>rp_mirror := ?m1\<rparr>) (opened_replica\<lparr>rp_mirror := ?m2\<rparr>)"
    "policy_step (opened_replica\<lparr>rp_mirror := ?m2\<rparr>) synced_replica"
    using works [of _ opened_replica ?m1] works [of _ "opened_replica\<lparr>rp_mirror := ?m1\<rparr>" ?m2]
      works [of _ "opened_replica\<lparr>rp_mirror := ?m2\<rparr>" "rp_mirror synced_replica"]
    by (simp_all add: synced_replica_def)
  then show ?thesis by (meson converse_rtranclp_into_rtranclp r_into_rtranclp)
qed

lemma policy_reached: "policy_reach opened_replica" "policy_reach synced_replica"
proof -
  have "policy_step\<^sup>*\<^sup>* (replica_init [demo_q \<mapsto> policy_quota] demo_world) synced_replica"
    using policy_path policy_path_synced by (rule rtranclp_trans)
  moreover have "mirror_start (governs policy_resource) [demo_q \<mapsto> policy_quota]"
    by (simp add: mirror_start_def governs_def resource_of_def)
  ultimately show "policy_reach opened_replica" "policy_reach synced_replica"
    using policy_path unfolding replica_reach_def by auto
qed

lemma policy_facts:
  "inj policy_resource" "sole_governor (governs policy_resource) demo_q demo_ref" "routable demo_ref"
  "rq_Operation (demo_create_request n) = ''CREATE''"
  "clusterFromRequest demo_unmarshal (demo_create_request n) = ''root:c1''"
  "rp_world opened_replica = demo_world" "rp_world synced_replica = demo_world"
  "mr_open (rp_mirror opened_replica)" "mr_open (rp_mirror synced_replica)"
proof -
  show inj: "inj policy_resource" by (rule inj_resource_of) (simp_all add: demo_ref_def)
  have "policy_resource demo_q = demo_ref" by (simp add: resource_of_def)
  then show "sole_governor (governs policy_resource) demo_q demo_ref" using governs_sole [OF inj, of demo_q] by simp
  show "routable demo_ref" by code_simp
qed (simp_all add: resource_of_def demo_create_request_def clusterFromRequest_def demo_unmarshal_def
    opened_replica_def synced_replica_def mirror_init_def)

abbreviation policy_serve :: "string \<Rightarrow> demo replica \<Rightarrow> answer \<times> demo replica" where
  "policy_serve n \<equiv> replica_serve demo_sha (retry_n 2) (demo_store (60 * second)) demo_unmarshal
     (validate_path demo_ref) (demo_create_request n)"

abbreviation policy_grants :: "string \<Rightarrow> bool" where
  "policy_grants n \<equiv> fst (Store_Reserve demo_sha (retry_n 2) (demo_store (60 * second)) (usage_key demo_ref ''root:c1'')
     (objKey_of (demo_create_request n)) 1 demo_world) = Inr True"


theorem change_heals_replica_witness:
  "pending (rp_mirror opened_replica) demo_q \<and> policy_step\<^sup>*\<^sup>* opened_replica synced_replica \<and>
   (\<exists>r. fst (policy_serve ''a'' synced_replica) = Answered (Some r) \<and> (allowed r \<longleftrightarrow> policy_grants ''a''))"
proof -
  have s: "policy_serve ''a'' synced_replica = (fst (policy_serve ''a'' synced_replica), snd (policy_serve ''a'' synced_replica))"
    by simp
  have pend: "pending (rp_mirror opened_replica) demo_q" by (simp add: pending_def opened_replica_def mirror_init_def)
  have still: "\<not> pending (rp_mirror synced_replica) demo_q" "thread_key (mr_worker (rp_mirror synced_replica)) \<noteq> Some demo_q"
    and server: "mr_server (rp_mirror synced_replica) demo_q = Some policy_quota"
    by (simp_all add: pending_def synced_replica_def opened_replica_def mirror_init_def)
  have cl: "clusterFromRequest demo_unmarshal (demo_create_request ''a'') \<noteq> []" by (simp add: policy_facts)
  from change_heals_replica [OF policy_reached(1) policy_facts(8,2) pend policy_path_synced still server
      policy_quota_simps(2) policy_facts(3,4) cl s] pend policy_path_synced
  show ?thesis by (simp add: policy_facts)
qed

theorem open_replica_knows_listed_quotas_witness:
  "demo_q \<in> mr_inflight (rp_mirror opened_replica) \<and>
   (\<exists>r. fst (policy_serve ''a'' opened_replica) = Answered (Some r) \<and> (allowed r \<longleftrightarrow> policy_grants ''a''))"
proof -
  have s: "policy_serve ''a'' opened_replica = (fst (policy_serve ''a'' opened_replica), snd (policy_serve ''a'' opened_replica))"
    by simp
  have cl: "clusterFromRequest demo_unmarshal (demo_create_request ''a'') \<noteq> []" by (simp add: policy_facts)
  have "demo_q \<in> {demo_q}" "\<exists>K \<in> set [{demo_q}]. demo_q \<in> K" "[demo_q \<mapsto> policy_quota] demo_q = Some policy_quota" by simp_all
  from open_replica_knows_listed_quotas [OF policy_reached(1) policy_facts(8,2) this policy_quota_simps(2)
      policy_facts(3,4) cl s]
  show ?thesis by (simp add: policy_facts) (simp add: opened_replica_def mirror_init_def)
qed

end
