(* ===== verification/Deep_Copy_Properties.thy ===== *)
theory Deep_Copy_Properties
  imports Deep_Copy
begin

text \<open>
  What a deep copy is: the copy has the same deep value, memory that existed before is as it was, and
  the copy consists of memory that did not exist before. A \<open>shape\<close> says, for a type, what a value
  means in a memory and which arrays it consists of; the shapes of the structs are built from those
  of their fields, and so are the proofs of their copies.
\<close>

section \<open>Shapes\<close>

record ('x, 'b, 'v) shape =
  sh_view :: "'b Heap \<Rightarrow> 'x \<Rightarrow> 'v option"
  sh_reach :: "'b Heap \<Rightarrow> 'x \<Rightarrow> nat set"

definition agree :: "nat set \<Rightarrow> 'b Heap \<Rightarrow> 'b Heap \<Rightarrow> bool" where
  "agree A h h' \<longleftrightarrow> (\<forall>a\<in>A. a < hp_next h' \<and> hp_arr h' a = hp_arr h a)"

text \<open>A value depends on the arrays it consists of and on no others.\<close>

definition good_shape :: "('x, 'b, 'v) shape \<Rightarrow> bool" where
  "good_shape s \<longleftrightarrow>
     (\<forall>h x v. sh_view s h x = Some v \<longrightarrow>
        sh_reach s h x \<subseteq> {..<hp_next h} \<and>
        (\<forall>h'. agree (sh_reach s h x) h h' \<longrightarrow> sh_view s h' x = Some v \<and> sh_reach s h' x = sh_reach s h x))"

definition copies_deeply :: "('x, 'b, 'v) shape \<Rightarrow> ('x, 'b) copier \<Rightarrow> bool" where
  "copies_deeply s into \<longleftrightarrow>
     (\<forall>h x v y h'. sh_view s h x = Some v \<longrightarrow> into x h = (y, h') \<longrightarrow>
        keeps h h' \<and> sh_view s h' y = Some v \<and> sh_reach s h' y \<subseteq> {hp_next h..<hp_next h'})"

definition plain_shape :: "('x, 'b, 'x) shape" where
  "plain_shape = \<lparr>sh_view = (\<lambda>h x. Some x), sh_reach = (\<lambda>h x. {})\<rparr>"

definition pair_shape :: "('x, 'b, 'v) shape \<Rightarrow> ('y, 'b, 'w) shape \<Rightarrow> ('x \<times> 'y, 'b, 'v \<times> 'w) shape" where
  "pair_shape s t =
     \<lparr>sh_view = (\<lambda>h z. case sh_view s h (fst z) of None \<Rightarrow> None | Some v \<Rightarrow> map_option (Pair v) (sh_view t h (snd z))),
      sh_reach = (\<lambda>h z. sh_reach s h (fst z) \<union> sh_reach t h (snd z))\<rparr>"

definition field_shape :: "('x \<Rightarrow> 'y) \<Rightarrow> ('x \<Rightarrow> 'v \<Rightarrow> 'w) \<Rightarrow> ('y, 'b, 'v) shape \<Rightarrow> ('x, 'b, 'w) shape" where
  "field_shape f g s = \<lparr>sh_view = (\<lambda>h x. map_option (g x) (sh_view s h (f x))), sh_reach = (\<lambda>h x. sh_reach s h (f x))\<rparr>"

definition ptr_shape :: "('x, 'b) kind \<Rightarrow> ('x, 'b, 'v) shape \<Rightarrow> (go_ptr, 'b, 'v option) shape" where
  "ptr_shape k s =
     \<lparr>sh_view = (\<lambda>h p. case p of None \<Rightarrow> Some None | Some p \<Rightarrow> Option.bind (deref k h p) (\<lambda>x. map_option Some (sh_view s h x))),
      sh_reach = (\<lambda>h p. case p of None \<Rightarrow> {} | Some p \<Rightarrow> insert (fst p) (case deref k h p of None \<Rightarrow> {} | Some x \<Rightarrow> sh_reach s h x))\<rparr>"

fun view_items :: "('x, 'b) kind \<Rightarrow> ('x, 'b, 'v) shape \<Rightarrow> 'b Heap \<Rightarrow> 'b list \<Rightarrow> 'v list option" where
  "view_items k s h [] = Some []"
| "view_items k s h (c # cs) =
     (case Option.bind (kd_get k c) (sh_view s h) of None \<Rightarrow> None | Some v \<Rightarrow> map_option ((#) v) (view_items k s h cs))"

definition item_reach :: "('x, 'b) kind \<Rightarrow> ('x, 'b, 'v) shape \<Rightarrow> 'b Heap \<Rightarrow> 'b \<Rightarrow> nat set" where
  "item_reach k s h c = (case kd_get k c of None \<Rightarrow> {} | Some x \<Rightarrow> sh_reach s h x)"

definition slice_shape :: "('x, 'b) kind \<Rightarrow> ('x, 'b, 'v) shape \<Rightarrow> (go_slice, 'b, 'v list option) shape" where
  "slice_shape k s =
     \<lparr>sh_view = (\<lambda>h xs. if \<not> valid_slice h xs then None
        else if xs = None then Some None else map_option Some (view_items k s h (elems h xs))),
      sh_reach = (\<lambda>h xs. case xs of None \<Rightarrow> {} | Some x \<Rightarrow> insert (sl_base x) (\<Union>c\<in>set (elems h xs). item_reach k s h c))\<rparr>"

section \<open>Shapes are local\<close>

named_theorems shapes

lemma agree_refl: "A \<subseteq> {..<hp_next h} \<Longrightarrow> agree A h h"
  by (auto simp: agree_def)

lemma agree_Un: "agree (A \<union> B) h h' \<longleftrightarrow> agree A h h' \<and> agree B h h'"
  by (auto simp: agree_def)

lemma agree_insert: "agree (insert a A) h h' \<longleftrightarrow> a < hp_next h' \<and> hp_arr h' a = hp_arr h a \<and> agree A h h'"
  by (auto simp: agree_def)

lemma agree_UN: "agree (\<Union>x\<in>X. f x) h h' \<longleftrightarrow> (\<forall>x\<in>X. agree (f x) h h')"
  by (auto simp: agree_def)

lemma keeps_agree: "keeps h h' \<Longrightarrow> A \<subseteq> {..<hp_next h} \<Longrightarrow> agree A h h'"
  by (auto simp: keeps_def agree_def)

lemma good_shapeI:
  assumes "\<And>h x v. sh_view s h x = Some v \<Longrightarrow> sh_reach s h x \<subseteq> {..<hp_next h}"
    and "\<And>h h' x v. sh_view s h x = Some v \<Longrightarrow> agree (sh_reach s h x) h h' \<Longrightarrow>
      sh_view s h' x = Some v \<and> sh_reach s h' x = sh_reach s h x"
  shows "good_shape s"
  unfolding good_shape_def
  by (intro allI impI conjI) (blast dest: assms)+

lemma good_shapeI2:
  assumes "\<And>h x v. sh_view s h x = Some v \<Longrightarrow> sh_reach s h x \<subseteq> {..<hp_next h} \<and>
      (\<forall>h'. agree (sh_reach s h x) h h' \<longrightarrow> sh_view s h' x = Some v \<and> sh_reach s h' x = sh_reach s h x)"
  shows "good_shape s"
  unfolding good_shape_def
  by (intro allI impI) (rule assms)

lemma good_shapeD:
  assumes "good_shape s" and "sh_view s h x = Some v"
  shows "sh_reach s h x \<subseteq> {..<hp_next h}"
    and "agree (sh_reach s h x) h h' \<Longrightarrow> sh_view s h' x = Some v \<and> sh_reach s h' x = sh_reach s h x"
proof -
  from assms have *: "sh_reach s h x \<subseteq> {..<hp_next h} \<and>
      (\<forall>h'. agree (sh_reach s h x) h h' \<longrightarrow> sh_view s h' x = Some v \<and> sh_reach s h' x = sh_reach s h x)"
    unfolding good_shape_def by blast
  from * show "sh_reach s h x \<subseteq> {..<hp_next h}" ..
  from * show "agree (sh_reach s h x) h h' \<Longrightarrow> sh_view s h' x = Some v \<and> sh_reach s h' x = sh_reach s h x" by simp
qed

lemma good_shape_keeps:
  assumes "good_shape s" and "sh_view s h x = Some v" and "keeps h h'"
  shows "sh_view s h' x = Some v \<and> sh_reach s h' x = sh_reach s h x"
  using good_shapeD(2) [OF assms(1,2)] keeps_agree [OF assms(3) good_shapeD(1) [OF assms(1,2)]] by simp

lemma good_plain [shapes]: "good_shape plain_shape"
  by (rule good_shapeI) (simp_all add: plain_shape_def)

lemma view_pair:
  "sh_view (pair_shape s t) h z = Some w \<longleftrightarrow>
     sh_view s h (fst z) = Some (fst w) \<and> sh_view t h (snd z) = Some (snd w)"
  by (cases w) (auto simp: pair_shape_def split: option.splits)

lemma reach_pair: "sh_reach (pair_shape s t) h z = sh_reach s h (fst z) \<union> sh_reach t h (snd z)"
  by (simp add: pair_shape_def)

lemma good_pair [shapes]:
  assumes "good_shape s" and "good_shape t"
  shows "good_shape (pair_shape s t)"
proof (rule good_shapeI, unfold view_pair reach_pair agree_Un)
  fix h z w assume "sh_view s h (fst z) = Some (fst w) \<and> sh_view t h (snd z) = Some (snd w)"
  then show "sh_reach s h (fst z) \<union> sh_reach t h (snd z) \<subseteq> {..<hp_next h}"
    using good_shapeD(1) [OF assms(1)] good_shapeD(1) [OF assms(2)] by blast
next
  fix h h' z w
  assume v: "sh_view s h (fst z) = Some (fst w) \<and> sh_view t h (snd z) = Some (snd w)"
    and "agree (sh_reach s h (fst z)) h h' \<and> agree (sh_reach t h (snd z)) h h'"
  then show "(sh_view s h' (fst z) = Some (fst w) \<and> sh_view t h' (snd z) = Some (snd w)) \<and>
      sh_reach s h' (fst z) \<union> sh_reach t h' (snd z) = sh_reach s h (fst z) \<union> sh_reach t h (snd z)"
    using good_shapeD(2) [OF assms(1) v [THEN conjunct1]] good_shapeD(2) [OF assms(2) v [THEN conjunct2]] by simp
qed

lemma view_field: "sh_view (field_shape f g s) h x = Some w \<longleftrightarrow> (\<exists>v. sh_view s h (f x) = Some v \<and> w = g x v)"
  by (auto simp: field_shape_def)

lemma reach_field: "sh_reach (field_shape f g s) h x = sh_reach s h (f x)"
  by (simp add: field_shape_def)

lemma good_field [shapes]:
  assumes "good_shape s"
  shows "good_shape (field_shape f g s)"
proof (rule good_shapeI, unfold view_field reach_field)
  fix h x w assume "\<exists>v. sh_view s h (f x) = Some v \<and> w = g x v"
  then show "sh_reach s h (f x) \<subseteq> {..<hp_next h}" using good_shapeD(1) [OF assms] by blast
next
  fix h h' x w assume "\<exists>v. sh_view s h (f x) = Some v \<and> w = g x v" "agree (sh_reach s h (f x)) h h'"
  then show "(\<exists>v. sh_view s h' (f x) = Some v \<and> w = g x v) \<and> sh_reach s h' (f x) = sh_reach s h (f x)"
    using good_shapeD(2) [OF assms] by blast
qed

lemma good_ptr [shapes]:
  assumes "good_shape s"
  shows "good_shape (ptr_shape k s)"
proof (rule good_shapeI2)
  fix h p v assume v: "sh_view (ptr_shape k s) h p = Some v"
  show "sh_reach (ptr_shape k s) h p \<subseteq> {..<hp_next h} \<and>
    (\<forall>h'. agree (sh_reach (ptr_shape k s) h p) h h' \<longrightarrow>
      sh_view (ptr_shape k s) h' p = Some v \<and> sh_reach (ptr_shape k s) h' p = sh_reach (ptr_shape k s) h p)"
  proof (cases p)
    case None
    with v show ?thesis by (simp add: ptr_shape_def)
  next
    case (Some q)
    with v obtain x w where x: "deref k h q = Some x" "sh_view s h x = Some w" "v = Some w"
      by (auto simp: ptr_shape_def bind_eq_Some_conv)
    have q: "fst q < hp_next h" using x(1) by (simp add: deref_def split: if_splits)
    have "deref k h' q = Some x" if "agree (insert (fst q) A) h h'" for h' A
      using x(1) that by (simp add: deref_def agree_insert split: if_splits)
    with good_shapeD [OF assms x(2)] x q Some show ?thesis
      by (auto simp: ptr_shape_def agree_insert)
  qed
qed

lemma view_items_local:
  assumes "good_shape s" and "view_items k s h cs = Some vs"
  shows "(\<Union>c\<in>set cs. item_reach k s h c) \<subseteq> {..<hp_next h} \<and>
    (\<forall>h'. agree (\<Union>c\<in>set cs. item_reach k s h c) h h' \<longrightarrow>
       view_items k s h' cs = Some vs \<and> (\<forall>c\<in>set cs. item_reach k s h' c = item_reach k s h c))"
  using assms(2)
proof (induction cs arbitrary: vs)
  case Nil
  then show ?case by simp
next
  case (Cons c cs)
  obtain x v ws where x: "kd_get k c = Some x" "sh_view s h x = Some v" "view_items k s h cs = Some ws" "vs = v # ws"
    using Cons.prems by (auto simp: bind_eq_Some_conv split: option.splits)
  show ?case
    using Cons.IH [OF x(3)] good_shapeD(1) [OF assms(1) x(2)] good_shapeD(2) [OF assms(1) x(2)] x
    by (simp add: item_reach_def agree_Un)
qed

lemma good_slice [shapes]:
  assumes "good_shape s"
  shows "good_shape (slice_shape k s)"
proof (rule good_shapeI2)
  fix h xs v assume v: "sh_view (slice_shape k s) h xs = Some v"
  show "sh_reach (slice_shape k s) h xs \<subseteq> {..<hp_next h} \<and>
    (\<forall>h'. agree (sh_reach (slice_shape k s) h xs) h h' \<longrightarrow>
      sh_view (slice_shape k s) h' xs = Some v \<and> sh_reach (slice_shape k s) h' xs = sh_reach (slice_shape k s) h xs)"
  proof (cases xs)
    case None
    with v show ?thesis by (simp add: slice_shape_def valid_slice_def)
  next
    case (Some x)
    with v obtain vs where vs: "valid_slice h xs" "view_items k s h (elems h xs) = Some vs" "v = Some vs"
      by (auto simp: slice_shape_def split: if_splits)
    have x: "sl_base x < hp_next h" using vs(1) Some by (simp add: valid_slice_def)
    have same: "valid_slice h' xs \<and> elems h' xs = elems h xs" if "agree (insert (sl_base x) A) h h'" for h' A
      using vs(1) that Some by (simp add: valid_slice_def elems_def agree_insert)
    show ?thesis
      using view_items_local [OF assms vs(2)] vs x same Some
      by (auto simp: slice_shape_def agree_insert)
  qed
qed

section \<open>Copies of the parts\<close>

named_theorems copies

lemma copies_deeplyI:
  assumes "\<And>h x v y h'. sh_view s h x = Some v \<Longrightarrow> into x h = (y, h') \<Longrightarrow>
      keeps h h' \<and> sh_view s h' y = Some v \<and> sh_reach s h' y \<subseteq> {hp_next h..<hp_next h'}"
  shows "copies_deeply s into"
  unfolding copies_deeply_def by (intro allI impI) (rule assms)

lemma copies_deeplyD:
  assumes "copies_deeply s into" and "sh_view s h x = Some v" and "into x h = (y, h')"
  shows "keeps h h'" and "sh_view s h' y = Some v" and "sh_reach s h' y \<subseteq> {hp_next h..<hp_next h'}"
  using assms unfolding copies_deeply_def by blast+

lemma keeps_next: "keeps h h' \<Longrightarrow> hp_next h \<le> hp_next h'"
  by (simp add: keeps_def)

definition copy_pair :: "('x, 'b) copier \<Rightarrow> ('y, 'b) copier \<Rightarrow> ('x \<times> 'y, 'b) copier" where
  "copy_pair c d z h = (case c (fst z) h of (x, h1) \<Rightarrow> case d (snd z) h1 of (y, h2) \<Rightarrow> ((x, y), h2))"

lemma copies_plain [copies]: "copies_deeply plain_shape (\<lambda>x h. (x, h))"
  by (rule copies_deeplyI) (simp add: plain_shape_def)

lemma copies_pair [copies]:
  assumes "copies_deeply s c" and "copies_deeply t d" and "good_shape s" and "good_shape t"
  shows "copies_deeply (pair_shape s t) (copy_pair c d)"
proof (rule copies_deeplyI, unfold view_pair reach_pair)
  fix h z w y h2
  assume v: "sh_view s h (fst z) = Some (fst w) \<and> sh_view t h (snd z) = Some (snd w)" and run: "copy_pair c d z h = (y, h2)"
  obtain y1 h1 where c: "c (fst z) h = (y1, h1)" by fastforce
  then obtain y2 where d: "d (snd z) h1 = (y2, h2)" and y: "y = (y1, y2)"
    using run by (auto simp: copy_pair_def split: prod.splits)
  note C = copies_deeplyD [OF assms(1) v [THEN conjunct1] c]
  have "sh_view t h1 (snd z) = Some (snd w)"
    using good_shape_keeps [OF assms(4) v [THEN conjunct2] C(1)] ..
  note D = copies_deeplyD [OF assms(2) this d]
  have "sh_view s h2 y1 = Some (fst w) \<and> sh_reach s h2 y1 = sh_reach s h1 y1"
    by (rule good_shape_keeps [OF assms(3) C(2) D(1)])
  moreover have "{hp_next h..<hp_next h1} \<union> {hp_next h1..<hp_next h2} \<subseteq> {hp_next h..<hp_next h2}"
    using keeps_next [OF C(1)] keeps_next [OF D(1)] by auto
  ultimately show "keeps h h2 \<and> (sh_view s h2 (fst y) = Some (fst w) \<and> sh_view t h2 (snd y) = Some (snd w)) \<and>
      sh_reach s h2 (fst y) \<union> sh_reach t h2 (snd y) \<subseteq> {hp_next h..<hp_next h2}"
    using keeps_trans [OF C(1) D(1)] C(3) D(2,3) y by auto
qed

text \<open>A struct whose fields \<open>f\<close> are copied and whose other fields are kept.\<close>

lemma copies_field:
  assumes "copies_deeply s c" and "\<And>x h. into x h = (case c (f x) h of (y, h1) \<Rightarrow> (upd x y, h1))"
    and "\<And>x y. f (upd x y) = y" and "\<And>x y v. g (upd x y) v = g x v"
  shows "copies_deeply (field_shape f g s) into"
proof (rule copies_deeplyI, unfold view_field reach_field)
  fix h x w y h1
  assume "\<exists>v. sh_view s h (f x) = Some v \<and> w = g x v" and run: "into x h = (y, h1)"
  then obtain v where v: "sh_view s h (f x) = Some v" "w = g x v" by blast
  obtain z where c: "c (f x) h = (z, h1)" and y: "y = upd x z"
    using run assms(2) [of x h] by (auto split: prod.splits)
  with copies_deeplyD [OF assms(1) v(1) c] v(2) assms(3,4)
  show "keeps h h1 \<and> (\<exists>v. sh_view s h1 (f y) = Some v \<and> w = g y v) \<and> sh_reach s h1 (f y) \<subseteq> {hp_next h..<hp_next h1}"
    by auto
qed

lemma agree_put: "b \<notin> A \<Longrightarrow> A \<subseteq> {..<hp_next h} \<Longrightarrow> agree A h (put_at b i x h)"
  by (auto simp: agree_def put_at_def)

lemma agree_put_trans: "agree A h h1 \<Longrightarrow> b \<notin> A \<Longrightarrow> agree A h (put_at b i x h1)"
  by (auto simp: agree_def put_at_def)

lemma put_at_next [simp]: "hp_next (put_at b i x h) = hp_next h"
  by (simp add: put_at_def)

lemma deref_keeps: "deref k h p = Some x \<Longrightarrow> keeps h h' \<Longrightarrow> deref k h' p = Some x"
  by (auto simp: deref_def keeps_def split: if_splits)

lemma copies_new [copies]:
  assumes "copies_deeply s into" and "good_shape s" and "good_kind k"
  shows "copies_deeply (ptr_shape k s) (copy_new k into)"
proof (rule copies_deeplyI)
  fix h p v q h'
  assume v: "sh_view (ptr_shape k s) h p = Some v" and run: "copy_new k into p h = (q, h')"
  show "keeps h h' \<and> sh_view (ptr_shape k s) h' q = Some v \<and> sh_reach (ptr_shape k s) h' q \<subseteq> {hp_next h..<hp_next h'}"
  proof (cases p)
    case None
    with v run show ?thesis by (auto simp: ptr_shape_def copy_new_def)
  next
    case (Some p0)
    with v obtain x w where x: "deref k h p0 = Some x" "sh_view s h x = Some w" "v = Some w"
      by (auto simp: ptr_shape_def bind_eq_Some_conv)
    obtain b h1 where al: "alloc [kd_put k (kd_zero k)] h = (b, h1)" by fastforce
    note A = keeps_alloc [OF al]
    have x1: "deref k h1 p0 = Some x" "sh_view s h1 x = Some w"
      using deref_keeps [OF x(1)] good_shape_keeps [OF assms(2) x(2)] A by simp_all
    obtain y h2 where into: "into x h1 = (y, h2)" by fastforce
    note I = copies_deeplyD [OF assms(1) x1(2) into]
    have q: "q = Some (b, 0)" "h' = put_at b 0 (kd_put k y) h2"
      using run Some al x1(1) into by (simp_all add: copy_new_def)
    have fresh: "b \<notin> sh_reach s h2 y" and old: "sh_reach s h2 y \<subseteq> {..<hp_next h2}" using I(3) A by auto
    have y: "sh_view s h' y = Some w \<and> sh_reach s h' y = sh_reach s h2 y"
      using good_shapeD(2) [OF assms(2) I(2)] agree_put [OF fresh old] unfolding q(2) by blast
    have b: "hp_arr h1 b = [kd_put k (kd_zero k)]" "hp_next h1 = Suc b" using A by blast+
    with I(1) have "hp_arr h2 b = [kd_put k (kd_zero k)]" "b < hp_next h2" by (auto simp: keeps_def)
    then have "deref k h' (b, 0) = Some y"
      using assms(3) unfolding q(2) by (simp add: deref_def put_at_def good_kind_def)
    moreover have "keeps h h'"
      unfolding q(2) by (rule keeps_put) (use keeps_trans [OF _ I(1)] A in simp_all)
    moreover have "insert b (sh_reach s h2 y) \<subseteq> {hp_next h..<hp_next h'}"
      using I(3) A \<open>b < hp_next h2\<close> unfolding q(2) by auto
    ultimately show ?thesis
      using y x(3) unfolding q(1) by (simp add: ptr_shape_def)
  qed
qed

section \<open>Copies of slices\<close>

lemma above: "A \<subseteq> {b<..<n :: nat} \<Longrightarrow> A \<subseteq> {..<n} \<and> b \<notin> A"
  by auto

lemma view_items_snoc:
  "view_items k s h cs = Some vs \<Longrightarrow> kd_get k c = Some x \<Longrightarrow> sh_view s h x = Some v \<Longrightarrow>
     view_items k s h (cs @ [c]) = Some (vs @ [v])"
  by (induction cs arbitrary: vs) (auto split: option.splits)

lemma copy_items_spec:
  assumes "copies_deeply s into" and "good_shape s" and "good_kind k"
    and "view_items k s h0 cs = Some ws" and "\<And>j. j < length cs \<Longrightarrow> hp_arr h0 a ! (i + j) = cs ! j" and "a < hp_next h0"
    and "keeps h0 h" and "hp_next h0 = b" and "b < hp_next h" and "length (hp_arr h b) = i + length cs"
    and "view_items k s h (take i (hp_arr h b)) = Some vs"
    and "(\<Union>c\<in>set (take i (hp_arr h b)). item_reach k s h c) \<subseteq> {b<..<hp_next h}"
    and "copy_items k into a b i (length cs) h = h'"
  shows "keeps h0 h' \<and> b < hp_next h' \<and> length (hp_arr h' b) = i + length cs \<and>
    view_items k s h' (hp_arr h' b) = Some (vs @ ws) \<and>
    (\<Union>c\<in>set (hp_arr h' b). item_reach k s h' c) \<subseteq> {b<..<hp_next h'}"
  using assms(4-)
proof (induction cs arbitrary: i h vs ws)
  case Nil
  then show ?case by simp
next
  case (Cons c cs)
  obtain x v us where x: "kd_get k c = Some x" "sh_view s h0 x = Some v" "view_items k s h0 cs = Some us" "ws = v # us"
    using Cons.prems(1) by (auto simp: bind_eq_Some_conv split: option.splits)
  have src: "hp_arr h a ! i = c"
    using Cons.prems(2) [of 0] Cons.prems(3,4) by (simp add: keeps_def)
  have v: "sh_view s h x = Some v" using good_shape_keeps [OF assms(2) x(2) Cons.prems(4)] ..
  obtain y h1 where into: "into x h = (y, h1)" by fastforce
  note I = copies_deeplyD [OF assms(1) v into]
  let ?h = "put_at b i (kd_put k y) h1"
  let ?old = "\<Union>c\<in>set (take i (hp_arr h b)). item_reach k s h c"
  have b1: "hp_arr h1 b = hp_arr h b" using I(1) Cons.prems(6) by (simp add: keeps_def)
  have old: "?old \<subseteq> {..<hp_next h}" "b \<notin> ?old" by (rule above [OF Cons.prems(9), THEN conjunct1], rule above [OF Cons.prems(9), THEN conjunct2])
  have old1: "agree ?old h ?h" by (rule agree_put_trans [OF keeps_agree [OF I(1) old(1)] old(2)])
  note V = view_items_local [OF assms(2) Cons.prems(8), THEN conjunct2, rule_format, OF old1]
  have y: "sh_view s ?h y = Some v \<and> sh_reach s ?h y = sh_reach s h1 y"
  proof (rule good_shapeD(2) [OF assms(2) I(2)], rule agree_put)
    show "b \<notin> sh_reach s h1 y" using I(3) Cons.prems(6) by auto
    show "sh_reach s h1 y \<subseteq> {..<hp_next h1}" using I(3) by auto
  qed
  have arr: "take (Suc i) (hp_arr ?h b) = take i (hp_arr h b) @ [kd_put k y]"
    using b1 Cons.prems(7) by (simp add: put_at_def take_Suc_conv_app_nth)
  have get: "kd_get k (kd_put k y) = Some y" using assms(3) by (simp add: good_kind_def)
  have step: "copy_items k into a b (Suc i) (length cs) ?h = h'"
    using Cons.prems(10) src x(1) into by simp
  have fresh: "b < hp_next ?h" using Cons.prems(6) keeps_next [OF I(1)] by simp
  have k0: "keeps h0 ?h" by (rule keeps_put [OF keeps_trans [OF Cons.prems(4) I(1)]]) (simp add: Cons.prems(5))
  have len: "length (hp_arr ?h b) = Suc i + length cs" using b1 Cons.prems(7) by (simp add: put_at_def)
  have vs: "view_items k s ?h (take (Suc i) (hp_arr ?h b)) = Some (vs @ [v])"
    unfolding arr by (rule view_items_snoc [OF V [THEN conjunct1] get y [THEN conjunct1]])
  have "(\<Union>c\<in>set (take i (hp_arr h b)). item_reach k s ?h c) = ?old" using V by simp
  then have "(\<Union>c\<in>set (take (Suc i) (hp_arr ?h b)). item_reach k s ?h c) = sh_reach s h1 y \<union> ?old"
    unfolding arr using y get by (simp add: item_reach_def [of k s ?h "kd_put k y"] Un_commute)
  also have "\<dots> \<subseteq> {b<..<hp_next ?h}"
    using I(3) Cons.prems(6,9) keeps_next [OF I(1)] by fastforce
  finally have reach: "(\<Union>c\<in>set (take (Suc i) (hp_arr ?h b)). item_reach k s ?h c) \<subseteq> {b<..<hp_next ?h}" .
  have src': "hp_arr h0 a ! (Suc i + j) = cs ! j" if "j < length cs" for j
    using Cons.prems(2) [of "Suc j"] that by simp
  have "keeps h0 h' \<and> b < hp_next h' \<and> length (hp_arr h' b) = Suc i + length cs \<and>
    view_items k s h' (hp_arr h' b) = Some ((vs @ [v]) @ us) \<and>
    (\<Union>c\<in>set (hp_arr h' b). item_reach k s h' c) \<subseteq> {b<..<hp_next h'}"
    by (rule Cons.IH [OF x(3) src' Cons.prems(3) k0 Cons.prems(5) fresh len vs reach step])
  then show ?case using x(4) by simp
qed

lemma copies_slice [copies]:
  assumes "copies_deeply s into" and "good_shape s" and "good_kind k"
  shows "copies_deeply (slice_shape k s) (copy_slice k into)"
proof (rule copies_deeplyI)
  fix h xs v ys h'
  assume v: "sh_view (slice_shape k s) h xs = Some v" and run: "copy_slice k into xs h = (ys, h')"
  show "keeps h h' \<and> sh_view (slice_shape k s) h' ys = Some v \<and> sh_reach (slice_shape k s) h' ys \<subseteq> {hp_next h..<hp_next h'}"
  proof (cases xs)
    case None
    with v run show ?thesis by (auto simp: slice_shape_def copy_slice_def valid_slice_def)
  next
    case (Some x)
    with v obtain vs where vs: "valid_slice h xs" "view_items k s h (elems h xs) = Some vs" "v = Some vs"
      by (auto simp: slice_shape_def split: if_splits)
    obtain b h1 where al: "alloc (replicate (sl_len x) (kd_put k (kd_zero k))) h = (b, h1)" by fastforce
    note A = keeps_alloc [OF al]
    have b: "hp_arr h1 b = replicate (sl_len x) (kd_put k (kd_zero k))" using A by blast
    have len: "length (elems h xs) = sl_len x" using vs(1) Some by (simp add: elems_def valid_slice_def)
    have run': "copy_items k into (sl_base x) b 0 (length (elems h xs)) h1 = h'" "ys = Some \<lparr>sl_base = b, sl_len = sl_len x\<rparr>"
      using run Some al len by (simp_all add: copy_slice_def)
    have "keeps h h' \<and> b < hp_next h' \<and> length (hp_arr h' b) = 0 + length (elems h xs) \<and>
        view_items k s h' (hp_arr h' b) = Some ([] @ vs) \<and> (\<Union>c\<in>set (hp_arr h' b). item_reach k s h' c) \<subseteq> {b<..<hp_next h'}"
      by (rule copy_items_spec [OF assms vs(2) _ _ _ _ _ _ _ _ run'(1)])
        (use A vs(1) Some len arg_cong [OF b, of length] in \<open>simp_all add: elems_def valid_slice_def\<close>)
    then show ?thesis using vs(3) len run'(2) A by (auto simp: slice_shape_def valid_slice_def elems_def)
  qed
qed

section \<open>The structs\<close>

text \<open>
  The deep values, with no memory left in them: the pointer \<open>AutoApproveCeiling\<close> is an optional
  number (as in \<open>Api\<close>), a slice an optional list (a nil slice and an empty one are different values).
\<close>

record ('m, 'c) deep_Quota =
  dq_TypeMeta :: TypeMeta
  dq_ObjectMeta :: 'm
  dq_Spec :: ConsumptionQuotaSpec
  dq_Status :: "string \<times> 'c list option"

record 'm deep_Usage =
  du_TypeMeta :: TypeMeta
  du_ObjectMeta :: 'm
  du_Spec :: QuotaUsageSpec
  du_Status :: "int32 \<times> Reservation list option"

type_synonym ('m, 'l, 'c, 'o, 'x, 'v) mem_shape = "('x, ('m, 'l, 'c, 'o) cell, 'v) shape"

definition spec_shape :: "('m, 'l, 'c, 'o, go_ConsumptionQuotaSpec, ConsumptionQuotaSpec) mem_shape" where
  "spec_shape = field_shape gs_AutoApproveCeiling
     (\<lambda>x v. \<lparr>cs_Governed = gs_Governed x, cs_By = gs_By x, cs_DefaultLimit = gs_DefaultLimit x, cs_AutoApproveCeiling = v\<rparr>)
     (ptr_shape K_int32 plain_shape)"

definition status_shape ::
  "'c \<Rightarrow> ('m, 'l, 'c, 'o, 'c, 'cv) mem_shape \<Rightarrow> ('m, 'l, 'c, 'o, go_ConsumptionQuotaStatus, string \<times> 'cv list option) mem_shape" where
  "status_shape zc C = field_shape gt_Conditions (\<lambda>x v. (gt_IdentityHash x, v)) (slice_shape (K_condition zc) C)"

definition quota_shape ::
  "'c \<Rightarrow> ('m, 'l, 'c, 'o, 'm, 'mv) mem_shape \<Rightarrow> ('m, 'l, 'c, 'o, 'c, 'cv) mem_shape \<Rightarrow>
     ('m, 'l, 'c, 'o, 'm go_ConsumptionQuota, ('mv, 'cv) deep_Quota) mem_shape" where
  "quota_shape zc M C = field_shape (\<lambda>x. (gq_ObjectMeta x, gq_Spec x, gq_Status x))
     (\<lambda>x (m, sp, st). \<lparr>dq_TypeMeta = gq_TypeMeta x, dq_ObjectMeta = m, dq_Spec = sp, dq_Status = st\<rparr>)
     (pair_shape M (pair_shape spec_shape (status_shape zc C)))"

definition usage_status_shape :: "('m, 'l, 'c, 'o, go_QuotaUsageStatus, int32 \<times> Reservation list option) mem_shape" where
  "usage_status_shape = field_shape gu_Reservations (\<lambda>x v. (gu_Confirmed x, v)) (slice_shape K_reservation plain_shape)"

definition usage_shape ::
  "('m, 'l, 'c, 'o, 'm, 'mv) mem_shape \<Rightarrow> ('m, 'l, 'c, 'o, 'm go_QuotaUsage, 'mv deep_Usage) mem_shape" where
  "usage_shape M = field_shape (\<lambda>x. (gu_ObjectMeta x, gu_Status x))
     (\<lambda>x (m, st). \<lparr>du_TypeMeta = gu_TypeMeta x, du_ObjectMeta = m, du_Spec = gu_Spec x, du_Status = st\<rparr>)
     (pair_shape M usage_status_shape)"

text \<open>The deep value of a list: its type and metadata, and the deep values of its items.\<close>

definition list_shape ::
  "('x, ('m, 'l, 'c, 'o) cell) kind \<Rightarrow> ('m, 'l, 'c, 'o, 'l, 'lv) mem_shape \<Rightarrow> ('m, 'l, 'c, 'o, 'x, 'xv) mem_shape \<Rightarrow>
     ('m, 'l, 'c, 'o, 'l go_List, TypeMeta \<times> 'lv \<times> 'xv list option) mem_shape" where
  "list_shape k N S = field_shape (\<lambda>x. (gl_ListMeta x, gl_Items x)) (\<lambda>x v. (gl_TypeMeta x, v)) (pair_shape N (slice_shape k S))"

lemmas struct_shapes = spec_shape_def status_shape_def quota_shape_def usage_status_shape_def usage_shape_def list_shape_def

text \<open>
  What the library documents of its own \<open>DeepCopyInto\<close>: that of \<open>ObjectMeta\<close>, \<open>ListMeta\<close> and \<open>Condition\<close> is a
  deep copy for some notion of their value, and that of a \<open>Time\<close> is the same instant.
\<close>

definition documented_library ::
  "('m, 'l, 'c, 'o) lib \<Rightarrow> ('m, 'l, 'c, 'o, 'm, 'mv) mem_shape \<Rightarrow> ('m, 'l, 'c, 'o, 'l, 'lv) mem_shape \<Rightarrow>
     ('m, 'l, 'c, 'o, 'c, 'cv) mem_shape \<Rightarrow> bool" where
  "documented_library L M N C \<longleftrightarrow>
     good_shape M \<and> good_shape N \<and> good_shape C \<and>
     copies_deeply M (lb_meta L) \<and> copies_deeply N (lb_listmeta L) \<and> copies_deeply C (lb_condition L) \<and>
     (\<forall>t. lb_time L t = t)"

lemma good_struct_shapes:
  assumes "documented_library L M N C"
  shows "good_shape spec_shape" and "good_shape (status_shape zc C)" and "good_shape (quota_shape zc M C)"
    and "good_shape usage_status_shape" and "good_shape (usage_shape M)"
    and "good_shape (list_shape (K_quota zm) N (quota_shape zc M C))"
    and "good_shape (list_shape (K_usage zm) N (usage_shape M))"
  using assms unfolding documented_library_def struct_shapes by (auto intro!: shapes)

lemma copies_governed: "copies_deeply plain_shape DeepCopyInto_GovernedResource"
  by (rule copies_deeplyI) (simp add: plain_shape_def DeepCopyInto_GovernedResource_def)

lemma copies_usage_spec: "copies_deeply plain_shape DeepCopyInto_QuotaUsageSpec"
  by (rule copies_deeplyI) (simp add: plain_shape_def DeepCopyInto_QuotaUsageSpec_def)

lemma copies_reservation:
  "documented_library L M N C \<Longrightarrow> copies_deeply plain_shape (DeepCopyInto_Reservation L)"
  by (rule copies_deeplyI) (simp add: plain_shape_def DeepCopyInto_Reservation_def documented_library_def)

text \<open>The pointer in the spec is copied as \<open>DeepCopy\<close> copies a variable.\<close>

lemma copies_spec: "copies_deeply spec_shape DeepCopyInto_ConsumptionQuotaSpec"
  unfolding spec_shape_def
proof (rule copies_field [where c = "copy_new K_int32 (\<lambda>x h. (x, h))" and upd = "\<lambda>x p. x\<lparr>gs_AutoApproveCeiling := p\<rparr>"])
  show "copies_deeply (ptr_shape K_int32 plain_shape) (copy_new K_int32 (\<lambda>x h. (x, h)))"
    by (rule copies_new [OF copies_plain good_plain]) simp
  show "DeepCopyInto_ConsumptionQuotaSpec x h =
      (case copy_new K_int32 (\<lambda>x h. (x, h)) (gs_AutoApproveCeiling x) h of (p, h1) \<Rightarrow> (x\<lparr>gs_AutoApproveCeiling := p\<rparr>, h1))" for x and h :: "('m, 'l, 'c, 'o) mem"
    by (cases "gs_AutoApproveCeiling x")
      (auto simp: DeepCopyInto_ConsumptionQuotaSpec_def copy_new_def K_int32_def split: option.splits prod.splits)
qed simp_all

lemma copies_status:
  assumes "documented_library L M N C"
  shows "copies_deeply (status_shape (lb_zero_condition L) C) (DeepCopyInto_ConsumptionQuotaStatus L)"
  unfolding status_shape_def
  by (rule copies_field [where c = "copy_slice (K_condition (lb_zero_condition L)) (lb_condition L)"
        and upd = "\<lambda>x cs. x\<lparr>gt_Conditions := cs\<rparr>"])
    (use assms in \<open>auto simp: documented_library_def DeepCopyInto_ConsumptionQuotaStatus_def intro: copies\<close>)

lemma copies_quota:
  assumes "documented_library L M N C"
  shows "copies_deeply (quota_shape (lb_zero_condition L) M C) (DeepCopyInto_ConsumptionQuota L)"
  unfolding quota_shape_def
proof (rule copies_field [where c = "copy_pair (lb_meta L) (copy_pair DeepCopyInto_ConsumptionQuotaSpec (DeepCopyInto_ConsumptionQuotaStatus L))"
      and upd = "\<lambda>x (m, sp, st). x\<lparr>gq_ObjectMeta := m, gq_Spec := sp, gq_Status := st\<rparr>"])
  show "copies_deeply (pair_shape M (pair_shape spec_shape (status_shape (lb_zero_condition L) C)))
      (copy_pair (lb_meta L) (copy_pair DeepCopyInto_ConsumptionQuotaSpec (DeepCopyInto_ConsumptionQuotaStatus L)))"
    using assms copies_status [OF assms] good_struct_shapes [OF assms]
    by (auto simp: documented_library_def intro!: copies_pair copies_spec good_pair)
qed (auto simp: DeepCopyInto_ConsumptionQuota_def copy_pair_def split: prod.splits)

lemma copies_usage_status:
  assumes "documented_library L M N C"
  shows "copies_deeply usage_status_shape (DeepCopyInto_QuotaUsageStatus L)"
  unfolding usage_status_shape_def
  by (rule copies_field [where c = "copy_slice K_reservation (DeepCopyInto_Reservation L)"
        and upd = "\<lambda>x rs. x\<lparr>gu_Reservations := rs\<rparr>"])
    (auto simp: DeepCopyInto_QuotaUsageStatus_def intro: copies copies_reservation [OF assms] good_plain)

lemma copies_usage:
  assumes "documented_library L M N C"
  shows "copies_deeply (usage_shape M) (DeepCopyInto_QuotaUsage L)"
  unfolding usage_shape_def
proof (rule copies_field [where c = "copy_pair (lb_meta L) (DeepCopyInto_QuotaUsageStatus L)"
      and upd = "\<lambda>x (m, st). x\<lparr>gu_ObjectMeta := m, gu_Status := st\<rparr>"])
  show "copies_deeply (pair_shape M usage_status_shape) (copy_pair (lb_meta L) (DeepCopyInto_QuotaUsageStatus L))"
    using assms copies_usage_status [OF assms] good_struct_shapes [OF assms]
    by (auto simp: documented_library_def intro!: copies_pair)
qed (auto simp: DeepCopyInto_QuotaUsage_def copy_pair_def Let_def split: prod.splits)

lemma copies_quota_list:
  assumes "documented_library L M N C"
  shows "copies_deeply (list_shape (K_quota (lb_zero_meta L)) N (quota_shape (lb_zero_condition L) M C)) (DeepCopyInto_ConsumptionQuotaList L)"
  unfolding list_shape_def
proof (rule copies_field [where c = "copy_pair (lb_listmeta L) (copy_slice (K_quota (lb_zero_meta L)) (DeepCopyInto_ConsumptionQuota L))"
      and upd = "\<lambda>x (m, xs). x\<lparr>gl_ListMeta := m, gl_Items := xs\<rparr>"])
  show "copies_deeply (pair_shape N (slice_shape (K_quota (lb_zero_meta L)) (quota_shape (lb_zero_condition L) M C)))
      (copy_pair (lb_listmeta L) (copy_slice (K_quota (lb_zero_meta L)) (DeepCopyInto_ConsumptionQuota L)))"
    using assms copies_quota [OF assms] good_struct_shapes [OF assms]
    by (auto simp: documented_library_def intro!: copies_pair copies_slice good_slice)
qed (auto simp: DeepCopyInto_ConsumptionQuotaList_def copy_pair_def split: prod.splits)

lemma copies_usage_list:
  assumes "documented_library L M N C"
  shows "copies_deeply (list_shape (K_usage (lb_zero_meta L)) N (usage_shape M)) (DeepCopyInto_QuotaUsageList L)"
  unfolding list_shape_def
proof (rule copies_field [where c = "copy_pair (lb_listmeta L) (copy_slice (K_usage (lb_zero_meta L)) (DeepCopyInto_QuotaUsage L))"
      and upd = "\<lambda>x (m, xs). x\<lparr>gl_ListMeta := m, gl_Items := xs\<rparr>"])
  show "copies_deeply (pair_shape N (slice_shape (K_usage (lb_zero_meta L)) (usage_shape M)))
      (copy_pair (lb_listmeta L) (copy_slice (K_usage (lb_zero_meta L)) (DeepCopyInto_QuotaUsage L)))"
    using assms copies_usage [OF assms] good_struct_shapes [OF assms]
    by (auto simp: documented_library_def intro!: copies_pair copies_slice good_slice)
qed (auto simp: DeepCopyInto_QuotaUsageList_def copy_pair_def split: prod.splits)

section \<open>Independence\<close>

text \<open>
  The copy has the deep value of the original and is nil only for nil. Nothing that existed changes.
  Later writes to the memory that existed before the call (\<open>h''\<close> keeps only what the call allocated) leave
  the copy's value alone; later writes to the memory of the copy leave the original's.
\<close>

definition independent_copy :: "(go_ptr, 'b, 'v) shape \<Rightarrow> (go_ptr \<Rightarrow> 'b Heap \<Rightarrow> go_ptr \<times> 'b Heap) \<Rightarrow> bool" where
  "independent_copy S DeepCopy \<longleftrightarrow>
     (\<forall>h p v q h'. sh_view S h p = Some v \<longrightarrow> DeepCopy p h = (q, h') \<longrightarrow>
        sh_view S h' q = Some v \<and> (q = None \<longleftrightarrow> p = None) \<and> keeps h h' \<and>
        (\<forall>h''. agree {hp_next h..<hp_next h'} h' h'' \<longrightarrow> sh_view S h'' q = Some v) \<and>
        (\<forall>h''. agree {..<hp_next h} h h'' \<longrightarrow> sh_view S h'' p = Some v))"

lemma agree_mono: "agree A h h' \<Longrightarrow> B \<subseteq> A \<Longrightarrow> agree B h h'"
  by (auto simp: agree_def)

lemma independent_new:
  assumes "copies_deeply s into" and "good_shape s" and "good_kind k"
  shows "independent_copy (ptr_shape k s) (copy_new k into)"
  unfolding independent_copy_def
proof (intro allI impI)
  fix h p v q h'
  assume v: "sh_view (ptr_shape k s) h p = Some v" and run: "copy_new k into p h = (q, h')"
  note P = good_ptr [OF assms(2), where k = k]
  note C = copies_deeplyD [OF copies_new [OF assms] v run]
  have "q = None \<longleftrightarrow> p = None" using run by (auto simp: copy_new_def split: option.splits prod.splits)
  moreover have "sh_view (ptr_shape k s) h'' q = Some v" if "agree {hp_next h..<hp_next h'} h' h''" for h''
    using good_shapeD(2) [OF P C(2) agree_mono [OF that C(3)]] ..
  moreover have "sh_view (ptr_shape k s) h'' p = Some v" if "agree {..<hp_next h} h h''" for h''
    using good_shapeD(2) [OF P v agree_mono [OF that good_shapeD(1) [OF P v]]] ..
  ultimately show "sh_view (ptr_shape k s) h' q = Some v \<and> (q = None \<longleftrightarrow> p = None) \<and> keeps h h' \<and>
      (\<forall>h''. agree {hp_next h..<hp_next h'} h' h'' \<longrightarrow> sh_view (ptr_shape k s) h'' q = Some v) \<and>
      (\<forall>h''. agree {..<hp_next h} h h'' \<longrightarrow> sh_view (ptr_shape k s) h'' p = Some v)"
    using C(1,2) by blast
qed

lemmas deep_copies = DeepCopy_ConsumptionQuota_def DeepCopy_ConsumptionQuotaList_def DeepCopy_ConsumptionQuotaSpec_def
  DeepCopy_ConsumptionQuotaStatus_def DeepCopy_GovernedResource_def DeepCopy_QuotaUsage_def DeepCopy_QuotaUsageList_def
  DeepCopy_QuotaUsageSpec_def DeepCopy_QuotaUsageStatus_def DeepCopy_Reservation_def

text \<open>
  C31. Every generated \<open>DeepCopy\<close> is deep: of quotas, ledgers, their lists and their parts it yields an object
  of the same value, down to the ceiling a pointer names and the elements of the slices, in memory of
  its own: no later change of the original shows in the copy, and none of the copy in the original.
\<close>

theorem deep_copies_independent:
  fixes L :: "('m, 'l, 'c, 'o) lib"
  assumes "documented_library L M N C"
  shows "independent_copy (ptr_shape (K_quota (lb_zero_meta L)) (quota_shape (lb_zero_condition L) M C)) (DeepCopy_ConsumptionQuota L) \<and>
    independent_copy (ptr_shape (K_quota_list (lb_zero_listmeta L))
      (list_shape (K_quota (lb_zero_meta L)) N (quota_shape (lb_zero_condition L) M C))) (DeepCopy_ConsumptionQuotaList L) \<and>
    independent_copy (ptr_shape K_spec spec_shape) (DeepCopy_ConsumptionQuotaSpec :: go_ptr \<Rightarrow> ('m, 'l, 'c, 'o) mem \<Rightarrow> _) \<and>
    independent_copy (ptr_shape K_status (status_shape (lb_zero_condition L) C)) (DeepCopy_ConsumptionQuotaStatus L) \<and>
    independent_copy (ptr_shape K_governed plain_shape) (DeepCopy_GovernedResource :: go_ptr \<Rightarrow> ('m, 'l, 'c, 'o) mem \<Rightarrow> _) \<and>
    independent_copy (ptr_shape (K_usage (lb_zero_meta L)) (usage_shape M)) (DeepCopy_QuotaUsage L) \<and>
    independent_copy (ptr_shape (K_usage_list (lb_zero_listmeta L)) (list_shape (K_usage (lb_zero_meta L)) N (usage_shape M)))
      (DeepCopy_QuotaUsageList L) \<and>
    independent_copy (ptr_shape K_usage_spec plain_shape) (DeepCopy_QuotaUsageSpec :: go_ptr \<Rightarrow> ('m, 'l, 'c, 'o) mem \<Rightarrow> _) \<and>
    independent_copy (ptr_shape K_usage_status usage_status_shape) (DeepCopy_QuotaUsageStatus L) \<and>
    independent_copy (ptr_shape K_reservation plain_shape) (DeepCopy_Reservation L)"
  unfolding deep_copies
  by (intro conjI independent_new good_struct_shapes [OF assms] good_plain good_kinds copies_spec copies_governed copies_usage_spec
      copies_quota [OF assms] copies_quota_list [OF assms] copies_status [OF assms] copies_usage [OF assms]
      copies_usage_list [OF assms] copies_usage_status [OF assms] copies_reservation [OF assms])

section \<open>A library and a memory that show it\<close>

text \<open>An \<open>ObjectMeta\<close> of a name and a slice of finalizers in the library's own memory.\<close>

definition K_foreign :: "(string, ('m, 'l, 'c, string) cell) kind" where
  "K_foreign = \<lparr>kd_put = C_foreign, kd_get = (\<lambda>b. case b of C_foreign x \<Rightarrow> Some x | _ \<Rightarrow> None), kd_zero = []\<rparr>"

type_synonym demo_mem = "(string \<times> go_slice, string, string, string) mem"

definition demo_meta :: "(string \<times> go_slice, string, string, string, string \<times> go_slice, string \<times> string list option) mem_shape" where
  "demo_meta = field_shape snd (\<lambda>x v. (fst x, v)) (slice_shape K_foreign plain_shape)"

definition demo_library :: "(string \<times> go_slice, string, string, string) lib" where
  "demo_library = \<lparr>lb_meta = (\<lambda>x h. case copy_slice K_foreign (\<lambda>x h. (x, h)) (snd x) h of (s, h1) \<Rightarrow> ((fst x, s), h1)),
     lb_listmeta = (\<lambda>x h. (x, h)), lb_condition = (\<lambda>x h. (x, h)), lb_time = (\<lambda>t. t),
     lb_zero_meta = ([], None), lb_zero_listmeta = [], lb_zero_condition = []\<rparr>"

lemma demo_library_documented: "documented_library demo_library demo_meta plain_shape plain_shape"
proof -
  have "good_kind K_foreign" by (simp add: good_kind_def K_foreign_def)
  then have "copies_deeply demo_meta (lb_meta demo_library)"
    unfolding demo_meta_def
    by (intro copies_field [where c = "copy_slice K_foreign (\<lambda>x h. (x, h))" and upd = "\<lambda>x s. (fst x, s)"])
      (auto simp: demo_library_def intro!: copies_slice copies_plain good_plain)
  moreover have "good_shape demo_meta" unfolding demo_meta_def by (intro shapes)
  ultimately show ?thesis
    by (simp add: documented_library_def good_plain copies_plain demo_library_def)
qed

definition demo_cell :: "(string \<times> go_slice) go_ConsumptionQuota" where
  "demo_cell = \<lparr>gq_TypeMeta = \<lparr>tm_Kind = ''ConsumptionQuota'', tm_APIVersion = ''v1alpha1''\<rparr>,
     gq_ObjectMeta = (''q'', Some \<lparr>sl_base = 1, sl_len = 1\<rparr>),
     gq_Spec = \<lparr>gs_Governed = \<lparr>gr_APIExportName = ''e'', gr_Group = ''g'', gr_Version = ''v1'', gr_Resource = ''r''\<rparr>, gs_By = ''Count'',
       gs_DefaultLimit = 3, gs_AutoApproveCeiling = Some (2, 0)\<rparr>,
     gq_Status = \<lparr>gt_IdentityHash = ''h'', gt_Conditions = None\<rparr>\<rparr>"

definition demo_memory :: demo_mem where
  "demo_memory = \<lparr>hp_arr = (\<lambda>a. if a = 0 then [C_quota demo_cell] else if a = 1 then [C_foreign ''f''] else [C_int32 7]), hp_next = 3\<rparr>"

definition demo_shape ::
  "(string \<times> go_slice, string, string, string, go_ptr, (string \<times> string list option, string) deep_Quota option) mem_shape" where
  "demo_shape = ptr_shape (K_quota ([], None)) (quota_shape [] demo_meta plain_shape)"

text \<open>The copy still has the ceiling 7 after the original's was set to 9.\<close>

theorem deep_copies_independent_witness:
  "(case DeepCopy_ConsumptionQuota demo_library (Some (0, 0)) demo_memory of
      (q, h) \<Rightarrow> map_option (map_option (\<lambda>v. cs_AutoApproveCeiling (dq_Spec v)))
        (sh_view demo_shape (put_at 2 0 (C_int32 9) h) q) = Some (Some (Some 7)))"
proof -
  obtain v where v: "sh_view demo_shape demo_memory (Some (0, 0)) = Some (Some v)" "cs_AutoApproveCeiling (dq_Spec v) = Some 7"
    by (simp add: demo_shape_def ptr_shape_def deref_def kinds demo_memory_def demo_cell_def quota_shape_def field_shape_def pair_shape_def
        demo_meta_def spec_shape_def status_shape_def slice_shape_def valid_slice_def elems_def plain_shape_def K_foreign_def)
  obtain q h where run: "DeepCopy_ConsumptionQuota demo_library (Some (0, 0)) demo_memory = (q, h)" by fastforce
  have "independent_copy demo_shape (DeepCopy_ConsumptionQuota demo_library)"
    using deep_copies_independent [OF demo_library_documented] by (simp add: demo_library_def demo_shape_def)
  with v(1) run have "\<And>h''. agree {hp_next demo_memory..<hp_next h} h h'' \<Longrightarrow> sh_view demo_shape h'' q = Some (Some v)"
    unfolding independent_copy_def by blast
  moreover have "agree {hp_next demo_memory..<hp_next h} h (put_at 2 0 (C_int32 9) h)"
    by (auto simp: agree_def put_at_def demo_memory_def)
  ultimately show ?thesis using v(2) run by simp
qed

section \<open>Objects and plain values\<close>

text \<open>\<open>DeepCopyObject\<close> answers the nil interface for a nil pointer, never an interface that holds a nil pointer.\<close>

lemma deep_copy_objects:
  "fst (DeepCopyObject_ConsumptionQuota L p h) =
     (if p = None then Nil_object else An_object T_ConsumptionQuota (fst (DeepCopy_ConsumptionQuota L p h)))"
  "fst (DeepCopyObject_ConsumptionQuotaList L p h) =
     (if p = None then Nil_object else An_object T_ConsumptionQuotaList (fst (DeepCopy_ConsumptionQuotaList L p h)))"
  "fst (DeepCopyObject_QuotaUsage L p h) =
     (if p = None then Nil_object else An_object T_QuotaUsage (fst (DeepCopy_QuotaUsage L p h)))"
  "fst (DeepCopyObject_QuotaUsageList L p h) =
     (if p = None then Nil_object else An_object T_QuotaUsageList (fst (DeepCopy_QuotaUsageList L p h)))"
  by (auto simp: DeepCopyObject_ConsumptionQuota_def DeepCopyObject_ConsumptionQuotaList_def DeepCopyObject_QuotaUsage_def
      DeepCopyObject_QuotaUsageList_def copy_object_def deep_copies copy_new_def split: option.splits prod.splits)

text \<open>
  The value-level copy that \<open>Accounting\<close> calls is this one, read without memory: \<open>plain_status\<close> forgets
  the difference between a nil and an empty slice.
\<close>

definition plain_status :: "int32 \<times> Reservation list option \<Rightarrow> QuotaUsageStatus" where
  "plain_status v = \<lparr>Confirmed = fst v, Reservations = (case snd v of None \<Rightarrow> [] | Some rs \<Rightarrow> rs)\<rparr>"

lemma usage_status_copy_plain:
  assumes "documented_library L M N C" and "sh_view usage_status_shape h x = Some v"
    and "DeepCopyInto_QuotaUsageStatus L x h = (y, h')"
  shows "map_option plain_status (sh_view usage_status_shape h' y) = Some (QuotaUsageStatus_DeepCopy (plain_status v))"
  using copies_deeplyD(2) [OF copies_usage_status [OF assms(1)] assms(2,3)] by simp

end
