(* ===== verification/Spec2Isabelle.thy ===== *)
theory Spec2Isabelle
  imports Accounting_Properties Store_Properties Webhook_Properties Installer_Properties
    Usage_Properties System_Properties Lifecycle_Properties Watcher_Properties
    Controller_Process Workspace_Progress Webhook_Process Retry Accounting_Heap
    Lifecycle_Progress Replica_Properties Deep_Copy_Properties
begin

text \<open>
  A verification development for the quota controller: quotas on the number of objects per
  workspace, enforced by an admission webhook across kcp workspaces.

  \<^bold>\<open>The program.\<close> Two processes work on the ledgers (\<open>QuotaUsage\<close> objects, one per consumer workspace,
  group, resource and API identity) in one kcp workspace.
  The webhook (\<open>cmd/webhook\<close>, \<open>internal/webhook\<close>, \<open>internal/registry\<close>) answers CREATE requests: a
  dispatcher takes the identity from the URL, the identity's validator takes the workspace from the
  object and the limit from the registry, and reserves a slot in the ledger by a compare-and-swap
  loop (\<open>internal/quota\<close>, \<open>internal/accounting\<close>). The registry mirrors \<open>ConsumptionQuota\<close> objects.
  The controller (\<open>cmd/controller\<close>, \<open>internal/controller\<close>) reconciles each \<open>ConsumptionQuota\<close>: it
  stamps the identity of the governed export, installs the webhook entry, and keeps an
  accounting manager per export, which folds the objects that really exist into the
  ledger's confirmed count and sweeps reservations that have expired.

  \<^bold>\<open>How the code is modelled.\<close> A Go struct is a record, a method a function of the record, an error a
  value of \<open>go_error\<close> in a sum or an option. The world outside (API servers, caches, clocks) is a
  type variable that each call threads; calls into libraries are arguments, and what their
  documentation promises is a named predicate (\<open>optimistic_client\<close>, \<open>documented_retrier\<close>,
  \<open>vwc_laws\<close>, \<open>cq_laws\<close> and others) that a concrete demo server is shown to satisfy. Counts and limits are
  \<open>int32\<close> as in the source, read with \<open>sint\<close>; times are integers in nanoseconds.

  \<^bold>\<open>Theories\<close>, in the order they build on each other:

  \<^item> \<open>Prelude\<close>, \<open>Go_Strings\<close>, \<open>Table\<close>, \<open>Slices\<close>, \<open>Settling\<close>: int32 arithmetic and the in-place filter, the string
    functions of Go that the code calls, the locales of a table that holds the last event per key
    (instances: the registry and the entries of a webhook configuration), slices that share arrays,
    the locale of a step relation that comes to rest (instances: the accounting manager, the mirror).
  \<^item> \<open>Api\<close>, \<open>Deep_Copy\<close>, \<open>Deep_Copy_Properties\<close> (\<open>api/v1alpha1\<close>): the resources as plain values, and as they
    are in memory, with every generated deep copy. A \<open>shape\<close> gives the meaning of a value in memory and
    the arrays it consists of; struct shapes and their copies are put together from those of the fields.
  \<^item> \<open>Identity\<close> (\<open>internal/identity/key.go\<close>, \<open>internal/quota/objectkey.go\<close>).
  \<^item> \<open>Accounting\<close>, \<open>Accounting_Properties\<close>, \<open>Accounting_Heap\<close> (\<open>internal/accounting/accounting.go\<close>): \<open>Used\<close>,
    \<open>Reserve\<close>, \<open>Sweep\<close>, \<open>FoldConfirmed\<close>; their meaning as a ledger of distinct slots; and the same
    functions on shared arrays.
  \<^item> \<open>Backoff\<close>, \<open>Backoff_Schedule\<close>, \<open>Retry\<close>: the retry helper as an argument, what the two configured backoffs
    amount to under its documentation, and the loop of \<open>retryStart\<close>.
  \<^item> \<open>Store\<close>, \<open>Store_Properties\<close>, \<open>Demo_Server\<close> (\<open>internal/quota/store.go\<close>): \<open>Apply\<close> and \<open>Store_Reserve\<close>
    split at the calls to the API server, their contract, and a server that satisfies the hypotheses.
  \<^item> \<open>Registry\<close>, \<open>Validator\<close>, \<open>Dispatch\<close>, \<open>Webhook_Properties\<close> (\<open>internal/registry/registry.go\<close>,
    \<open>internal/webhook/creation_validator.go\<close>, \<open>cmd/webhook/dispatch.go\<close>): the admission path. The locale
    \<open>reserve_port\<close> is what the validator needs of a store; the store is its instance.
  \<^item> \<open>Kcp\<close> (\<open>internal/kcp\<close>), \<open>Watcher\<close>, \<open>Watcher_Properties\<close> (\<open>cmd/webhook/registry_watcher.go\<close>),
    \<open>Webhook_Process\<close> and \<open>Startup\<close> (both \<open>main.go\<close>): discovery, the mirror of the quotas, the webhook
    process as a step relation of events, population and requests, and the start of both programs.
  \<^item> \<open>Mirror\<close>, \<open>Mirror_Properties\<close>: the same watcher between the API server and the registry, as a step
    relation of changes, informer deliveries, the worker and the population, at critical sections. A set
    \<open>calm\<close> names the quotas the population does not race with; with none it is every interleaving of the code,
    and what needs a quota to be calm says so of that quota only. A predicate \<open>env\<close> says which objects may be
    stored; \<open>sole_governor env k ref\<close> is that \<open>k\<close> alone governs \<open>ref\<close>, throughout.
  \<^item> \<open>Replica\<close>, \<open>Replica_Properties\<close>: a webhook replica as a whole, the mirror, the population shard by shard and
    attempt by attempt, the gate it opens and the requests the dispatcher serves from the mirrored registry.
    Each of its steps is a step of the mirror or leaves it alone (\<open>replica_step_mirror\<close>).
  \<^item> \<open>Installer\<close>, \<open>Installer_Properties\<close>, \<open>Quota_Reconciler\<close>, \<open>Quota_Reconciler_Properties\<close>
    (\<open>internal/controller/webhook_installer.go\<close>, \<open>internal/controller/consumptionquota_controller.go\<close>, the
    reconcile closure of \<open>cmd/controller/main.go\<close>): installation, deletion, and convergence of a
    quota to enforcement.
  \<^item> \<open>Quota_Isolation\<close>, \<open>Workspace_Progress\<close>, \<open>Controller_Process\<close>: many quotas of one workspace under the
    closure, and the closure with what the start of the controller established.
  \<^item> \<open>Accounting_Manager\<close>, \<open>Lifecycle\<close>, \<open>Lifecycle_Properties\<close>, \<open>Lifecycle_Progress\<close>
    (\<open>cmd/controller/accounting.go\<close>): the reference counts, the interleaving of the reconcile worker, the
    running sets and the retries, and how it comes to rest.
  \<^item> \<open>Usage_Reconciler\<close>, \<open>Usage_Properties\<close> (\<open>internal/controller/usage_reconciler.go\<close> and the sweep of
    \<open>cmd/controller/accounting.go\<close>): fold and sweep of the ledgers.
  \<^item> \<open>System\<close>, \<open>System_Invariant\<close>, \<open>System_Progress\<close>, \<open>System_Properties\<close>: any number of webhook replicas, the
    controller and the objects around one ledger, interleaved at every call to the API server.
  \<^item> this theory: properties that span components.

  \<^bold>\<open>What is shown.\<close> Safety of the whole: objects and admitted CREATEs never exceed the limit in any
  interleaving, under the design's condition on the TTL and without reuse of deleted names; without
  the latter it can be exceeded, by a schedule given here. Contracts: \<open>Apply\<close> takes effect at most once, a grant holds
  its slot, a denial met a full ledger, every decision is fail-closed, a sweep keeps what counts and removes what has expired, all under whatever the
  other processes write between the attempts. Refinement: the arithmetic
  refines a ledger of slots, the heap version refines the arithmetic, the steps of the
  system are the code's own attempts. Progress: a conflict is always paid for by another's write,
  and a workspace whose live quotas have each been reconciled twice without a fault is enforced; what is
  enforced stays so whatever happens to quotas that govern something else. Lifecycle: one manager per export, starts
  exclude each other, references move exactly, no referenced export is left unattended. Convergence: after
  the last event the accounting manager serves every referenced export with a running registered set, after
  a history in which starts return promptly and fail only for a lone quota; and the mirror takes a bounded
  number of steps in any order, after which every quota that alone governs its resource, and that the
  population did not race with, has exactly its limit; so an admission of a replica is decided by such a
  quota as it is in the API server. Whatever the races, a replica that opens knows every quota its shards
  listed that nobody changed, and the next change of a quota after the opening heals what a race left of it,
  provided it alone governs its resource. Copies: no write to a deep copy shows in
  the original. The races that break convergence are given as schedules. Some theorems state what the code does where that is
  not what its comments say; they are in the manifest's findings.

  \<^bold>\<open>Bounds and fuel.\<close> Limits below \<open>2 ^ 30\<close> keep \<open>confirmed + live\<close> below the wrap-around of int32: an
  exact ledger holds at most the limit of each part. The store is verified for a TTL of at least one
  second, because stored expiry times lose their fraction. \<open>retry_n\<close> occurs in witnesses only; \<open>budget\<close>
  takes the number of steps as fuel, which \<open>budget_enough\<close> shows to be sufficient.

  In \<open>Retry\<close> one more round than failing starts is enough.

  \<^bold>\<open>Not modelled.\<close> The parsing of the command line, logging, TLS, health endpoints and the election itself
  (one worker is assumed where the code relies on it); metrics; the internals of kcp,
  controller-runtime and apimachinery, among them the copies of object metadata; deployment charts and
  tests. \<open>SetupWithManager\<close> of the quota reconciler is called by no program. Conditions of a quota and its
  \<open>autoApproveCeiling\<close> are declared in the API and read by no code, so they occur in \<open>Deep_Copy\<close> only. In
  \<open>System\<close> each call to the API server (get, create, status update) is a step of its own, whose answer may be
  lost. Sleeping is the interleaving: delays appear in \<open>Backoff_Schedule\<close> and \<open>Retry\<close> only.
  \<open>Lifecycle_Progress\<close> states the fairness it needs as a condition on the steps, \<open>Mirror\<close> as the set of calm quotas,
  and both give a schedule for what happens without it. A failed \<open>GetCluster\<close> or read of the watcher's
  \<open>Reconcile\<close>, which writes nothing and is retried, is in \<open>Mirror\<close> a key that stays in the queue, and in \<open>Watcher\<close>
  a branch of \<open>Watcher_Reconcile\<close>. The retry helper of \<open>Apply\<close> is any that behaves as documented, whatever its
  schedule; \<open>Backoff_Schedule\<close> is about the configured one.
\<close>

section \<open>From the installed entry to the ledger\<close>

text \<open>
  C3. The three programs meet at one ledger. When the controller reconciled a quota, the URL it
  installed carries a path that every opened webhook process, whatever happened before, serves with a
  validator that reserves for each workspace in exactly the ledger the controller's
  accounting of that quota folds the workspace's live objects into.
\<close>

theorem installed_url_reaches_ledger:
  assumes laws: "vwc_laws (cr_VWC r) stored" "cq_laws (cr_Client r) stored" and inst: "cr_Installer r = Some i"
    and got: "qc_Get (cr_Client r) name w = (Inr cq, w1)" "cq_DeletionTimestamp cq = None"
      "fl_Contains (cr_Finalizers r) cq webhookFinalizer"
    and res: "CQ_Reconcile r name w reg = ((done_result, None), w', reg')"
    and export: "cr_APIExportReader r (gr_APIExportName (cs_Governed (cq_Spec cq))) w1 = (Inr ex, w2)"
    and names: "routable (governed_ref cq (ae_IdentityHash ex))"
    and acct: "start_prepare d baseCfg controller_store list_cache pc
      (governed_of (cq\<lparr>cq_Status := (cq_Status cq)\<lparr>ct_IdentityHash := ae_IdentityHash ex\<rparr>\<rparr>)) = Inr ur"
    and webhook: "webhook_reach sha256 run s unmarshal poll vw_clients list_cqs w0 p" "vd_initialized (wp_dispatcher p)"
  shows "\<exists>wh path v. intercepts (installed stored w') (gr_Group (cs_Governed (cq_Spec cq))) version
      (gr_Resource (cs_Governed (cq_Spec cq))) wh \<and>
    wh_URL wh = wi_WebhookBaseURL i @ path \<and>
    fst (ServeHTTP sha256 run s path (wp_dispatcher p)) = Serve v \<and>
    cv_ref v = governed_ref cq (ae_IdentityHash ex) \<and>
    cv_ReserveFn v = Some (\<lambda>cluster. Store_Reserve sha256 run s (cluster_key ur cluster))"
proof (rule CQ_Reconcile_live [OF laws inst got res, of "[]"])
  fix ex' iden
  let ?k = "(rule_key cq)\<lparr>wk_IdentityHash := iden\<rparr>" and ?ref = "governed_ref cq (ae_IdentityHash ex)"
  assume "fst (cr_APIExportReader r (gr_APIExportName (cs_Governed (cq_Spec cq))) w1) = Inr ex'"
    "iden = ae_IdentityHash ex'"
    and entry: "get_entry (webhookEntryName ?k) (installed stored w') = Some (buildWebhookEntry i ?k)"
  with export have iden: "iden = ae_IdentityHash ex" by simp
  have ref: "key_ref ?k = ?ref" using iden by (simp add: key_ref_def rule_key_def governed_ref_def Let_def)
  from get_entry_intercepts [OF entry, of version]
  have "intercepts (installed stored w') (gr_Group (cs_Governed (cq_Spec cq))) version
      (gr_Resource (cs_Governed (cq_Spec cq))) (buildWebhookEntry i ?k)"
    by (simp add: rule_key_def Let_def)
  moreover have "wh_URL (buildWebhookEntry i ?k) = wi_WebhookBaseURL i @ validate_path ?ref"
    by (simp add: buildWebhookEntry_def webhookURL_path ref)
  moreover have "fst (ServeHTTP sha256 run s (validate_path ?ref) (wp_dispatcher p)) = Serve (bound_validator sha256 run s ?ref)"
    by (simp add: ServeHTTP_routes [OF webhook_reach_bound [OF webhook(1)]] webhook(2) parse_validate_path [OF names])
  moreover have "usage_key ?ref cluster = cluster_key ur cluster" for cluster
    using start_prepare_ledger [OF acct] by (simp add: usage_key_def cluster_key_def governed_ref_def governed_of_def Let_def)
  then have "cv_ReserveFn (bound_validator sha256 run s ?ref) = Some (\<lambda>cluster. Store_Reserve sha256 run s (cluster_key ur cluster))"
    by (simp add: bound_validator_def)
  moreover have "cv_ref (bound_validator sha256 run s ?ref) = ?ref" by (simp add: bound_validator_def)
  ultimately show ?thesis by blast
qed

text \<open>An opened webhook process, and the accounting of the demo quota.\<close>

definition demo_webhook_quota :: ConsumptionQuota where
  "demo_webhook_quota = finalized (demo_quota ''s3.example.com'')"

definition demo_lister :: "(unit, unit) cq_lister" where
  "demo_lister c x = (Inr [demo_webhook_quota], x)"

definition demo_clients :: "unit \<Rightarrow> (go_error + unit list) \<times> unit" where
  "demo_clients x = (Inr [()], x)"

definition demo_process :: "demo webhook_process" where
  "demo_process = \<lparr>wp_world = demo_world, wp_watcher = remember ''root:provider/q'' demo_webhook_quota new_watcher,
     wp_dispatcher = newValidatorDispatcher True\<rparr>"

abbreviation demo_reach :: "demo webhook_process \<Rightarrow> bool" where
  "demo_reach p \<equiv> webhook_reach demo_sha (retry_n 2) (demo_store (60 * second)) demo_unmarshal
     (retry_n 1) demo_clients demo_lister demo_world p"

lemma demo_process_reached: "demo_reach demo_process"
proof -
  have "populate_runnable (retry_n 1) demo_clients demo_lister () (new_process demo_world) = Inr demo_process"
    by (simp add: populate_runnable_def PopulateRegistry_def populate_attempt_def demo_clients_def demo_lister_def
        new_process_def demo_process_def newValidatorDispatcher_def demo_webhook_quota_def demo_quota_def)
  then have "webhook_step demo_sha (retry_n 2) (demo_store (60 * second)) demo_unmarshal
      (retry_n 1) demo_clients demo_lister (new_process demo_world) demo_process"
    by (rule webhook_step.populated)
  then show ?thesis by (simp add: webhook_reach_def r_into_rtranclp)
qed
theorem installed_url_reaches_ledger_witness:
  "\<exists>wh path v. intercepts (installed snd (fst (snd (CQ_Reconcile demo_reconciler ''q'' (Some demo_webhook_quota, None) New))))
      ''s3.example.com'' ''v1'' ''buckets'' wh \<and> wh_URL wh = ''https://quota-webhook.svc:9443'' @ path \<and>
    fst (ServeHTTP demo_sha (retry_n 2) (demo_store (60 * second)) path (wp_dispatcher demo_process)) = Serve v"
proof -
  let ?w = "(Some demo_webhook_quota, None) :: demo_ws"
  let ?r = "CQ_Reconcile demo_reconciler ''q'' ?w New"
  let ?ex = "\<lparr>ae_Resources = [], ae_IdentityHash = ''h1''\<rparr>"
  let ?deps = "demo_deps\<lparr>sd_newClient := \<lambda>_. Inr (demo_reader\<lparr>kr_GetExport := \<lambda>_. Inr \<lparr>ae_Resources =
      [\<lparr>xr_Group = ''s3.example.com'', xr_Name = ''buckets'', xr_Schema = ''s''\<rparr>], ae_IdentityHash = ''h1''\<rparr>\<rparr>)\<rparr>"
  let ?q = "demo_webhook_quota\<lparr>cq_Status := (cq_Status demo_webhook_quota)\<lparr>ct_IdentityHash := ae_IdentityHash ?ex\<rparr>\<rparr>"
  have "fst ?r = (done_result, None)" by code_simp
  then have r: "?r = ((done_result, None), fst (snd ?r), snd (snd ?r))" by (metis prod.collapse)
  have got: "qc_Get (cr_Client demo_reconciler) ''q'' ?w = (Inr demo_webhook_quota, ?w)"
    "cq_DeletionTimestamp demo_webhook_quota = None"
    "fl_Contains (cr_Finalizers demo_reconciler) demo_webhook_quota webhookFinalizer"
    by (simp_all add: demo_reconciler_def demo_cq_client_def demo_finalizers_def demo_quota_def demo_webhook_quota_def)
  have ex: "cr_APIExportReader demo_reconciler (gr_APIExportName (cs_Governed (cq_Spec demo_webhook_quota))) ?w = (Inr ?ex, ?w)"
    by (simp add: demo_reconciler_def demo_exports_def)
  have names: "routable (governed_ref demo_webhook_quota (ae_IdentityHash ?ex))" by code_simp
  have "start_prepare ?deps \<lparr>cfg_Host = ''h''\<rparr> (undefined :: unit Store) (\<lambda>c g w. (Inr [], w)) ''p'' (governed_of ?q) =
      Inr \<lparr>ur_Store = undefined, ur_Group = ''s3.example.com'', ur_Resource = ''buckets'', ur_IdentityHash = ''h1'',
        ur_ListLiveKeys = ListLiveKeys (\<lambda>c g w. (Inr [], w)) (''s3.example.com'', ''v1'', ''Bucket'' @ ''List'')\<rparr>"
    by (simp add: start_prepare_def demo_deps_def require_def governed_of_def demo_quota_def demo_webhook_quota_def Let_def
        demo_reader_def ResolveKind_def EndpointSliceName_def VirtualWorkspaceURL_def VirtualWorkspaceURLs_def)
  note acct = this
  have open_d: "vd_initialized (wp_dispatcher demo_process)" by (simp add: demo_process_def newValidatorDispatcher_def)
  show ?thesis
    using installed_url_reaches_ledger [OF demo_reconciler_laws got r ex names acct demo_process_reached open_d, of "''v1''"]
    by (auto simp: demo_webhook_quota_def demo_quota_def demo_installer_def NewWebhookInstaller_def)
qed

text \<open>
  C4. Every CREATE a webhook process admits, at any time and whatever it served and watched before,
  came after the registry was populated, on the path of an identity whose limit the registry
  holds at that moment, and its object holds a live reservation in the ledger of its workspace
  and that identity.
\<close>

theorem served_create_holds_slot:
  assumes env: "store_env s stored wire idle run" and ttl: "second \<le> TTL s"
    and reach: "webhook_reach sha256 run s unmarshal poll vw_clients list_cqs w0 p"
    and create: "rq_Operation req = ''CREATE''"
    and served: "serve_request sha256 run s unmarshal path req p = (Answered (Some r), p')"
    and ok: "allowed r"
  shows "vd_initialized (wp_dispatcher p) \<and> clusterFromRequest unmarshal req \<noteq> [] \<and>
    (\<exists>ref limit. routable ref \<and> path = validate_path ref \<and>
       LimitFor (rw_reg (wp_watcher p)) (clusterFromRequest unmarshal req) ref = Some limit \<and>
       slot_held stored s (ObjectName sha256 (usage_key ref (clusterFromRequest unmarshal req)))
         (objKey_of req) (wp_world p) (wp_world p'))"
proof -
  obtain ref where "vd_initialized (wp_dispatcher p)" "routable ref" "path = validate_path ref"
    and h: "Handle unmarshal (rw_reg (wp_watcher p)) (bound_validator sha256 run s ref) req (wp_world p) = (Some r, wp_world p')"
    using serve_request_cases [OF reach served] by blast
  with bound_create_holds_slot [OF env ttl create h ok] show ?thesis by auto
qed

theorem served_create_holds_slot_witness:
  "slot_held demo_stored (demo_store (60 * second)) (ObjectName demo_sha (usage_key demo_ref ''root:c1''))
     ''ns/a'' demo_world
     (wp_world (snd (serve_request demo_sha (retry_n 2) (demo_store (60 * second)) demo_unmarshal
        (validate_path demo_ref) (demo_create_request ''a'') demo_process)))"
proof -
  let ?s = "serve_request demo_sha (retry_n 2) (demo_store (60 * second)) demo_unmarshal
        (validate_path demo_ref) (demo_create_request ''a'') demo_process"
  have "fst ?s = Answered (Some (Allowed ''within quota''))" by code_simp
  then have s: "?s = (Answered (Some (Allowed ''within quota'')), snd ?s)" by (metis prod.collapse)
  have "second \<le> TTL (demo_store (60 * second))" "rq_Operation (demo_create_request ''a'') = ''CREATE''"
    by (simp_all add: demo_store_def demo_create_request_def)
  moreover have "clusterFromRequest demo_unmarshal (demo_create_request ''a'') = ''root:c1''"
    and "objKey_of (demo_create_request ''a'') = ''ns/a''"
    by code_simp+
  moreover have "wp_world demo_process = demo_world" by (simp add: demo_process_def)
  ultimately obtain ref where ref: "routable ref" "validate_path demo_ref = validate_path ref"
    and held: "slot_held demo_stored (demo_store (60 * second)) (ObjectName demo_sha (usage_key ref ''root:c1''))
      ''ns/a'' demo_world (wp_world (snd ?s))"
    using served_create_holds_slot [OF demo_env _ demo_process_reached _ s] by auto
  have "routable demo_ref" by code_simp
  then have "ref = demo_ref" using ref parse_validate_path by (metis option.inject)
  with held show ?thesis by simp
qed

text \<open>
  Admission and accounting name objects alike: for a listed cache, the key a request reserved
  under is among the live keys exactly when the request is named and its object is in the list,
  so a fold releases the reservations of the listed objects and never that of a
  \<open>generateName\<close> request.
\<close>

theorem live_keys_match_requests:
  assumes "list_cache cluster gvk w = (Inr items, w')"
    and "list_all (\<lambda>(ns, n). name_ok ns \<and> name_ok n) items"
    and "name_ok (rq_Namespace req)" and "name_ok (rq_Name req)"
  shows "\<exists>keys. ListLiveKeys list_cache gvk cluster w = (Inr keys, w') \<and> length keys = length items \<and>
    (objKey_of req \<in> set keys \<longleftrightarrow> rq_Name req \<noteq> [] \<and> (rq_Namespace req, rq_Name req) \<in> set items)"
proof -
  let ?keys = "map (\<lambda>(ns, n). ObjectKey ns n) items"
  have ok: "name_ok ns" "name_ok n" if "(ns, n) \<in> set items" for ns n
    using assms(2) that by (auto simp: list_all_iff)
  have "objKey_of req \<in> set ?keys \<longleftrightarrow> rq_Name req \<noteq> [] \<and> (rq_Namespace req, rq_Name req) \<in> set items"
  proof (cases "rq_Name req = []")
    case True
    then show ?thesis using ok ObjectKey_not_uid [of _ _ "rq_UID req"] by (force simp: objKey_of_def)
  next
    case False
    then show ?thesis using ok ObjectKey_inject [OF assms(3,4)] by (force simp: objKey_of_def)
  qed
  then show ?thesis using assms(1) by (simp add: ListLiveKeys_def live_keys_loop_eq)
qed

theorem live_keys_match_requests_witness:
  "objKey_of (demo_create_request ''a'') \<in> set [''ns/b'', ''ns/a'']"
proof -
  let ?l = "\<lambda>(c :: string) (g :: string \<times> string \<times> string) (w :: unit). (Inr [(''ns'', ''b''), (''ns'', ''a'')] :: go_error + (string \<times> string) list, w)"
  have l: "?l ''c'' (''g'', ''v1'', ''BucketList'') () = (Inr [(''ns'', ''b''), (''ns'', ''a'')], ())" by simp
  have "list_all (\<lambda>(ns, n). name_ok ns \<and> name_ok n) [(''ns'', ''b''), (''ns'', ''a'')]"
    "name_ok (rq_Namespace (demo_create_request ''a''))" "name_ok (rq_Name (demo_create_request ''a''))"
    by (simp_all add: name_ok_def demo_create_request_def)
  from live_keys_match_requests [of ?l, OF l this]
  show ?thesis by (auto simp: ListLiveKeys_def ObjectKey_def demo_create_request_def)
qed

section \<open>From a quota to the decisions\<close>

text \<open>
  The process with atomic events decides as the replica does: on the mirror of a quota at rest, an opened
  one follows the quota as it is in the API server.
\<close>

lemma admission_follows_policy:
  assumes mirror: "mirror_reach env calm \<sigma>" "sole_governor env k ref" "k \<in> calm" "\<not> pending \<sigma> k" "thread_key (mr_worker \<sigma>) \<noteq> Some k"
    and webhook: "webhook_reach sha256 run s unmarshal poll vw_clients list_cqs w0 p" "vd_initialized (wp_dispatcher p)"
    and same: "wp_watcher p = mr_watcher \<sigma>"
    and req: "routable ref" "rq_Operation req = ''CREATE''" "clusterFromRequest unmarshal req \<noteq> []"
    and served: "serve_request sha256 run s unmarshal (validate_path ref) req p = (a, p')"
  shows "(gone (mr_server \<sigma> k) \<longrightarrow>
      a = Answered (Some (Errored 500 (ErrMsg (not_synced_msg ref)))) \<and> wp_world p' = wp_world p) \<and>
    (\<forall>cq. mr_server \<sigma> k = Some cq \<and> enforceable cq \<longrightarrow>
      (\<exists>r. a = Answered (Some r) \<and>
         (allowed r \<longleftrightarrow> fst (Store_Reserve sha256 run s (usage_key ref (clusterFromRequest unmarshal req))
            (objKey_of req) (cs_DefaultLimit (cq_Spec cq)) (wp_world p)) = Inr True)))"
  using open_decides [OF webhook_reach_bound [OF webhook(1)] webhook(2) req served]
    mirrored_limit [OF mirror, of "clusterFromRequest unmarshal req"] same
  by auto

section \<open>What a changed quota leaves behind\<close>

fun event_entry :: "quota_event \<Rightarrow> string" where
  "event_entry (Applied cq) = webhookEntryName (rule_key cq)"
| "event_entry (Deleted cq) = webhookEntryName (rule_key cq)"

text \<open>An entry is touched by the events of its own name only.\<close>

lemma installer_run_keeps:
  assumes "vwc_laws c stored" and "list_all resolved_event es" and "installer_run c i es w = (None, w')"
    and "\<forall>e \<in> set es. event_entry e \<noteq> n"
  shows "get_entry n (installed stored w') = get_entry n (installed stored w)"
proof -
  have keys: "event_key (entry_event i e) = event_entry e" for e by (cases e) simp_all
  have "last_value n (map (entry_event i) es) x = x" for x
    using assms(4) by (induction es arbitrary: x) (auto simp: keys)
  with installer_last_event [OF assms(1-3)] show ?thesis by simp
qed

text \<open>
  C20. A quota that comes to govern another resource leaves the entry of the former one installed for good:
  whatever is reconciled and deleted under other entry names, the old entry still intercepts every CREATE
  of the resource it was for, fail-closed, and a webhook replica in whose run no quota governs that identity
  any more answers each of them with an error.
\<close>

theorem changed_quota_blocks_creates:
  assumes laws: "vwc_laws c stored"
    and entry: "get_entry (webhookEntryName (rule_key old)) (installed stored w) = Some (buildWebhookEntry i (rule_key old))"
    and events: "list_all resolved_event es" "installer_run c i es w = (None, w')"
      "\<forall>e \<in> set es. event_entry e \<noteq> webhookEntryName (rule_key old)"
    and replica: "replica_reach env calm sha256 run s unmarshal shards still server p" "mr_open (rp_mirror p)"
      "governed_by env {} (key_ref (rule_key old))"
    and req: "routable (key_ref (rule_key old))" "rq_Operation req = ''CREATE''" "clusterFromRequest unmarshal req \<noteq> []"
    and served: "replica_serve sha256 run s unmarshal (validate_path (key_ref (rule_key old))) req p = (a, p')"
  shows "(\<exists>wh. intercepts (installed stored w') (gr_Group (cs_Governed (cq_Spec old))) version
        (gr_Resource (cs_Governed (cq_Spec old))) wh \<and>
      wh_FailurePolicy wh = ''Fail'' \<and> wh_URL wh = wi_WebhookBaseURL i @ validate_path (key_ref (rule_key old))) \<and>
    a = Answered (Some (Errored 500 (ErrMsg (not_synced_msg (key_ref (rule_key old))))))"
proof
  have "get_entry (webhookEntryName (rule_key old)) (installed stored w') = Some (buildWebhookEntry i (rule_key old))"
    using installer_run_keeps [OF laws events] entry by simp
  from get_entry_intercepts [OF this, of version]
  have "intercepts (installed stored w') (gr_Group (cs_Governed (cq_Spec old))) version
      (gr_Resource (cs_Governed (cq_Spec old))) (buildWebhookEntry i (rule_key old))"
    by (simp add: rule_key_def Let_def)
  moreover have "wh_FailurePolicy (buildWebhookEntry i (rule_key old)) = ''Fail''"
    "wh_URL (buildWebhookEntry i (rule_key old)) = wi_WebhookBaseURL i @ validate_path (key_ref (rule_key old))"
    by (simp_all add: buildWebhookEntry_def webhookURL_path)
  ultimately show "\<exists>wh. intercepts (installed stored w') (gr_Group (cs_Governed (cq_Spec old))) version
        (gr_Resource (cs_Governed (cq_Spec old))) wh \<and>
      wh_FailurePolicy wh = ''Fail'' \<and> wh_URL wh = wi_WebhookBaseURL i @ validate_path (key_ref (rule_key old))"
    by blast
  show "a = Answered (Some (Errored 500 (ErrMsg (not_synced_msg (key_ref (rule_key old))))))"
    using replica_decides [OF replica(1,2) req served]
      ungoverned_no_limit [OF replica(1,3), of "clusterFromRequest unmarshal req"] by simp
qed

text \<open>A quota for buckets is changed to govern objects, reconciled, and deleted; no quota is left.\<close>

definition changed_quota :: ConsumptionQuota where
  "changed_quota = demo_quota ''s3.example.com''
     \<lparr>cq_Spec := (cq_Spec (demo_quota ''s3.example.com''))
       \<lparr>cs_Governed := (cs_Governed (cq_Spec (demo_quota ''s3.example.com'')))\<lparr>gr_Resource := ''objects''\<rparr>\<rparr>\<rparr>"

definition bare_replica :: "demo replica" where
  "bare_replica = (replica_init Map.empty demo_world)\<lparr>rp_todo := Some [], rp_dispatcher := newValidatorDispatcher True,
     rp_mirror := (mirror_init Map.empty)\<lparr>mr_open := True\<rparr>\<rparr>"

lemma bare_replica_reached:
  "replica_reach (governs (resource_of [])) {} demo_sha (retry_n 2) (demo_store (60 * second)) demo_unmarshal [] {} Map.empty bare_replica"
proof -
  let ?step = "replica_step (governs (resource_of [])) {} demo_sha (retry_n 2) (demo_store (60 * second)) demo_unmarshal [] {}"
  let ?p0 = "replica_init Map.empty demo_world" and ?p1 = "(replica_init Map.empty demo_world)\<lparr>rp_todo := Some []\<rparr>"
  have "?step ?p0 ?p1" by (rule attempts) (simp_all add: replica_init_def mirror_init_def)
  moreover have "?step ?p1 bare_replica"
    using opens [of ?p1] by (simp add: replica_init_def mirror_init_def bare_replica_def newValidatorDispatcher_def)
  ultimately have "?step\<^sup>*\<^sup>* ?p0 bare_replica" by (meson converse_rtranclp_into_rtranclp r_into_rtranclp)
  then show ?thesis unfolding replica_reach_def by (auto simp: mirror_start_def)
qed

theorem changed_quota_blocks_creates_witness:
  "let w = snd (Installer_Reconcile demo_vwc demo_installer (demo_quota ''s3.example.com'') None);
       w' = snd (installer_run demo_vwc demo_installer [Applied changed_quota, Deleted changed_quota] w)
   in (\<exists>wh. intercepts (installed (\<lambda>w. w) w') ''s3.example.com'' ''v1'' ''buckets'' wh \<and> wh_FailurePolicy wh = ''Fail'') \<and>
      fst (policy_serve ''a'' bare_replica) = Answered (Some (Errored 500 (ErrMsg (not_synced_msg demo_ref))))"
proof -
  let ?old = "demo_quota ''s3.example.com''" and ?es = "[Applied changed_quota, Deleted changed_quota]"
  let ?w = "snd (Installer_Reconcile demo_vwc demo_installer ?old None)"
  let ?r = "installer_run demo_vwc demo_installer ?es ?w"
  have ref: "key_ref (rule_key ?old) = demo_ref" by code_simp
  have entry: "get_entry (webhookEntryName (rule_key ?old)) (installed (\<lambda>w. w) ?w) = Some (buildWebhookEntry demo_installer (rule_key ?old))"
    by code_simp
  have run: "?r = (None, snd ?r)" by code_simp
  have names: "\<forall>e \<in> set ?es. event_entry e \<noteq> webhookEntryName (rule_key ?old)" by code_simp
  have res: "list_all resolved_event ?es" by (simp add: resolved_event_def changed_quota_def demo_quota_def)
  have f: "governed_by (governs (resource_of [])) {} (key_ref (rule_key ?old))"
    unfolding ref by (auto simp: governed_by_def governs_def resource_of_def demo_ref_def)
  have gate: "mr_open (rp_mirror bare_replica)" by (simp add: bare_replica_def)
  have cl: "clusterFromRequest demo_unmarshal (demo_create_request ''a'') \<noteq> []" by (simp add: policy_facts)
  have s: "policy_serve ''a'' bare_replica = (fst (policy_serve ''a'' bare_replica), snd (policy_serve ''a'' bare_replica))"
    by simp
  from changed_quota_blocks_creates [OF demo_vwc_laws entry res run names bare_replica_reached gate f, unfolded ref,
      OF policy_facts(3,4) cl s, of "''v1''"]
  show ?thesis unfolding Let_def by (auto simp: demo_quota_def)
qed

text \<open>
  A dry run holds a slot: the entry declares that the webhook has no side effects, but \<open>Handle\<close> does not
  look at the request's \<open>DryRun\<close>, and an admitted dry run leaves a live reservation as any other CREATE.
\<close>

lemma dry_run_create_holds_slot:
  assumes "store_env s stored wire idle run" and "second \<le> TTL s"
    and "rq_Operation req = ''CREATE''" and "rq_DryRun req = Some True"
    and "Handle unmarshal reg (bound_validator sha256 run s ref) req w = (Some r, w')" and "allowed r"
  shows "wh_SideEffects (buildWebhookEntry i key) = ''None'' \<and>
    slot_held stored s (ObjectName sha256 (usage_key ref (clusterFromRequest unmarshal req))) (objKey_of req) w w'"
  using bound_create_holds_slot [OF assms(1-3,5,6)] by (simp add: buildWebhookEntry_def)

section \<open>The guard on the TTL\<close>

lemma SweepAll_TTL: "SweepAll sha256 run (s\<lparr>TTL := x\<rparr>) ks w = SweepAll sha256 run s ks w"
  by (induction sha256 run s ks w rule: SweepAll.induct) (simp_all add: Apply_def split: prod.split option.split)

text \<open>
  The start-up check of the controller guards a TTL nobody uses: the controller's folds and
  sweeps do the same under every TTL, and the TTL that reservations get is the webhook's own, with
  which the webhook starts whatever its value.
\<close>

theorem resync_guard_misses_webhook_ttl:
  "SweepAll sha256 run (s\<lparr>TTL := x\<rparr>) ks w = SweepAll sha256 run s ks w \<and>
   ReconcileCluster sha256 run (r\<lparr>ur_Store := (ur_Store r)\<lparr>TTL := x\<rparr>\<rparr>) cluster w = ReconcileCluster sha256 run r cluster w \<and>
   start_webhook (fl\<lparr>wf_reservationTTL := x\<rparr>) d = map_sum id (\<lambda>st. st\<lparr>wse_TTL := x\<rparr>) (start_webhook fl d)"
proof -
  have m: "map_sum id (\<lambda>st. st\<lparr>wse_TTL := x\<rparr>) (check msg e rest) = check msg e (map_sum id (\<lambda>st. st\<lparr>wse_TTL := x\<rparr>) rest)"
    for msg e and rest :: "startup_failure + webhook_setup" by (simp add: check_def split: option.split)
  have c: "map_sum id (\<lambda>st. st\<lparr>wse_TTL := x\<rparr>) (call msg a rest) = call msg a (\<lambda>y. map_sum id (\<lambda>st. st\<lparr>wse_TTL := x\<rparr>) (rest y))"
    for msg and a :: "go_error + 'b" and rest :: "'b \<Rightarrow> startup_failure + webhook_setup" by (simp add: call_def split: sum.split)
  have "start_webhook (fl\<lparr>wf_reservationTTL := x\<rparr>) d = map_sum id (\<lambda>st. st\<lparr>wse_TTL := x\<rparr>) (start_webhook fl d)"
    by (simp add: start_webhook_def webhook_options_def m c split: option.split)
  moreover have "ReconcileCluster sha256 run (r\<lparr>ur_Store := (ur_Store r)\<lparr>TTL := x\<rparr>\<rparr>) cluster w = ReconcileCluster sha256 run r cluster w"
    by (simp add: ReconcileCluster_def Apply_def cluster_key_def split: prod.split sum.split)
  ultimately show ?thesis by (simp add: SweepAll_TTL)
qed

end
